(* ===== verification/Prelude.thy ===== *)
theory Prelude
  imports Main "HOL-Library.Word" "HOL-Library.Multiset" "HOL-Library.Monad_Syntax"
begin

text \<open>
  What every component shares: the types the Go sources are written with (bytes, instants,
  durations), the few functions of Go's standard library the code calls (\<^verbatim>\<open>sort.Search\<close>,
  \<^verbatim>\<open>sort.SliceStable\<close>, \<^verbatim>\<open>time.Time.Sub\<close>, \<^verbatim>\<open>strings.TrimSpace\<close>), generic lemmas on lists and
  windows of lists, and three interfaces as locales: comparators that a stable sort accepts,
  writers that do not depend on how a byte stream is cut into chunks, and state machines with
  an invariant.
\<close>

unbundle bit_operations_syntax

named_theorems window_simps \<open>facts on windows of a byte stream\<close>
named_theorems panic_simps \<open>indexing and slicing within range\<close>
named_theorems sort_simps \<open>facts on stable sorting\<close>

subsection \<open>Types\<close>

type_synonym byte = "8 word"
type_synonym bytes = "byte list"

text \<open>
  A \<^verbatim>\<open>time.Time\<close> is the number of nanoseconds since the zero time (the first instant of
  year 1, UTC), so \<^verbatim>\<open>t.IsZero()\<close> is \<open>t = 0\<close>; a \<^verbatim>\<open>time.Duration\<close> is a number of
  nanoseconds. \<^verbatim>\<open>Before\<close>, \<^verbatim>\<open>After\<close>, \<^verbatim>\<open>Equal\<close> and \<^verbatim>\<open>Add\<close> are the order and the addition
  of \<^typ>\<open>int\<close>.
\<close>

type_synonym gotime = int
type_synonym duration = int

abbreviation Second :: duration where "Second \<equiv> 1000000000"
abbreviation Millisecond :: duration where "Millisecond \<equiv> 1000000"
abbreviation Minute :: duration where "Minute \<equiv> 60000000000"
abbreviation Hour :: duration where "Hour \<equiv> 3600000000000"

text \<open>\<^verbatim>\<open>time.Time.Sub\<close> saturates at the ends of the 64-bit duration range.\<close>

definition time_sub :: "gotime \<Rightarrow> gotime \<Rightarrow> duration" where
  "time_sub a b = max (- (2 ^ 63)) (min (2 ^ 63 - 1) (a - b))"

lemma time_sub_ge_iff:
  "0 < d \<Longrightarrow> d < 2 ^ 63 \<Longrightarrow> d \<le> time_sub a b \<longleftrightarrow> b + d \<le> a"
  by (auto simp: time_sub_def)

lemma time_sub_nonneg: "b \<le> a \<Longrightarrow> 0 \<le> time_sub a b"
  by (auto simp: time_sub_def)

text \<open>Go's integer division truncates towards zero.\<close>

definition quot :: "int \<Rightarrow> int \<Rightarrow> int" where
  "quot a b = sgn a * sgn b * (\<bar>a\<bar> div \<bar>b\<bar>)"

lemma quot_nonneg [simp]: "0 \<le> a \<Longrightarrow> 0 \<le> b \<Longrightarrow> quot a b = a div b"
  by (cases "a = 0"; cases "b = 0") (auto simp: quot_def sgn_if)

text \<open>Go's remainder has the sign of its first argument.\<close>

definition go_rem :: "int \<Rightarrow> int \<Rightarrow> int" where
  "go_rem a b = a - b * quot a b"

subsection \<open>Reading big-endian fields\<close>

text \<open>Go's \<^verbatim>\<open>int(a&m)<<8 | int(b)\<close> on a masked byte and a byte.\<close>

definition be16 :: "byte \<Rightarrow> byte \<Rightarrow> nat" where
  "be16 a b = push_bit 8 (unat a) OR unat b"

lemma or_disjoint_nat: "b < 2 ^ n \<Longrightarrow> push_bit n a OR b = a * 2 ^ n + (b :: nat)"
proof -
  assume "b < 2 ^ n"
  then have b: "take_bit n b = b" by (simp add: take_bit_nat_eq_self)
  have "push_bit n a AND take_bit n b = 0"
    by (rule bit_eqI) (auto simp: bit_simps)
  then show ?thesis
    by (simp add: b disjunctive_add_eq_or [symmetric] push_bit_eq_mult)
qed

lemma be16_eq: "be16 a b = unat a * 256 + unat b"
proof -
  have "unat b < 2 ^ 8" using unsigned_less [of b] by simp
  from or_disjoint_nat [OF this] show ?thesis by (simp add: be16_def)
qed

lemma unat_and_le: "unat (a AND m) \<le> unat (m :: byte)"
  by (rule word_and_le1 [THEN word_le_nat_alt [THEN iffD1]])

subsection \<open>Indexing and slicing\<close>

text \<open>
  Where the code indexes or slices a byte slice the models do so in the option monad, and None
  is the panic of an index out of range.
\<close>

definition idx :: "'a list \<Rightarrow> nat \<Rightarrow> 'a option" where
  "idx xs i = (if i < length xs then Some (xs ! i) else None)"

definition slice_from :: "'a list \<Rightarrow> nat \<Rightarrow> 'a list option" where
  "slice_from xs i = (if i \<le> length xs then Some (drop i xs) else None)"

definition slice_to :: "'a list \<Rightarrow> nat \<Rightarrow> 'a list option" where
  "slice_to xs i = (if i \<le> length xs then Some (take i xs) else None)"

lemma idx_in [panic_simps]: "i < length xs \<Longrightarrow> idx xs i = Some (xs ! i)"
  by (simp add: idx_def)

lemma slice_from_in [panic_simps]: "i \<le> length xs \<Longrightarrow> slice_from xs i = Some (drop i xs)"
  by (simp add: slice_from_def)

lemma slice_to_in [panic_simps]: "i \<le> length xs \<Longrightarrow> slice_to xs i = Some (take i xs)"
  by (simp add: slice_to_def)

definition slice :: "'a list \<Rightarrow> nat \<Rightarrow> nat \<Rightarrow> 'a list option" where
  "slice xs i j = (if i \<le> j \<and> j \<le> length xs then Some (take (j - i) (drop i xs)) else None)"

lemma slice_in [panic_simps]: "i \<le> j \<Longrightarrow> j \<le> length xs \<Longrightarrow> slice xs i j = Some (take (j - i) (drop i xs))"
  by (simp add: slice_def)

subsection \<open>Windows of a stream\<close>

text \<open>The bytes at positions \<open>a\<close> to \<open>b\<close> (not included) of a stream that starts at 0.\<close>

definition window :: "'a list \<Rightarrow> int \<Rightarrow> int \<Rightarrow> 'a list" where
  "window xs a b = take (nat (b - a)) (drop (nat a) xs)"

lemma length_window [window_simps]:
  "0 \<le> a \<Longrightarrow> a \<le> b \<Longrightarrow> b \<le> int (length xs) \<Longrightarrow> length (window xs a b) = nat (b - a)"
  by (simp add: window_def)

lemma window_empty [simp]: "b \<le> a \<Longrightarrow> window xs a b = []"
  by (simp add: window_def)

lemma window_append_old [window_simps]:
  "0 \<le> a \<Longrightarrow> b \<le> int (length xs) \<Longrightarrow> window (xs @ ys) a b = window xs a b"
  by (auto simp: window_def)

lemma window_split [window_simps]:
  assumes "0 \<le> a" "a \<le> b" "b \<le> c"
  shows "window xs a b @ window xs b c = window xs a c"
proof -
  have "nat (c - a) = nat (b - a) + nat (c - b)" using assms by simp
  moreover have "drop (nat b) xs = drop (nat (b - a)) (drop (nat a) xs)"
    using assms by (simp add: nat_add_distrib [symmetric])
  ultimately show ?thesis by (simp only: window_def take_add)
qed

lemma window_new [window_simps]:
  "a = int (length xs) \<Longrightarrow> b = a + int (length ys) \<Longrightarrow> window (xs @ ys) a b = ys"
  by (simp add: window_def)

lemma take_drop_window [window_simps]:
  assumes "0 \<le> a" "0 \<le> i" "0 \<le> n" "i + n \<le> b - a"
  shows "take (nat n) (drop (nat i) (window xs a b)) = window xs (a + i) (a + i + n)"
proof -
  have "min (nat n) (nat (b - a) - nat i) = nat n" using assms by linarith
  then show ?thesis
    using assms by (simp add: window_def drop_take nat_add_distrib add.commute min.commute)
qed

subsection \<open>Binary search, as in sort.Search\<close>

function search_from :: "(nat \<Rightarrow> bool) \<Rightarrow> nat \<Rightarrow> nat \<Rightarrow> nat" where
  "search_from f i j =
     (if i < j then
        let h = (i + j) div 2 in
        if \<not> f h then search_from f (h + 1) j else search_from f i h
      else i)"
  by pat_completeness auto
termination
  by (relation "measure (\<lambda>(f, i, j). j - i)") auto

declare search_from.simps [simp del]

definition go_search :: "nat \<Rightarrow> (nat \<Rightarrow> bool) \<Rightarrow> nat" where
  "go_search n f = search_from f 0 n"

lemma search_from_least:
  assumes "\<And>a b. a \<le> b \<Longrightarrow> b < n \<Longrightarrow> f a \<Longrightarrow> f b"
    and "i \<le> j" and "j \<le> n" and "\<forall>k<i. \<not> f k" and "\<forall>k. j \<le> k \<and> k < n \<longrightarrow> f k"
  shows "search_from f i j \<le> j \<and> (\<forall>k < search_from f i j. \<not> f k) \<and>
    (\<forall>k. search_from f i j \<le> k \<and> k < n \<longrightarrow> f k)"
  using assms
proof (induction f i j rule: search_from.induct)
  case (1 f i j)
  note mono = "1.prems"(1)
  show ?case
  proof (cases "i < j")
    case False
    then have "search_from f i j = i" by (simp add: search_from.simps [of f i j])
    with False "1.prems" show ?thesis by auto
  next
    case True
    let ?h = "(i + j) div 2"
    show ?thesis
    proof (cases "f ?h")
      case hit: True
      have up: "\<forall>k. ?h \<le> k \<and> k < n \<longrightarrow> f k" using mono hit by blast
      have "search_from f i ?h \<le> ?h \<and> (\<forall>k < search_from f i ?h. \<not> f k) \<and>
          (\<forall>k. search_from f i ?h \<le> k \<and> k < n \<longrightarrow> f k)"
        by (rule "1.IH"(2)) (use True hit up "1.prems" in auto)
      with True hit show ?thesis by (auto simp: search_from.simps [of f i j] Let_def)
    next
      case miss: False
      have down: "\<forall>k < ?h + 1. \<not> f k"
      proof (intro allI impI)
        fix k assume "k < ?h + 1"
        then have "k \<le> ?h" "?h < n" using True "1.prems"(3) by auto
        then show "\<not> f k" using mono miss by blast
      qed
      have "search_from f (?h + 1) j \<le> j \<and> (\<forall>k < search_from f (?h + 1) j. \<not> f k) \<and>
          (\<forall>k. search_from f (?h + 1) j \<le> k \<and> k < n \<longrightarrow> f k)"
        by (rule "1.IH"(1)) (use True miss down "1.prems" in auto)
      with True miss show ?thesis by (auto simp: search_from.simps [of f i j] Let_def)
    qed
  qed
qed

lemma go_search_least:
  assumes "\<And>a b. a \<le> b \<Longrightarrow> b < n \<Longrightarrow> f a \<Longrightarrow> f b"
  shows "go_search n f \<le> n" and "k < go_search n f \<Longrightarrow> \<not> f k"
    and "go_search n f \<le> k \<Longrightarrow> k < n \<Longrightarrow> f k"
proof -
  have "go_search n f \<le> n \<and> (\<forall>k < go_search n f. \<not> f k) \<and> (\<forall>k. go_search n f \<le> k \<and> k < n \<longrightarrow> f k)"
    unfolding go_search_def by (rule search_from_least [OF assms]) auto
  then show "go_search n f \<le> n" "k < go_search n f \<Longrightarrow> \<not> f k"
    "go_search n f \<le> k \<Longrightarrow> k < n \<Longrightarrow> f k"
    by blast+
qed

subsection \<open>Stable sorting, as in sort.SliceStable\<close>

text \<open>
  \<^verbatim>\<open>sort.SliceStable\<close> returns the one permutation that is sorted by the comparator and keeps
  elements that compare equal in their order. Insertion from the right computes it.
\<close>

fun insert_by :: "('a \<Rightarrow> 'a \<Rightarrow> bool) \<Rightarrow> 'a \<Rightarrow> 'a list \<Rightarrow> 'a list" where
  "insert_by lt x [] = [x]"
| "insert_by lt x (y # ys) = (if lt y x then y # insert_by lt x ys else x # y # ys)"

definition stable_sort :: "('a \<Rightarrow> 'a \<Rightarrow> bool) \<Rightarrow> 'a list \<Rightarrow> 'a list" where
  "stable_sort lt xs = foldr (insert_by lt) xs []"

lemma mset_insert_by [sort_simps]: "mset (insert_by lt x ys) = add_mset x (mset ys)"
  by (induction ys) auto

lemma mset_stable_sort [sort_simps]: "mset (stable_sort lt xs) = mset xs"
  by (induction xs) (auto simp: stable_sort_def sort_simps)

lemma set_insert_by [simp]: "set (insert_by lt x ys) = insert x (set ys)"
  by (metis mset_insert_by set_mset_add_mset_insert set_mset_mset)

lemma set_stable_sort [simp]: "set (stable_sort lt xs) = set xs"
  by (metis mset_stable_sort set_mset_mset)

lemma length_stable_sort [simp]: "length (stable_sort lt xs) = length xs"
  by (metis mset_stable_sort size_mset)

text \<open>What \<^verbatim>\<open>sort\<close> asks of a comparator: a strict weak order.\<close>

locale comparator =
  fixes lt :: "'a \<Rightarrow> 'a \<Rightarrow> bool"
  assumes asym: "lt x y \<Longrightarrow> \<not> lt y x"
    and negtrans: "\<not> lt x y \<Longrightarrow> \<not> lt y z \<Longrightarrow> \<not> lt x z"
begin

abbreviation (input) in_order :: "'a list \<Rightarrow> bool" where
  "in_order \<equiv> sorted_wrt (\<lambda>x y. \<not> lt y x)"

lemma insert_by_in_order: "in_order ys \<Longrightarrow> in_order (insert_by lt x ys)"
proof (induction ys)
  case Nil
  then show ?case by simp
next
  case (Cons y ys)
  show ?case
  proof (cases "lt y x")
    case True
    with Cons asym show ?thesis by auto
  next
    case False
    with Cons.prems negtrans show ?thesis by auto
  qed
qed

lemma stable_sort_in_order: "in_order (stable_sort lt xs)"
  by (induction xs) (auto simp: stable_sort_def insert_by_in_order)

lemma insert_by_stable:
  "filter (\<lambda>y. \<not> lt k y \<and> \<not> lt y k) (insert_by lt x ys) =
   filter (\<lambda>y. \<not> lt k y \<and> \<not> lt y k) (x # ys)"
proof (induction ys)
  case Nil
  then show ?case by simp
next
  case (Cons y ys)
  have "\<not> (\<not> lt k y \<and> \<not> lt y k \<and> \<not> lt k x \<and> \<not> lt x k)" if "lt y x"
    using that negtrans by blast
  with Cons show ?case by auto
qed

lemma stable_sort_stable:
  "filter (\<lambda>y. \<not> lt k y \<and> \<not> lt y k) (stable_sort lt xs) =
   filter (\<lambda>y. \<not> lt k y \<and> \<not> lt y k) xs"
  by (induction xs) (auto simp: stable_sort_def insert_by_stable)

lemma stable_sort_sorted: "in_order xs \<Longrightarrow> stable_sort lt xs = xs"
proof (induction xs)
  case Nil
  then show ?case by (simp add: stable_sort_def)
next
  case (Cons x xs)
  then have "stable_sort lt (x # xs) = insert_by lt x xs"
    by (simp add: stable_sort_def)
  with Cons.prems show ?case by (cases xs) auto
qed

end

text \<open>A comparator on a key in a linear order, the shape of most of the code's comparators.\<close>

locale key_comparator =
  fixes lt :: "'a \<Rightarrow> 'a \<Rightarrow> bool" and key :: "'a \<Rightarrow> 'k::linorder"
  assumes lt_key: "lt x y \<longleftrightarrow> key x < key y"

sublocale key_comparator \<subseteq> comparator lt
  by unfold_locales (auto simp: lt_key)

context key_comparator
begin

lemma stable_sort_keys: "sorted (map key (stable_sort lt xs))"
  using stable_sort_in_order [of xs] by (simp add: sorted_map lt_key not_less)

end

subsection \<open>Writers fed in chunks\<close>

text \<open>
  The transport-stream readers are \<^verbatim>\<open>io.Writer\<close>s: the network cuts the stream anywhere. The
  contract is that what can be observed of the state depends on the bytes only. \<open>inv\<close> is
  the state invariant between two writes and \<open>obs\<close> what is observed.
\<close>

locale chunked_writer =
  fixes feed :: "'s \<Rightarrow> 'b list \<Rightarrow> 's" and inv :: "'s \<Rightarrow> bool" and obs :: "'s \<Rightarrow> 'o"
  assumes feed_inv: "inv s \<Longrightarrow> inv (feed s p)"
    and feed_nil: "inv s \<Longrightarrow> obs (feed s []) = obs s"
    and feed_append: "inv s \<Longrightarrow> obs (feed (feed s p) q) = obs (feed s (p @ q))"
    and feed_cong: "inv s \<Longrightarrow> inv t \<Longrightarrow> obs s = obs t \<Longrightarrow> obs (feed s p) = obs (feed t p)"
begin

lemma chunks_inv: "inv s \<Longrightarrow> inv (foldl feed s ps)"
  by (induction ps arbitrary: s) (auto simp: feed_inv)

theorem chunks_concat: "inv s \<Longrightarrow> obs (foldl feed s ps) = obs (feed s (concat ps))"
proof (induction ps arbitrary: s rule: rev_induct)
  case Nil
  then show ?case by (simp add: feed_nil)
next
  case (snoc p ps)
  have "obs (feed (foldl feed s ps) p) = obs (feed (feed s (concat ps)) p)"
    using snoc by (intro feed_cong) (auto simp: chunks_inv feed_inv)
  also have "\<dots> = obs (feed s (concat (ps @ [p])))"
    using snoc.prems by (simp add: feed_append)
  finally show ?case by simp
qed

corollary chunks_agree:
  "inv s \<Longrightarrow> concat ps = concat qs \<Longrightarrow> obs (foldl feed s ps) = obs (foldl feed s qs)"
  by (simp add: chunks_concat)

end

subsection \<open>State machines\<close>

text \<open>A component whose operations are steps of a relation, with an inductive invariant.\<close>

locale machine =
  fixes init :: "'s \<Rightarrow> bool" and step :: "'s \<Rightarrow> 's \<Rightarrow> bool" and inv :: "'s \<Rightarrow> bool"
  assumes init_inv: "init s \<Longrightarrow> inv s"
    and step_inv: "inv s \<Longrightarrow> step s t \<Longrightarrow> inv t"
begin

definition reachable :: "'s \<Rightarrow> bool" where
  "reachable t \<longleftrightarrow> (\<exists>s. init s \<and> step\<^sup>*\<^sup>* s t)"

lemma steps_inv: "step\<^sup>*\<^sup>* s t \<Longrightarrow> inv s \<Longrightarrow> inv t"
  by (induction rule: rtranclp_induct) (auto intro: step_inv)

lemma reachable_inv: "reachable t \<Longrightarrow> inv t"
  by (auto simp: reachable_def intro: steps_inv init_inv)

end

subsection \<open>White space, as in strings.TrimSpace\<close>

text \<open>
  A Go string is a sequence of bytes, here a \<^typ>\<open>string\<close>. The white space of
  \<^verbatim>\<open>unicode.IsSpace\<close> is a fixed set of runes; each is listed by its UTF-8 bytes.
\<close>

definition space_runes :: "string list" where
  "space_runes =
     [[CHR 0x09], [CHR 0x0A], [CHR 0x0B], [CHR 0x0C], [CHR 0x0D], [CHR 0x20],
      [CHR 0xC2, CHR 0x85], [CHR 0xC2, CHR 0xA0], [CHR 0xE1, CHR 0x9A, CHR 0x80],
      [CHR 0xE2, CHR 0x80, CHR 0x80], [CHR 0xE2, CHR 0x80, CHR 0x81],
      [CHR 0xE2, CHR 0x80, CHR 0x82], [CHR 0xE2, CHR 0x80, CHR 0x83],
      [CHR 0xE2, CHR 0x80, CHR 0x84], [CHR 0xE2, CHR 0x80, CHR 0x85],
      [CHR 0xE2, CHR 0x80, CHR 0x86], [CHR 0xE2, CHR 0x80, CHR 0x87],
      [CHR 0xE2, CHR 0x80, CHR 0x88], [CHR 0xE2, CHR 0x80, CHR 0x89],
      [CHR 0xE2, CHR 0x80, CHR 0x8A], [CHR 0xE2, CHR 0x80, CHR 0xA8],
      [CHR 0xE2, CHR 0x80, CHR 0xA9], [CHR 0xE2, CHR 0x80, CHR 0xAF],
      [CHR 0xE2, CHR 0x81, CHR 0x9F], [CHR 0xE3, CHR 0x80, CHR 0x80]]"

fun strip_prefix :: "'a list \<Rightarrow> 'a list \<Rightarrow> 'a list option" where
  "strip_prefix [] ys = Some ys"
| "strip_prefix (x # xs) [] = None"
| "strip_prefix (x # xs) (y # ys) = (if x = y then strip_prefix xs ys else None)"

fun strip_any :: "'a list list \<Rightarrow> 'a list \<Rightarrow> 'a list option" where
  "strip_any [] s = None"
| "strip_any (p # ps) s = (case strip_prefix p s of Some r \<Rightarrow> Some r | None \<Rightarrow> strip_any ps s)"

lemma strip_prefix_Some: "strip_prefix p s = Some r \<longleftrightarrow> s = p @ r"
  by (induction p s rule: strip_prefix.induct) auto

lemma strip_any_Some: "strip_any ps s = Some r \<Longrightarrow> \<exists>p \<in> set ps. s = p @ r"
  by (induction ps) (auto simp: strip_prefix_Some split: option.splits)

lemma strip_any_None: "strip_any ps s = None \<longleftrightarrow> (\<forall>p \<in> set ps. \<forall>r. s \<noteq> p @ r)"
proof (induction ps)
  case (Cons p ps)
  have "strip_prefix p s = None \<longleftrightarrow> (\<forall>r. s \<noteq> p @ r)"
    using strip_prefix_Some [of p s] by (cases "strip_prefix p s") auto
  with Cons show ?case by (auto split: option.splits)
qed simp

text \<open>The fuel is the length: every step takes at least one byte away.\<close>

fun trim_left_fuel :: "nat \<Rightarrow> 'a list list \<Rightarrow> 'a list \<Rightarrow> 'a list" where
  "trim_left_fuel 0 ps s = s"
| "trim_left_fuel (Suc n) ps s =
     (case strip_any ps s of None \<Rightarrow> s | Some r \<Rightarrow> trim_left_fuel n ps r)"

definition trim_left :: "string \<Rightarrow> string" where
  "trim_left s = trim_left_fuel (length s) space_runes s"

definition trim_right :: "string \<Rightarrow> string" where
  "trim_right s = rev (trim_left_fuel (length s) (map rev space_runes) (rev s))"

definition trim_space :: "string \<Rightarrow> string" where
  "trim_space s = trim_right (trim_left s)"

lemma trim_left_fuel_done:
  "\<forall>p \<in> set ps. p \<noteq> [] \<Longrightarrow> length s \<le> n \<Longrightarrow> strip_any ps (trim_left_fuel n ps s) = None"
proof (induction n arbitrary: s)
  case 0
  then show ?case by (auto simp: strip_any_None)
next
  case (Suc n)
  show ?case
  proof (cases "strip_any ps s")
    case (Some r)
    with Suc.prems obtain p where "p \<in> set ps" "s = p @ r" "p \<noteq> []"
      by (metis strip_any_Some)
    with Suc Some show ?thesis by (auto simp: Suc_le_eq neq_Nil_conv)
  qed auto
qed

end
