(* ===== verification/Ring.thy ===== *)
theory Ring
  imports Prelude
begin

text \<open>
  The timeshift ring of \<^verbatim>\<open>server/internal/ring/ring.go\<close>: the last stretch of one tuned
  multiplex, kept on disk in files of a fixed time span, with the newest bytes still in memory.

  \<^item> \<open>ring\<close> is the struct behind the mutex, one definition per method of the source.
  \<^item> \<open>sys\<close> adds what the methods act on: the folder's files, the flusher goroutine's open
    file and where it stands between its two critical sections, the files handed to
    \<^verbatim>\<open>removeFiles\<close>, and (as a ghost) every byte ever appended.
  \<^item> \<open>ring_step\<close> is one critical section, one file operation of the flusher or one
    removal, in any order the goroutines allow.

  A file is named by the position of its first byte: the printed name (\<^verbatim>\<open>%016d.ts\<close> in the
  ring's folder) is injective in it. Positions are unbounded integers where the code has
  \<^verbatim>\<open>int64\<close>: a multiplex would need thousands of years to wrap it.
\<close>

subsection \<open>State\<close>

type_synonym path = int

record segment =
  s_path :: path
  s_first :: int
  s_size :: int
  s_opened :: gotime

record mark =
  m_at :: gotime
  m_pos :: int

record ring =
  r_gen :: nat
  r_start :: int
  r_flushed :: int
  r_received :: int
  r_pending :: "bytes list"
  r_queued :: int
  r_segs :: "segment list"
  r_marks :: "mark list"
  r_lastMark :: gotime
  r_lastAt :: gotime
  r_window :: duration
  r_low :: bool
  r_off :: bool
  r_closed :: bool

abbreviation pendingCap :: int where "pendingCap \<equiv> 32 * 2 ^ 20"
abbreviation markEvery :: duration where "markEvery \<equiv> Second"
abbreviation resumeRoom :: int where "resumeRoom \<equiv> 2 ^ 30"

definition Open :: ring where
  "Open = \<lparr>r_gen = 0, r_start = 0, r_flushed = 0, r_received = 0, r_pending = [], r_queued = 0,
     r_segs = [], r_marks = [], r_lastMark = 0, r_lastAt = 0, r_window = 0,
     r_low = False, r_off = False, r_closed = False\<rparr>"

subsection \<open>Dropping and trimming\<close>

definition dropOldestLocked :: "ring \<Rightarrow> (path \<times> ring) option" where
  \<comment> \<open>None is the index panic on no segment; every caller checks for one.\<close>
  "dropOldestLocked r =
     (case r_segs r of
        [] \<Rightarrow> None
      | old # rest \<Rightarrow>
          Some (s_path old,
            r\<lparr>r_segs := rest,
              r_start := (case rest of [] \<Rightarrow> s_first old + s_size old | s # _ \<Rightarrow> s_first s)\<rparr>))"

function dropAllLocked :: "ring \<Rightarrow> path list \<times> ring" where
  "dropAllLocked r =
     (case dropOldestLocked r of
        None \<Rightarrow> ([], r)
      | Some (p, r') \<Rightarrow> (let (ps, r'') = dropAllLocked r' in (p # ps, r'')))"
  by pat_completeness auto
termination
  by (relation "measure (\<lambda>r. length (r_segs r))")
     (auto simp: dropOldestLocked_def split: list.splits)

declare dropAllLocked.simps [simp del]

definition resetLocked :: "ring \<Rightarrow> path list \<times> ring" where
  "resetLocked r =
     (let (drops, r1) = dropAllLocked (r\<lparr>r_gen := r_gen r + 1\<rparr>)
      in (drops, r1\<lparr>r_pending := [], r_queued := 0, r_marks := [], r_lastMark := 0, r_lastAt := 0\<rparr>))"

text \<open>The assignment \<^verbatim>\<open>r.flushed, r.start = r.received, r.received\<close> that follows every reset.\<close>

definition moveToEnd :: "ring \<Rightarrow> ring" where
  "moveToEnd r = r\<lparr>r_flushed := r_received r, r_start := r_received r\<rparr>"

definition trimMarksLocked :: "ring \<Rightarrow> ring" where
  "trimMarksLocked r = r\<lparr>r_marks := dropWhile (\<lambda>m. m_pos m < r_start r) (r_marks r)\<rparr>"

function trimLoop :: "gotime \<Rightarrow> ring \<Rightarrow> path list \<times> ring" where
  "trimLoop now r =
     (if 1 < length (r_segs r) \<and> 0 < r_window r
         \<and> time_sub now (s_opened (r_segs r ! 1)) \<ge> r_window r
      then case dropOldestLocked r of
             None \<Rightarrow> ([], r)
           | Some (p, r') \<Rightarrow> (let (ps, r'') = trimLoop now r' in (p # ps, r''))
      else ([], r))"
  by pat_completeness auto
termination
  by (relation "measure (\<lambda>(now, r). length (r_segs r))")
     (auto simp: dropOldestLocked_def split: list.splits)

declare trimLoop.simps [simp del]

definition trimLocked :: "gotime \<Rightarrow> ring \<Rightarrow> path list \<times> ring" where
  "trimLocked now r = (let (ps, r1) = trimLoop now r in (ps, trimMarksLocked r1))"

subsection \<open>The writer's side\<close>

text \<open>
  \<^verbatim>\<open>Append\<close>: the paths are those given to \<^verbatim>\<open>go removeFiles\<close>. The clock is read only on the
  branch that keeps the chunk.
\<close>

definition Append :: "gotime \<Rightarrow> bytes \<Rightarrow> ring \<Rightarrow> path list \<times> ring" where
  "Append now chunk r =
     (if chunk = [] then ([], r)
      else if r_closed r \<or> r_low r \<or> r_off r \<or> r_queued r + int (length chunk) > pendingCap then
        let (drops, r1) = (if \<not> r_closed r \<and> \<not> r_low r \<and> \<not> r_off r then resetLocked r else ([], r));
            r2 = r1\<lparr>r_received := r_received r1 + int (length chunk)\<rparr>
        in (drops, moveToEnd r2)
      else
        let r1 = (if r_lastMark r = 0 \<or> time_sub now (r_lastMark r) \<ge> markEvery
                  then r\<lparr>r_marks := r_marks r @ [\<lparr>m_at = now, m_pos = r_received r\<rparr>], r_lastMark := now\<rparr>
                  else r)
        in ([], r1\<lparr>r_lastAt := now, r_pending := r_pending r1 @ [chunk],
                  r_queued := r_queued r1 + int (length chunk),
                  r_received := r_received r1 + int (length chunk)\<rparr>))"

definition Close :: "ring \<Rightarrow> ring" where
  "Close r = r\<lparr>r_closed := True\<rparr>"

subsection \<open>Reading the index\<close>

definition Since :: "ring \<Rightarrow> gotime" where
  "Since r = (case find (\<lambda>m. m_pos m \<ge> r_start r) (r_marks r) of Some m \<Rightarrow> m_at m | None \<Rightarrow> 0)"

definition Position :: "ring \<Rightarrow> gotime \<Rightarrow> (int \<times> gotime) option" where
  "Position r t =
     (if r_closed r then None
      else case find (\<lambda>m. \<not> (m_pos m < r_start r \<or> m_at m < t)) (r_marks r) of
             Some m \<Rightarrow> Some (m_pos m, m_at m)
           | None \<Rightarrow> None)"

text \<open>
  The interpolation is exact here; the code computes it in \<^verbatim>\<open>float64\<close> and truncates.
\<close>

definition At :: "ring \<Rightarrow> gotime \<Rightarrow> int option" where
  "At r t =
     (if r_closed r then None
      else
        let ms = r_marks r;
            lo = go_search (length ms) (\<lambda>i. m_pos (ms ! i) \<ge> r_start r);
            k = go_search (length ms - lo) (\<lambda>i. m_at (ms ! (lo + i)) > t)
        in if k = 0 then None
           else
             let a = lo + k - 1;
                 from = ms ! a;
                 to = (if a + 1 < length ms then ms ! (a + 1)
                       else \<lparr>m_at = r_lastAt r, m_pos = r_received r\<rparr>);
                 span = time_sub (m_at to) (m_at from)
             in if \<not> t < r_lastAt r then Some (r_received r)
                else if span \<le> 0 then Some (m_pos from)
                else Some (m_pos from + quot ((m_pos to - m_pos from) * time_sub t (m_at from)) span))"

record stats =
  st_bytes :: int
  st_since :: gotime
  st_off :: bool
  st_low :: bool

definition Stats :: "ring \<Rightarrow> stats" where
  "Stats r = \<lparr>st_bytes = r_flushed r - r_start r, st_since = Since r, st_off = r_off r, st_low = r_low r\<rparr>"

subsection \<open>Reading bytes\<close>

datatype ring_error = ErrGone | ErrWrite

text \<open>\<open>copyPending room pending skip\<close> is what the code copies into a slice of \<open>room\<close> bytes.\<close>

fun copyPending :: "nat \<Rightarrow> bytes list \<Rightarrow> int \<Rightarrow> bytes" where
  "copyPending room [] skip = []"
| "copyPending room (chunk # rest) skip =
     (if skip \<ge> int (length chunk) then copyPending room rest (skip - int (length chunk))
      else
        let got = take room (drop (nat skip) chunk)
        in if length got = room then got else got @ copyPending (room - length got) rest 0)"

definition PendingFrom :: "ring \<Rightarrow> int \<Rightarrow> bytes option" where
  "PendingFrom r pos =
     (if r_closed r \<or> pos < r_flushed r \<or> pos > r_received r then None
      else Some (copyPending (nat (r_received r - pos)) (r_pending r) (pos - r_flushed r)))"

text \<open>
  An \<^verbatim>\<open>io.Writer\<close> is a function of what it was given before: for the bytes taken so far and
  the next slice, how many of them it takes and whether it fails. The contract of \<^verbatim>\<open>io.Writer\<close>:
  it never takes more than it is given, and takes all unless it fails.
\<close>

type_synonym writer = "bytes \<Rightarrow> bytes \<Rightarrow> nat \<times> bool"

definition io_writer :: "writer \<Rightarrow> bool" where
  "io_writer w \<longleftrightarrow> (\<forall>out p. fst (w out p) \<le> length p \<and> (\<not> snd (w out p) \<longrightarrow> fst (w out p) = length p))"

definition all_writer :: writer where
  "all_writer out p = (length p, False)"

text \<open>
  The result of a copy is what was written, with the error if there is one. The loops are
  partial: with an empty buffer \<^verbatim>\<open>ReadAt\<close> reads nothing and reports nothing, and the loop of
  \<^verbatim>\<open>copyFile\<close> does not end. \<open>tot\<close> counts the bytes of this file.
\<close>

partial_function (option) copyFileLoop ::
  "writer \<Rightarrow> nat \<Rightarrow> bytes \<Rightarrow> int \<Rightarrow> int \<Rightarrow> int \<Rightarrow> bytes \<Rightarrow> (bytes \<times> int \<times> ring_error option) option" where
  "copyFileLoop w buf file off len tot out =
     (if tot < len then
        let want = min (int buf) (len - tot);
            got = take (nat want) (drop (nat (off + tot)) file);
            eof = int (length got) < want;
            (n, werr) = (if got = [] then (0, False) else w out got);
            out' = out @ take n got;
            tot' = tot + int n
        in if werr then Some (out', tot', Some ErrWrite)
           else if eof \<and> tot' < len then Some (out', tot', Some ErrGone)
           else copyFileLoop w buf file off len tot' out'
      else Some (out, tot, None))"

definition copyFile ::
  "writer \<Rightarrow> nat \<Rightarrow> (path \<rightharpoonup> bytes) \<Rightarrow> path \<Rightarrow> int \<Rightarrow> int \<Rightarrow> bytes \<Rightarrow> (bytes \<times> int \<times> ring_error option) option" where
  "copyFile w buf disk p off len out =
     (case disk p of
        None \<Rightarrow> Some (out, 0, Some ErrGone)
      | Some file \<Rightarrow> copyFileLoop w buf file off len 0 out)"

definition holds_pos :: "int \<Rightarrow> segment \<Rightarrow> bool" where
  "holds_pos pos s \<longleftrightarrow> pos \<ge> s_first s \<and> pos < s_first s + s_size s"

partial_function (option) copyLoop ::
  "writer \<Rightarrow> nat \<Rightarrow> ring \<Rightarrow> (path \<rightharpoonup> bytes) \<Rightarrow> int \<Rightarrow> int \<Rightarrow> bytes \<Rightarrow> (bytes \<times> ring_error option) option" where
  "copyLoop w buf r disk from to out =
     (if from < to then
        if r_closed r \<or> from < r_start r \<or> from \<ge> r_received r then Some (out, Some ErrGone)
        else if from \<ge> r_flushed r then
          (let got = copyPending (nat (min (int buf) (to - from))) (r_pending r) (from - r_flushed r);
               (n, werr) = w out got
           in if got = [] then Some (out, Some ErrGone)
              else if werr then Some (out @ take n got, Some ErrWrite)
              else copyLoop w buf r disk (from + int n) to (out @ take n got))
        else
          (case find (holds_pos from) (r_segs r) of
             None \<Rightarrow> Some (out, Some ErrGone)
           | Some s \<Rightarrow>
               (case copyFile w buf disk (s_path s) (from - s_first s)
                       (min (s_first s + s_size s) to - from) out of
                  None \<Rightarrow> None
                | Some (out', n, err) \<Rightarrow>
                    (case err of
                       Some e \<Rightarrow> Some (out', Some e)
                     | None \<Rightarrow> copyLoop w buf r disk (from + n) to out')))
      else Some (out, None))"

definition CopyBuffer ::
  "writer \<Rightarrow> nat \<Rightarrow> ring \<Rightarrow> (path \<rightharpoonup> bytes) \<Rightarrow> int \<Rightarrow> int \<Rightarrow> (bytes \<times> ring_error option) option" where
  "CopyBuffer w buf r disk from to =
     (if r_closed r then Some ([], Some ErrGone) else copyLoop w buf r disk from to [])"

subsection \<open>The flusher\<close>

text \<open>
  \<^verbatim>\<open>flushOnce\<close> is cut where it gives up the lock. \<open>flushTake\<close> is its first critical section
  (None when there is nothing to flush); \<open>flushWrite\<close> makes the file when one is due and
  writes the batch; \<open>flushCommit\<close> is the second critical section.
\<close>

record flight =
  f_gen :: nat
  f_batch :: "bytes list"
  f_first :: int
  f_now :: gotime
  f_rotate :: bool

definition flushTake :: "duration \<Rightarrow> gotime \<Rightarrow> path option \<Rightarrow> ring \<Rightarrow> flight option" where
  "flushTake span now file r =
     (if r_closed r \<or> r_pending r = [] then None
      else Some \<lparr>f_gen = r_gen r, f_batch = r_pending r, f_first = r_flushed r, f_now = now,
             f_rotate = (file = None \<or> r_segs r = [] \<or> time_sub now (s_opened (last (r_segs r))) \<ge> span)\<rparr>)"

text \<open>
  Writing the batch: \<open>fault\<close> is None when every chunk is written, or the number of bytes
  that reach the file before the error. A file that was removed while it is open takes the
  bytes but is not in the folder any more.
\<close>

definition batchBytes :: "bytes list \<Rightarrow> nat option \<Rightarrow> bytes" where
  "batchBytes batch fault = (case fault of None \<Rightarrow> concat batch | Some k \<Rightarrow> take k (concat batch))"

definition appendFile :: "path \<Rightarrow> bytes \<Rightarrow> (path \<rightharpoonup> bytes) \<Rightarrow> (path \<rightharpoonup> bytes)" where
  "appendFile p bs disk = (case disk p of None \<Rightarrow> disk | Some c \<Rightarrow> disk(p \<mapsto> c @ bs))"

definition flushWrite ::
  "flight \<Rightarrow> nat option \<Rightarrow> path option \<Rightarrow> (path \<rightharpoonup> bytes) \<Rightarrow> segment option \<times> path option \<times> (path \<rightharpoonup> bytes)" where
  "flushWrite f fault file disk =
     (if f_rotate f then
        let p = f_first f
        in (Some \<lparr>s_path = p, s_first = f_first f, s_size = 0, s_opened = f_now f\<rparr>, Some p,
            appendFile p (batchBytes (f_batch f) fault) (disk(p \<mapsto> [])))
      else (None, file, case file of None \<Rightarrow> disk | Some p \<Rightarrow> appendFile p (batchBytes (f_batch f) fault) disk))"

definition fail :: "nat \<Rightarrow> ring \<Rightarrow> path list \<times> ring" where
  "fail gen r =
     (if r_gen r = gen then
        let (drops, r1) = resetLocked r in (drops, (moveToEnd r1)\<lparr>r_low := True\<rparr>)
      else ([], r))"

definition growLast :: "int \<Rightarrow> segment list \<Rightarrow> segment list" where
  "growLast n segs = butlast segs @ [(last segs)\<lparr>s_size := s_size (last segs) + n\<rparr>]"

text \<open>
  The second critical section: the paths to remove, the file the flusher keeps open, the new
  state, and whether the write failed, in which case \<^verbatim>\<open>fail\<close> runs next, in a critical section
  of its own.
\<close>

definition flushCommit ::
  "flight \<Rightarrow> nat option \<Rightarrow> segment option \<Rightarrow> path option \<Rightarrow> ring \<Rightarrow> path list \<times> path option \<times> ring \<times> bool" where
  "flushCommit f fault seg file r =
     (if r_gen r \<noteq> f_gen f then
        (case seg of
           Some s \<Rightarrow> ([s_path s], None, r, False)
         | None \<Rightarrow> ([], file, r, False))
      else
        let r1 = (case seg of Some s \<Rightarrow> r\<lparr>r_segs := r_segs r @ [s]\<rparr> | None \<Rightarrow> r)
        in if fault \<noteq> None then ([], None, r1, True)
           else
             let n = int (length (concat (f_batch f)));
                 r2 = r1\<lparr>r_segs := growLast n (r_segs r1),
                        r_flushed := r_flushed r1 + n,
                        r_pending := drop (length (f_batch f)) (r_pending r1),
                        r_queued := r_queued r1 - n\<rparr>;
                 (drops, r3) = trimLocked (f_now f) r2
             in (drops, file, r3, False))"

subsection \<open>Settings and disk space\<close>

definition checkWindow :: "duration \<Rightarrow> gotime \<Rightarrow> ring \<Rightarrow> path list \<times> ring" where
  "checkWindow w now r =
     (let r0 = r\<lparr>r_window := w\<rparr>;
          (drops, r1) =
            (if w \<le> 0 \<and> \<not> r_off r0 then
               (let (ds, ra) = resetLocked r0 in (ds, (moveToEnd ra)\<lparr>r_off := True\<rparr>))
             else if w > 0 \<and> r_off r0 then ([], r0\<lparr>r_off := False\<rparr>)
             else ([], r0))
      in if w > 0 then (let (more, r2) = trimLocked now r1 in (drops @ more, r2))
         else (drops, r1))"

function roomLoop :: "int \<Rightarrow> ring \<Rightarrow> int \<times> path list \<times> ring" where
  "roomLoop need r =
     (if 1 < length (r_segs r) \<and> 0 < need then
        (case dropOldestLocked r of
           None \<Rightarrow> (need, [], r)
         | Some (p, r') \<Rightarrow>
             (let (need', ps, r'') = roomLoop (need - s_size (hd (r_segs r))) r' in (need', p # ps, r'')))
      else (need, [], r))"
  by pat_completeness auto
termination
  by (relation "measure (\<lambda>(need, r). length (r_segs r))")
     (auto simp: dropOldestLocked_def split: list.splits)

declare roomLoop.simps [simp del]

text \<open>\<open>room\<close> is the answer of the \<^verbatim>\<open>Room\<close> option for the bytes held, None when it is not set.\<close>

definition checkRoom :: "int option \<Rightarrow> ring \<Rightarrow> path list \<times> ring" where
  "checkRoom room r =
     (case room of
        None \<Rightarrow> ([], r)
      | Some k \<Rightarrow>
          if k < 0 \<and> \<not> r_low r then
            (let (need, drops, r1) = roomLoop (- k) r;
                 r2 = trimMarksLocked r1
             in if need > 0 then
                  (let (more, r3) = resetLocked r2 in (drops @ more, (moveToEnd r3)\<lparr>r_low := True\<rparr>))
                else (drops, r2))
          else if r_low r \<and> k \<ge> resumeRoom then ([], r\<lparr>r_low := False\<rparr>)
          else ([], r))"

definition stop :: "ring \<Rightarrow> path list \<times> ring" where
  "stop r = (let (drops, r1) = resetLocked r in (drops, (moveToEnd r1)\<lparr>r_low := True\<rparr>))"

subsection \<open>The ring, its folder and its goroutines\<close>

text \<open>
  Where the flusher goroutine stands: outside \<^verbatim>\<open>flushOnce\<close>, between its first critical section
  and the file, between the file and its second critical section, about to run \<^verbatim>\<open>fail\<close>, or
  gone.
\<close>

datatype phase =
    Idle
  | Taken flight
  | Written flight "nat option" "segment option"
  | Failing nat
  | Exited

record sys =
  y_ring :: ring
  y_disk :: "path \<rightharpoonup> bytes"
  y_file :: "path option"
  y_phase :: phase
  y_doomed :: "path set"
  y_clock :: gotime
  y_hist :: bytes

definition sys_init :: "gotime \<Rightarrow> sys" where
  "sys_init now = \<lparr>y_ring = Open, y_disk = Map.empty, y_file = None, y_phase = Idle,
     y_doomed = {}, y_clock = now, y_hist = []\<rparr>"

text \<open>
  One step of any goroutine. The tuner's read loop appends and closes; the flusher takes a
  batch, writes it, commits it, fails, checks the settings, stops or exits; a removal takes
  away one of the files handed to \<^verbatim>\<open>removeFiles\<close>, whenever it gets to it. The clock does not go
  back (Go's times carry a monotonic reading).
\<close>

inductive ring_step :: "duration \<Rightarrow> sys \<Rightarrow> sys \<Rightarrow> bool" for span where
  step_append: "y_clock s \<le> now \<Longrightarrow> Append now chunk (y_ring s) = (ds, r) \<Longrightarrow>
     ring_step span s (s\<lparr>y_ring := r, y_doomed := y_doomed s \<union> set ds, y_clock := now,
                         y_hist := y_hist s @ chunk\<rparr>)"
| step_close: "ring_step span s (s\<lparr>y_ring := Close (y_ring s)\<rparr>)"
| step_take: "y_phase s = Idle \<Longrightarrow> y_clock s \<le> now \<Longrightarrow>
     flushTake span now (y_file s) (y_ring s) = Some f \<Longrightarrow>
     ring_step span s (s\<lparr>y_phase := Taken f, y_clock := now\<rparr>)"
| step_create_fails: "y_phase s = Taken f \<Longrightarrow> f_rotate f \<Longrightarrow>
     ring_step span s (s\<lparr>y_phase := Failing (f_gen f), y_file := None\<rparr>)"
| step_write: "y_phase s = Taken f \<Longrightarrow> (\<forall>k. fault = Some k \<longrightarrow> k \<le> length (concat (f_batch f))) \<Longrightarrow>
     flushWrite f fault (y_file s) (y_disk s) = (seg, file, disk) \<Longrightarrow>
     ring_step span s (s\<lparr>y_phase := Written f fault seg, y_file := file, y_disk := disk\<rparr>)"
| step_commit: "y_phase s = Written f fault seg \<Longrightarrow>
     flushCommit f fault seg (y_file s) (y_ring s) = (ds, file, r, bad) \<Longrightarrow>
     ring_step span s (s\<lparr>y_phase := (if bad then Failing (f_gen f) else Idle), y_file := file,
                         y_ring := r, y_doomed := y_doomed s \<union> set ds\<rparr>)"
| step_fail: "y_phase s = Failing g \<Longrightarrow> fail g (y_ring s) = (ds, r) \<Longrightarrow>
     ring_step span s (s\<lparr>y_phase := Idle, y_file := None, y_ring := r,
                         y_doomed := y_doomed s \<union> set ds\<rparr>)"
| step_window: "y_phase s = Idle \<Longrightarrow> y_clock s \<le> now \<Longrightarrow>
     checkWindow w now (y_ring s) = (ds, r) \<Longrightarrow>
     ring_step span s (s\<lparr>y_ring := r, y_doomed := y_doomed s \<union> set ds, y_clock := now\<rparr>)"
| step_room: "y_phase s = Idle \<Longrightarrow> checkRoom room (y_ring s) = (ds, r) \<Longrightarrow>
     ring_step span s (s\<lparr>y_ring := r, y_doomed := y_doomed s \<union> set ds\<rparr>)"
| step_stop: "y_phase s = Idle \<Longrightarrow> stop (y_ring s) = (ds, r) \<Longrightarrow>
     ring_step span s (s\<lparr>y_ring := r, y_doomed := y_doomed s \<union> set ds\<rparr>)"
| step_exit: "y_phase s = Idle \<Longrightarrow> r_closed (y_ring s) \<Longrightarrow> resetLocked (y_ring s) = (ds, r) \<Longrightarrow>
     ring_step span s (s\<lparr>y_phase := Exited, y_file := None, y_ring := moveToEnd r,
                         y_disk := Map.empty\<rparr>)"
| step_remove: "p \<in> y_doomed s \<Longrightarrow>
     ring_step span s (s\<lparr>y_disk := (y_disk s)(p := None), y_doomed := y_doomed s - {p}\<rparr>)"

text \<open>
  A reader in \<^verbatim>\<open>CopyBuffer\<close>, at any moment of the others' work: it takes bytes still in memory,
  or picks the file that holds its position (one critical section) and then reads from that
  file (no lock held), a few bytes at a time.
\<close>

record reader =
  d_sys :: sys
  d_begin :: int
  d_from :: int
  d_to :: int
  d_seg :: "segment option"
  d_out :: bytes

inductive reader_step :: "duration \<Rightarrow> reader \<Rightarrow> reader \<Rightarrow> bool" for span where
  others: "ring_step span (d_sys d) s \<Longrightarrow> reader_step span d (d\<lparr>d_sys := s\<rparr>)"
| read_pending: "d_seg d = None \<Longrightarrow> r = y_ring (d_sys d) \<Longrightarrow> d_from d < d_to d \<Longrightarrow>
     \<not> (r_closed r \<or> d_from d < r_start r \<or> d_from d \<ge> r_received r) \<Longrightarrow> d_from d \<ge> r_flushed r \<Longrightarrow>
     got = copyPending (nat (min (int buf) (d_to d - d_from d))) (r_pending r) (d_from d - r_flushed r) \<Longrightarrow>
     n \<le> length got \<Longrightarrow>
     reader_step span d (d\<lparr>d_from := d_from d + int n, d_out := d_out d @ take n got\<rparr>)"
| pick_file: "d_seg d = None \<Longrightarrow> r = y_ring (d_sys d) \<Longrightarrow> d_from d < d_to d \<Longrightarrow>
     \<not> (r_closed r \<or> d_from d < r_start r \<or> d_from d \<ge> r_received r) \<Longrightarrow> d_from d < r_flushed r \<Longrightarrow>
     find (holds_pos (d_from d)) (r_segs r) = Some s \<Longrightarrow>
     reader_step span d (d\<lparr>d_seg := Some s\<rparr>)"
| read_file: "d_seg d = Some s \<Longrightarrow> y_disk (d_sys d) (s_path s) = Some file \<Longrightarrow>
     got = take k (drop (nat (d_from d - s_first s)) file) \<Longrightarrow>
     int k \<le> min (s_first s + s_size s) (d_to d) - d_from d \<Longrightarrow> n \<le> length got \<Longrightarrow>
     reader_step span d (d\<lparr>d_from := d_from d + int n, d_out := d_out d @ take n got\<rparr>)"
| leave_file: "d_seg d = Some s \<Longrightarrow> reader_step span d (d\<lparr>d_seg := None\<rparr>)"

definition reader_at :: "sys \<Rightarrow> int \<Rightarrow> int \<Rightarrow> reader" where
  "reader_at s from to = \<lparr>d_sys = s, d_begin = from, d_from = from, d_to = to, d_seg = None, d_out = []\<rparr>"

end
