(* ===== verification/RingSafety.thy ===== *)
theory RingSafety
  imports Ring
begin

text \<open>
  Correctness of the timeshift ring. First the loops of the source in closed form, then the
  invariant of the ring with its folder, its preservation by every step of every goroutine,
  and what readers get.
\<close>

named_theorems ring_forms \<open>the ring's operations in closed form\<close>

subsection \<open>Loops in closed form\<close>

lemma dropAll_form [ring_forms]:
  "dropAllLocked r =
     (map s_path (r_segs r),
      r\<lparr>r_segs := [], r_start := (if r_segs r = [] then r_start r
                                 else s_first (last (r_segs r)) + s_size (last (r_segs r)))\<rparr>)"
proof (induction r rule: dropAllLocked.induct)
  case (1 r)
  show ?case
  proof (cases "r_segs r")
    case Nil
    then show ?thesis by (simp add: dropAllLocked.simps [of r] dropOldestLocked_def)
  next
    case (Cons s ss)
    let ?r = "r\<lparr>r_segs := ss, r_start := (case ss of [] \<Rightarrow> s_first s + s_size s | t # _ \<Rightarrow> s_first t)\<rparr>"
    have d: "dropOldestLocked r = Some (s_path s, ?r)"
      using Cons by (simp add: dropOldestLocked_def)
    from "1.IH" [OF d refl] d Cons show ?thesis
      by (cases ss) (simp_all add: dropAllLocked.simps [of r])
  qed
qed

definition emptied :: "ring \<Rightarrow> ring" where
  "emptied r = r\<lparr>r_gen := r_gen r + 1, r_segs := [], r_pending := [], r_queued := 0, r_marks := [],
     r_lastMark := 0, r_lastAt := 0, r_flushed := r_received r, r_start := r_received r\<rparr>"

lemma reset_form [ring_forms]:
  "fst (resetLocked r) = map s_path (r_segs r)"
  "moveToEnd (snd (resetLocked r)) = emptied r"
  "moveToEnd ((snd (resetLocked r))\<lparr>r_received := v\<rparr>) = emptied (r\<lparr>r_received := v\<rparr>)"
  "r_received (snd (resetLocked r)) = r_received r"
  by (simp_all add: resetLocked_def dropAll_form moveToEnd_def emptied_def)

text \<open>Dropping the \<open>k\<close> oldest files while at least one stays.\<close>

definition dropped :: "nat \<Rightarrow> ring \<Rightarrow> ring" where
  "dropped k r = r\<lparr>r_segs := drop k (r_segs r),
                  r_start := (if k = 0 then r_start r else s_first (r_segs r ! k))\<rparr>"

lemma dropped_0 [simp]: "dropped 0 r = r"
  by (simp add: dropped_def)

lemma dropOldest_dropped:
  "1 < length (r_segs r) \<Longrightarrow> dropOldestLocked r = Some (s_path (hd (r_segs r)), dropped 1 r)"
  by (cases "r_segs r"; cases "tl (r_segs r)") (auto simp: dropOldestLocked_def dropped_def)

lemma dropped_dropped:
  "1 < length (r_segs r) \<Longrightarrow> k < length (r_segs r) - 1 \<Longrightarrow> dropped k (dropped 1 r) = dropped (Suc k) r"
  by (auto simp: dropped_def)

lemma trimLoop_form:
  obtains k where "trimLoop now r = (map s_path (take k (r_segs r)), dropped k r)"
    and "k = 0 \<or> k < length (r_segs r)"
    and "\<And>i. i < k \<Longrightarrow> 0 < r_window r \<and> time_sub now (s_opened (r_segs r ! Suc i)) \<ge> r_window r"
proof -
  have "\<exists>k. trimLoop now r = (map s_path (take k (r_segs r)), dropped k r) \<and>
      (k = 0 \<or> k < length (r_segs r)) \<and>
      (\<forall>i < k. 0 < r_window r \<and> time_sub now (s_opened (r_segs r ! Suc i)) \<ge> r_window r)"
  proof (induction now r rule: trimLoop.induct)
    case (1 now r)
    let ?c = "1 < length (r_segs r) \<and> 0 < r_window r \<and> time_sub now (s_opened (r_segs r ! 1)) \<ge> r_window r"
    show ?case
    proof (cases ?c)
      case False
      then have "trimLoop now r = ([], r)" by (subst trimLoop.simps) (simp only: False if_False)
      then show ?thesis by (intro exI [of _ 0]) simp
    next
      case True
      then have d: "dropOldestLocked r = Some (s_path (hd (r_segs r)), dropped 1 r)"
        by (simp add: dropOldest_dropped)
      from "1.IH" [OF True d refl] obtain k where k:
        "trimLoop now (dropped 1 r) = (map s_path (take k (r_segs (dropped 1 r))), dropped k (dropped 1 r))"
        "k = 0 \<or> k < length (r_segs (dropped 1 r))"
        "\<forall>i < k. 0 < r_window (dropped 1 r) \<and>
           time_sub now (s_opened (r_segs (dropped 1 r) ! Suc i)) \<ge> r_window (dropped 1 r)"
        by blast
      have len: "k < length (r_segs r) - 1" using k(2) True by (auto simp: dropped_def)
      have eq: "trimLoop now r = (map s_path (take (Suc k) (r_segs r)), dropped (Suc k) r)"
        using True d k(1) len
        by (cases "r_segs r") (simp_all add: trimLoop.simps [of now r] dropped_dropped, simp add: dropped_def)
      have "0 < r_window r \<and> time_sub now (s_opened (r_segs r ! Suc i)) \<ge> r_window r" if "i < Suc k" for i
        using that True k(3) by (cases i) (auto simp: dropped_def)
      with eq len show ?thesis by (intro exI [of _ "Suc k"]) auto
    qed
  qed
  then show thesis using that by blast
qed

lemma roomLoop_form:
  obtains k need' where "roomLoop need r = (need', map s_path (take k (r_segs r)), dropped k r)"
    and "k = 0 \<or> k < length (r_segs r)"
    and "need' = need - sum_list (map s_size (take k (r_segs r)))"
    and "need' \<le> 0 \<or> length (r_segs r) \<le> Suc k"
proof -
  have "\<exists>k need'. roomLoop need r = (need', map s_path (take k (r_segs r)), dropped k r) \<and>
      (k = 0 \<or> k < length (r_segs r)) \<and>
      need' = need - sum_list (map s_size (take k (r_segs r))) \<and>
      (need' \<le> 0 \<or> length (r_segs r) \<le> Suc k)"
  proof (induction need r rule: roomLoop.induct)
    case (1 need r)
    let ?c = "1 < length (r_segs r) \<and> 0 < need"
    show ?case
    proof (cases ?c)
      case False
      then have "roomLoop need r = (need, [], r)" by (subst roomLoop.simps) (simp only: False if_False)
      with False show ?thesis by (intro exI [of _ 0] exI [of _ need]) auto
    next
      case True
      then have d: "dropOldestLocked r = Some (s_path (hd (r_segs r)), dropped 1 r)"
        by (simp add: dropOldest_dropped)
      let ?n = "need - s_size (hd (r_segs r))"
      from "1.IH" [OF True d refl] obtain k need' where k:
        "roomLoop ?n (dropped 1 r) = (need', map s_path (take k (r_segs (dropped 1 r))), dropped k (dropped 1 r))"
        "k = 0 \<or> k < length (r_segs (dropped 1 r))"
        "need' = ?n - sum_list (map s_size (take k (r_segs (dropped 1 r))))"
        "need' \<le> 0 \<or> length (r_segs (dropped 1 r)) \<le> Suc k"
        by blast
      have len: "k < length (r_segs r) - 1" using k(2) True by (auto simp: dropped_def)
      have eq: "roomLoop need r = (need', map s_path (take (Suc k) (r_segs r)), dropped (Suc k) r)"
        using True d k(1) len
        by (cases "r_segs r") (simp_all add: roomLoop.simps [of need r] dropped_dropped, simp add: dropped_def)
      with len k show ?thesis
        by (intro exI [of _ "Suc k"] exI [of _ need']) (cases "r_segs r"; auto simp: dropped_def)
    qed
  qed
  then show thesis using that by blast
qed

subsection \<open>The invariant\<close>

text \<open>The files on disk follow one another without a hole from \<open>a\<close> to \<open>b\<close>.\<close>

fun chain :: "int \<Rightarrow> segment list \<Rightarrow> int \<Rightarrow> bool" where
  "chain a [] b \<longleftrightarrow> a = b"
| "chain a (s # ss) b \<longleftrightarrow> s_first s = a \<and> s_path s = a \<and> 0 \<le> s_size s \<and> chain (a + s_size s) ss b"

lemma chain_le: "chain a ss b \<Longrightarrow> a \<le> b"
  by (induction ss arbitrary: a) fastforce+

lemma chain_append: "chain a (ss @ ts) b \<longleftrightarrow> (\<exists>m. chain a ss m \<and> chain m ts b)"
  by (induction ss arbitrary: a) auto

lemma chain_mem:
  "chain a ss b \<Longrightarrow> s \<in> set ss \<Longrightarrow> a \<le> s_first s \<and> s_path s = s_first s \<and> 0 \<le> s_size s \<and> s_first s + s_size s \<le> b"
proof (induction ss arbitrary: a)
  case (Cons x xs)
  then show ?case using chain_le [of "a + s_size x" xs b] by fastforce
qed simp

lemma chain_drop:
  "chain a ss b \<Longrightarrow> k < length ss \<Longrightarrow> chain (s_first (ss ! k)) (drop k ss) b \<and> a \<le> s_first (ss ! k)"
proof (induction ss arbitrary: a k)
  case (Cons x xs)
  show ?case
  proof (cases k)
    case 0
    with Cons.prems show ?thesis by auto
  next
    case (Suc j)
    with Cons.prems Cons.IH [of "a + s_size x" j] show ?thesis by auto
  qed
qed simp

lemma chain_growLast:
  "chain a ss b \<Longrightarrow> ss \<noteq> [] \<Longrightarrow> 0 \<le> n \<Longrightarrow> chain a (growLast n ss) (b + n)"
proof -
  assume "chain a ss b" "ss \<noteq> []" "0 \<le> n"
  then have "chain a (butlast ss @ [last ss]) b" by simp
  then show ?thesis
    using \<open>0 \<le> n\<close> by (auto simp: growLast_def chain_append)
qed

lemma chain_find:
  "chain a ss b \<Longrightarrow> a \<le> x \<Longrightarrow> x < b \<Longrightarrow> \<exists>s. find (holds_pos x) ss = Some s \<and> s \<in> set ss \<and> holds_pos x s"
proof (induction ss arbitrary: a)
  case (Cons y ys)
  show ?case
  proof (cases "x < a + s_size y")
    case True
    with Cons.prems show ?thesis by (auto simp: holds_pos_def)
  next
    case False
    with Cons.prems Cons.IH [of "a + s_size y"] show ?thesis by (auto simp: holds_pos_def)
  qed
qed simp

definition ring_ok :: "ring \<Rightarrow> bytes \<Rightarrow> bool" where
  "ring_ok r h \<longleftrightarrow>
     0 \<le> r_start r \<and> chain (r_start r) (r_segs r) (r_flushed r) \<and> r_flushed r \<le> r_received r \<and>
     r_received r = int (length h) \<and> concat (r_pending r) = window h (r_flushed r) (r_received r) \<and>
     [] \<notin> set (r_pending r) \<and> r_queued r = r_received r - r_flushed r \<and> r_queued r \<le> pendingCap \<and>
     distinct (map s_path (r_segs r)) \<and> (r_low r \<or> r_off r \<longrightarrow> r_pending r = [] \<and> r_segs r = [] \<and> r_marks r = [])"

definition marks_ok :: "ring \<Rightarrow> gotime \<Rightarrow> bool" where
  "marks_ok r clock \<longleftrightarrow>
     sorted_wrt (\<lambda>a b. m_pos a < m_pos b \<and> m_at a < m_at b) (r_marks r) \<and>
     (\<forall>m \<in> set (r_marks r). r_start r \<le> m_pos m \<and> m_pos m < r_received r \<and> 0 < m_at m \<and> m_at m \<le> r_lastMark r) \<and>
     0 \<le> r_lastMark r \<and> r_lastMark r \<le> r_lastAt r \<and> r_lastAt r \<le> clock"

definition disk_ok :: "(path \<rightharpoonup> bytes) \<Rightarrow> bytes \<Rightarrow> bool" where
  "disk_ok disk h \<longleftrightarrow>
     (\<forall>p c. disk p = Some c \<longrightarrow> 0 \<le> p \<and> p + int (length c) \<le> int (length h) \<and> c = window h p (p + int (length c)))"

definition flight_data :: "flight \<Rightarrow> bytes \<Rightarrow> bool" where
  "flight_data f h \<longleftrightarrow>
     0 \<le> f_first f \<and> concat (f_batch f) \<noteq> [] \<and>
     f_first f + int (length (concat (f_batch f))) \<le> int (length h) \<and>
     concat (f_batch f) = window h (f_first f) (f_first f + int (length (concat (f_batch f))))"

text \<open>What the flusher's own data says about the stream, whether or not the ring was reset or closed meanwhile.\<close>

definition flight_ok :: "sys \<Rightarrow> bool" where
  "flight_ok s \<longleftrightarrow>
     (case y_phase s of
        Taken f \<Rightarrow> flight_data f (y_hist s) \<and>
          (\<not> f_rotate f \<longrightarrow> (\<exists>p. y_file s = Some p \<and> (\<forall>c. y_disk s p = Some c \<longrightarrow> p + int (length c) = f_first f)))
      | Written f fault seg \<Rightarrow> flight_data f (y_hist s)
      | _ \<Rightarrow> True)"

definition last_full :: "sys \<Rightarrow> int \<Rightarrow> bool" where
  "last_full s n \<longleftrightarrow>
     (r_segs (y_ring s) \<noteq> [] \<longrightarrow>
        y_file s = Some (s_path (last (r_segs (y_ring s)))) \<and>
        (\<exists>c. y_disk s (s_path (last (r_segs (y_ring s)))) = Some c \<and>
             int (length c) = s_size (last (r_segs (y_ring s))) + n))"

definition current :: "flight \<Rightarrow> ring \<Rightarrow> bool" where
  "current f r \<longleftrightarrow>
     f_first f = r_flushed r \<and> (\<exists>more. r_pending r = f_batch f @ more) \<and> \<not> r_low r \<and> \<not> r_off r"

definition phase_ok :: "sys \<Rightarrow> bool" where
  "phase_ok s \<longleftrightarrow>
     (case y_phase s of
        Idle \<Rightarrow> last_full s 0
      | Taken f \<Rightarrow>
          (if f_gen f = r_gen (y_ring s) then current f (y_ring s) \<and> last_full s 0 \<and> (\<not> f_rotate f \<longrightarrow> r_segs (y_ring s) \<noteq> [])
           else f_gen f < r_gen (y_ring s) \<and> f_first f < r_flushed (y_ring s) \<and> r_segs (y_ring s) = [])
      | Written f fault seg \<Rightarrow>
          (if f_gen f = r_gen (y_ring s) then
             current f (y_ring s) \<and>
             (case seg of
                None \<Rightarrow> r_segs (y_ring s) \<noteq> [] \<and> last_full s (int (length (batchBytes (f_batch f) fault)))
              | Some z \<Rightarrow> s_path z = f_first f \<and> s_first z = f_first f \<and> s_size z = 0 \<and>
                  f_first f \<notin> y_doomed s \<and> f_first f \<notin> s_path ` set (r_segs (y_ring s)) \<and>
                  y_disk s (f_first f) = Some (batchBytes (f_batch f) fault) \<and> y_file s = Some (f_first f))
           else f_gen f < r_gen (y_ring s) \<and> f_first f < r_flushed (y_ring s) \<and> r_segs (y_ring s) = [] \<and> (\<forall>z. seg = Some z \<longrightarrow> s_path z = f_first f))
      | Failing g \<Rightarrow> (if g = r_gen (y_ring s) then r_flushed (y_ring s) < r_received (y_ring s) \<and> \<not> r_low (y_ring s) \<and> \<not> r_off (y_ring s) else g < r_gen (y_ring s) \<and> r_segs (y_ring s) = [])
      | Exited \<Rightarrow> r_closed (y_ring s))"

definition busy :: "sys \<Rightarrow> bool" where
  "busy s \<longleftrightarrow>
     (case y_phase s of
        Written f fault seg \<Rightarrow> seg \<noteq> None \<and> f_gen f = r_gen (y_ring s)
      | Failing g \<Rightarrow> g = r_gen (y_ring s)
      | _ \<Rightarrow> False)"

text \<open>
  Live files are there, hold at least what their segment says, and are not on the list of a
  removal; a path that was ever used is below the position where the next file starts, so
  no file is created under a name that a late removal still holds.
\<close>

definition live_ok :: "sys \<Rightarrow> bool" where
  "live_ok s \<longleftrightarrow>
     (\<forall>g \<in> set (r_segs (y_ring s)). s_path g \<notin> y_doomed s \<and>
        (\<exists>c. y_disk s (s_path g) = Some c \<and> s_size g \<le> int (length c)))"

definition fresh_ok :: "sys \<Rightarrow> bool" where
  "fresh_ok s \<longleftrightarrow>
     (\<forall>p \<in> dom (y_disk s) \<union> y_doomed s.
        p < r_flushed (y_ring s) \<or> (p = r_flushed (y_ring s) \<and> busy s))"

definition sys_ok :: "sys \<Rightarrow> bool" where
  "sys_ok s \<longleftrightarrow>
     0 < y_clock s \<and> disk_ok (y_disk s) (y_hist s) \<and> r_received (y_ring s) = int (length (y_hist s)) \<and>
     flight_ok s \<and>
     (\<not> r_closed (y_ring s) \<longrightarrow>
        ring_ok (y_ring s) (y_hist s) \<and> marks_ok (y_ring s) (y_clock s) \<and>
        phase_ok s \<and> live_ok s \<and> fresh_ok s)"

lemma sys_ok_init: "0 < now \<Longrightarrow> sys_ok (sys_init now)"
  by (auto simp: sys_ok_def sys_init_def Open_def disk_ok_def flight_ok_def ring_ok_def marks_ok_def
      phase_ok_def live_ok_def fresh_ok_def last_full_def)

subsection \<open>Operations on the ring alone\<close>

lemma emptied_simps [simp]:
  "r_segs (emptied r) = []" "r_pending (emptied r) = []" "r_start (emptied r) = r_received r"
  "r_flushed (emptied r) = r_received r" "r_received (emptied r) = r_received r"
  "r_gen (emptied r) = r_gen r + 1" "r_closed (emptied r) = r_closed r"
  "r_low (emptied r) = r_low r" "r_off (emptied r) = r_off r" "r_marks (emptied r) = []"
  "r_window (emptied r) = r_window r"
  by (simp_all add: emptied_def)

lemma dropped_simps [simp]:
  "r_segs (dropped k r) = drop k (r_segs r)" "r_pending (dropped k r) = r_pending r"
  "r_flushed (dropped k r) = r_flushed r" "r_received (dropped k r) = r_received r"
  "r_gen (dropped k r) = r_gen r" "r_closed (dropped k r) = r_closed r"
  "r_low (dropped k r) = r_low r" "r_off (dropped k r) = r_off r"
  "r_queued (dropped k r) = r_queued r" "r_marks (dropped k r) = r_marks r"
  "r_lastMark (dropped k r) = r_lastMark r" "r_lastAt (dropped k r) = r_lastAt r"
  "r_window (dropped k r) = r_window r"
  by (simp_all add: dropped_def)

lemma trimMarks_simps [simp]:
  "r_segs (trimMarksLocked r) = r_segs r" "r_pending (trimMarksLocked r) = r_pending r"
  "r_flushed (trimMarksLocked r) = r_flushed r" "r_received (trimMarksLocked r) = r_received r"
  "r_gen (trimMarksLocked r) = r_gen r" "r_closed (trimMarksLocked r) = r_closed r"
  "r_low (trimMarksLocked r) = r_low r" "r_off (trimMarksLocked r) = r_off r"
  "r_start (trimMarksLocked r) = r_start r" "r_queued (trimMarksLocked r) = r_queued r"
  "r_lastMark (trimMarksLocked r) = r_lastMark r" "r_lastAt (trimMarksLocked r) = r_lastAt r"
  by (simp_all add: trimMarksLocked_def)

lemma ring_ok_emptied: "r_received r = int (length h) \<Longrightarrow> ring_ok (emptied r) h"
  by (simp add: ring_ok_def emptied_def)

lemma marks_ok_emptied: "0 \<le> clock \<Longrightarrow> marks_ok (emptied r) clock"
  by (simp add: marks_ok_def emptied_def)

lemma ring_ok_dropped:
  assumes "ring_ok r h" and "k = 0 \<or> k < length (r_segs r)"
  shows "ring_ok (dropped k r) h" and "r_start r \<le> r_start (dropped k r)"
proof -
  have "chain (r_start (dropped k r)) (drop k (r_segs r)) (r_flushed r) \<and> r_start r \<le> r_start (dropped k r)"
  proof (cases "k = 0")
    case False
    with assms chain_drop [of "r_start r" "r_segs r" "r_flushed r" k] show ?thesis
      by (auto simp: ring_ok_def dropped_def)
  qed (use assms in \<open>auto simp: ring_ok_def\<close>)
  with assms show "ring_ok (dropped k r) h" "r_start r \<le> r_start (dropped k r)"
    by (auto simp: ring_ok_def drop_map [symmetric])
qed

lemma ring_ok_trimMarks: "ring_ok r h \<Longrightarrow> ring_ok (trimMarksLocked r) h"
  by (auto simp: ring_ok_def trimMarksLocked_def)

lemma sorted_dropWhile_ge:
  assumes "sorted_wrt (\<lambda>a b. m_pos a < m_pos b \<and> m_at a < m_at b) ms"
    and "m \<in> set (dropWhile (\<lambda>m. m_pos m < x) ms)"
  shows "x \<le> m_pos m"
  using assms by (induction ms) (force split: if_splits)+

lemma marks_ok_dropped:
  assumes "marks_ok r clock" "clock \<le> clock'"
  shows "marks_ok (trimMarksLocked (dropped k r)) clock'"
proof -
  let ?ms = "dropWhile (\<lambda>m. m_pos m < r_start (dropped k r)) (r_marks r)"
  have "sorted_wrt (\<lambda>a b. m_pos a < m_pos b \<and> m_at a < m_at b) ?ms"
    using assms unfolding marks_ok_def dropWhile_eq_drop by (auto intro: sorted_wrt_drop)
  moreover have "\<forall>m \<in> set ?ms. r_start (dropped k r) \<le> m_pos m"
    using assms sorted_dropWhile_ge by (auto simp: marks_ok_def)
  ultimately show ?thesis
    using assms by (auto simp: marks_ok_def trimMarksLocked_def dest: set_dropWhileD)
qed

lemma trimLocked_form:
  obtains k where "trimLocked now r = (map s_path (take k (r_segs r)), trimMarksLocked (dropped k r))"
    and "k = 0 \<or> k < length (r_segs r)"
    and "\<And>i. i < k \<Longrightarrow> 0 < r_window r \<and> time_sub now (s_opened (r_segs r ! Suc i)) \<ge> r_window r"
  by (rule trimLoop_form [of now r]) (auto simp: trimLocked_def)

subsection \<open>Every step keeps the invariant\<close>

lemmas sys_defs = sys_ok_def flight_ok_def phase_ok_def live_ok_def fresh_ok_def busy_def last_full_def

lemma disk_ok_append: "disk_ok d h \<Longrightarrow> disk_ok d (h @ c)"
  unfolding disk_ok_def by (fastforce simp: window_simps)

lemma flight_data_append: "flight_data f h \<Longrightarrow> flight_data f (h @ c)"
  unfolding flight_data_def by (auto simp: window_simps)

lemma flight_ok_append: "flight_ok s \<Longrightarrow> flight_ok (s\<lparr>y_ring := r, y_doomed := d, y_clock := t, y_hist := y_hist s @ c\<rparr>)"
  by (auto simp: flight_ok_def flight_data_append split: phase.splits)

text \<open>A reset of an open ring: everything goes to the removals and the next file starts above all of them.\<close>

definition link_ok :: "sys \<Rightarrow> bool" where
  "link_ok s \<longleftrightarrow> phase_ok s \<and> live_ok s \<and> fresh_ok s"

lemma link_ok_cong:
  assumes "link_ok s" "y_ring t = y_ring s" "y_disk t = y_disk s" "y_file t = y_file s"
    "y_phase t = y_phase s" "y_doomed t = y_doomed s"
  shows "link_ok t"
proof -
  have "last_full t n = last_full s n" for n using assms by (simp add: last_full_def)
  moreover have "busy t = busy s" using assms by (cases "y_phase s") (simp_all add: busy_def)
  ultimately show ?thesis using assms
    by (cases "y_phase s") (simp_all add: link_ok_def phase_ok_def live_ok_def fresh_ok_def split: option.splits)
qed

lemma sys_okD:
  assumes "sys_ok s" "\<not> r_closed (y_ring s)"
  shows "ring_ok (y_ring s) (y_hist s)" "marks_ok (y_ring s) (y_clock s)" "link_ok s"
  using assms by (auto simp: sys_ok_def link_ok_def)

lemma sys_okI:
  assumes "0 < y_clock s" "disk_ok (y_disk s) (y_hist s)" "flight_ok s"
    and "ring_ok (y_ring s) (y_hist s)" "marks_ok (y_ring s) (y_clock s)" "link_ok s"
  shows "sys_ok s"
  using assms by (auto simp: sys_ok_def link_ok_def ring_ok_def)

lemma reset_keeps:
  assumes "link_ok s"
    and r: "r_segs r = []" "r_gen r = Suc (r_gen (y_ring s))" "\<not> r_closed r" "\<not> r_closed (y_ring s)"
    and up: "r_flushed (y_ring s) < r_flushed r \<or> (r_flushed (y_ring s) \<le> r_flushed r \<and> y_phase s = Idle)"
    and ds: "set ds = s_path ` set (r_segs (y_ring s))"
  shows "link_ok (s\<lparr>y_ring := r, y_doomed := y_doomed s \<union> set ds\<rparr>)" (is "link_ok ?s")
proof -
  have ok: "phase_ok s" "live_ok s" "fresh_ok s" using assms by (auto simp: link_ok_def)
  have "r_flushed (y_ring s) \<le> r_flushed r" using up by auto
  then have ph: "phase_ok ?s"
    using ok(1) r up
    by (cases "y_phase s") (auto simp: phase_ok_def last_full_def current_def Let_def split: if_splits option.splits)
  have li: "live_ok ?s"
    using r by (simp add: live_ok_def)
  have below: "p < r_flushed r" if "p \<in> dom (y_disk s) \<union> y_doomed s" for p
  proof -
    have "busy s \<Longrightarrow> y_phase s \<noteq> Idle" by (auto simp: busy_def)
    moreover have "p < r_flushed (y_ring s) \<or> (p = r_flushed (y_ring s) \<and> busy s)"
      using that ok(3) by (auto simp: fresh_ok_def)
    ultimately show ?thesis using up by auto
  qed
  have "s_path g \<in> dom (y_disk s)" if "g \<in> set (r_segs (y_ring s))" for g
    using that ok(2) by (auto simp: live_ok_def)
  with below ds have "fresh_ok ?s" by (auto simp: fresh_ok_def)
  with ph li show ?thesis by (simp add: link_ok_def)
qed

lemma fresh_le: "fresh_ok s \<Longrightarrow> p \<in> dom (y_disk s) \<union> y_doomed s \<Longrightarrow> p \<le> r_flushed (y_ring s)"
  unfolding fresh_ok_def by (drule bspec) auto

lemma fresh_okI: "(\<And>p. p \<in> dom (y_disk s) \<union> y_doomed s \<Longrightarrow> p < r_flushed (y_ring s)) \<Longrightarrow> fresh_ok s"
  by (simp add: fresh_ok_def)

lemma ring_ok_queued: "ring_ok r h \<Longrightarrow> r_received r - r_flushed r = int (length (concat (r_pending r)))"
  using chain_le [of "r_start r" "r_segs r" "r_flushed r"] by (simp add: ring_ok_def window_simps)

text \<open>The three branches of \<^verbatim>\<open>Append\<close> on an open ring.\<close>

definition refused :: "bytes \<Rightarrow> ring \<Rightarrow> ring" where
  "refused chunk r = moveToEnd (r\<lparr>r_received := r_received r + int (length chunk)\<rparr>)"

lemma append_refused:
  assumes "ring_ok r h" "marks_ok r t" "r_low r \<or> r_off r" "t \<le> t'"
  shows "ring_ok (refused chunk r) (h @ chunk)" "marks_ok (refused chunk r) t'"
proof -
  have "r_received r = r_flushed r" using assms ring_ok_queued [of r h] by (auto simp: ring_ok_def)
  then show "ring_ok (refused chunk r) (h @ chunk)" "marks_ok (refused chunk r) t'"
    using assms by (auto simp: ring_ok_def marks_ok_def moveToEnd_def refused_def)
qed

lemma refused_keeps:
  assumes "link_ok s" "r_low (y_ring s) \<or> r_off (y_ring s)" "chunk \<noteq> []" "ring_ok (y_ring s) h"
  shows "link_ok (s\<lparr>y_ring := refused chunk (y_ring s)\<rparr>)" (is "link_ok ?s")
proof -
  have ok: "phase_ok s" "fresh_ok s" using assms by (auto simp: link_ok_def)
  have r: "r_segs (y_ring s) = []" "r_flushed (y_ring s) < r_flushed (refused chunk (y_ring s))"
    using assms by (cases chunk; auto simp: ring_ok_def refused_def moveToEnd_def)+
  have "phase_ok ?s"
    using ok(1) assms(2) r
    by (cases "y_phase s") (auto simp: phase_ok_def last_full_def current_def Let_def refused_def moveToEnd_def split: if_splits)
  moreover have "live_ok ?s"
    using r by (simp add: live_ok_def refused_def moveToEnd_def)
  moreover have "fresh_ok ?s"
    using fresh_le [OF ok(2)] r(2) by (intro fresh_okI) fastforce
  ultimately show ?thesis by (simp add: link_ok_def)
qed

definition kept :: "gotime \<Rightarrow> bytes \<Rightarrow> ring \<Rightarrow> ring" where
  "kept now chunk r =
     (let r1 = (if r_lastMark r = 0 \<or> time_sub now (r_lastMark r) \<ge> markEvery
                then r\<lparr>r_marks := r_marks r @ [\<lparr>m_at = now, m_pos = r_received r\<rparr>], r_lastMark := now\<rparr>
                else r)
      in r1\<lparr>r_lastAt := now, r_pending := r_pending r1 @ [chunk],
            r_queued := r_queued r1 + int (length chunk),
            r_received := r_received r1 + int (length chunk)\<rparr>)"

lemma kept_simps [simp]:
  "r_segs (kept now c r) = r_segs r" "r_pending (kept now c r) = r_pending r @ [c]"
  "r_flushed (kept now c r) = r_flushed r" "r_received (kept now c r) = r_received r + int (length c)"
  "r_gen (kept now c r) = r_gen r" "r_closed (kept now c r) = r_closed r"
  "r_low (kept now c r) = r_low r" "r_off (kept now c r) = r_off r" "r_start (kept now c r) = r_start r"
  "r_queued (kept now c r) = r_queued r + int (length c)"
  by (simp_all add: kept_def Let_def)

lemma append_kept_ring:
  assumes "ring_ok r h" "chunk \<noteq> []" "\<not> r_low r" "\<not> r_off r" "r_queued r + int (length chunk) \<le> pendingCap"
  shows "ring_ok (kept now chunk r) (h @ chunk)"
proof -
  have fl: "0 \<le> r_flushed r" using assms chain_le by (fastforce simp: ring_ok_def)
  let ?h = "h @ chunk" and ?n = "r_received r + int (length chunk)"
  have old: "window ?h (r_flushed r) (r_received r) = concat (r_pending r)"
    using assms fl by (simp add: ring_ok_def window_simps)
  have new: "window ?h (r_received r) ?n = chunk"
    using assms by (simp add: ring_ok_def window_simps)
  have "window ?h (r_flushed r) (r_received r) @ window ?h (r_received r) ?n = window ?h (r_flushed r) ?n"
    using assms fl by (intro window_split) (auto simp: ring_ok_def)
  with old new have "concat (r_pending r @ [chunk]) = window ?h (r_flushed r) ?n" by simp
  with assms show ?thesis by (auto simp: ring_ok_def)
qed

lemma append_kept_marks:
  assumes "marks_ok r t" "0 < t" "t \<le> now" "chunk \<noteq> []" "ring_ok r h"
  shows "marks_ok (kept now chunk r) now"
proof (cases "r_lastMark r = 0 \<or> time_sub now (r_lastMark r) \<ge> markEvery")
  case False
  with assms show ?thesis by (auto simp: marks_ok_def kept_def Let_def)
next
  case True
  have less: "\<forall>m \<in> set (r_marks r). m_at m < now"
  proof (cases "r_lastMark r = 0")
    case True
    with assms show ?thesis by (fastforce simp: marks_ok_def)
  next
    case False
    with True have "r_lastMark r + markEvery \<le> now"
      using time_sub_ge_iff [of markEvery now "r_lastMark r"] by simp
    with assms show ?thesis by (fastforce simp: marks_ok_def)
  qed
  have "chain (r_start r) (r_segs r) (r_flushed r)" using assms by (simp add: ring_ok_def)
  then have "r_start r \<le> r_received r" using assms chain_le by (fastforce simp: ring_ok_def)
  with True assms less show ?thesis
    by (fastforce simp: marks_ok_def kept_def sorted_wrt_append)
qed

lemma kept_keeps:
  assumes "link_ok s"
  shows "link_ok (s\<lparr>y_ring := kept now chunk (y_ring s)\<rparr>)" (is "link_ok ?s")
proof -
  have "phase_ok s" "live_ok s" "fresh_ok s" using assms by (auto simp: link_ok_def)
  have cur: "current f (kept now chunk (y_ring s))" if "current f (y_ring s)" for f
    using that by (auto simp: current_def)
  have full: "last_full ?s n = last_full s n" for n
    by (simp add: last_full_def)
  have "phase_ok ?s"
  proof (cases "y_phase s")
    case (Taken f)
    with \<open>phase_ok s\<close> show ?thesis by (simp add: phase_ok_def full cur split: if_splits)
  next
    case (Written f fault seg)
    with \<open>phase_ok s\<close> show ?thesis by (simp add: phase_ok_def full cur split: if_splits option.splits)
  qed (use \<open>phase_ok s\<close> in \<open>auto simp: phase_ok_def full\<close>)
  moreover have "live_ok ?s" using \<open>live_ok s\<close> by (simp add: live_ok_def)
  moreover have "fresh_ok ?s" using \<open>fresh_ok s\<close> by (cases "y_phase s") (simp_all add: fresh_ok_def busy_def)
  ultimately show ?thesis by (simp add: link_ok_def)
qed

lemma append_form:
  assumes "\<not> r_closed r" "chunk \<noteq> []"
  shows "Append now chunk r =
     (if r_low r \<or> r_off r then ([], refused chunk r)
      else if r_queued r + int (length chunk) > pendingCap
      then (map s_path (r_segs r), emptied (r\<lparr>r_received := r_received r + int (length chunk)\<rparr>))
      else ([], kept now chunk r))"
proof -
  obtain ds r1 where "resetLocked r = (ds, r1)" by force
  with reset_form [where r = r] assms show ?thesis
    by (simp add: Append_def kept_def refused_def Let_def)
qed

lemma step_append_ok:
  assumes ok: "sys_ok s" and now: "y_clock s \<le> now" and ap: "Append now chunk (y_ring s) = (ds, r)"
  shows "sys_ok (s\<lparr>y_ring := r, y_doomed := y_doomed s \<union> set ds, y_clock := now, y_hist := y_hist s @ chunk\<rparr>)"
    (is "sys_ok ?s")
proof -
  let ?r = "y_ring s"
  have base: "0 < now" "disk_ok (y_disk s) (y_hist s @ chunk)" "flight_ok ?s"
    using ok now by (auto simp: sys_ok_def disk_ok_append flight_ok_append)
  show ?thesis
  proof (cases "r_closed ?r")
    case True
    with ap have "r_closed r" "r_received r = r_received ?r + int (length chunk)"
      by (auto simp: Append_def Let_def moveToEnd_def split: if_splits)
    with base ok show ?thesis by (auto simp: sys_ok_def)
  next
    case False
    note rok = sys_okD [OF ok False]
    consider (none) "chunk = []" | (refuse) "chunk \<noteq> []" "r_low ?r \<or> r_off ?r"
      | (over) "chunk \<noteq> []" "\<not> r_low ?r" "\<not> r_off ?r" "r_queued ?r + int (length chunk) > pendingCap"
      | (keep) "chunk \<noteq> []" "\<not> r_low ?r" "\<not> r_off ?r" "r_queued ?r + int (length chunk) \<le> pendingCap"
      by linarith
    then have "ring_ok r (y_hist s @ chunk) \<and> marks_ok r now \<and> link_ok ?s"
    proof cases
      case none
      with ap have r: "r = ?r" "ds = []" by (auto simp: Append_def)
      have "marks_ok ?r now" using rok(2) now by (auto simp: marks_ok_def)
      moreover have "link_ok ?s" by (rule link_ok_cong [OF rok(3)]) (simp_all add: r)
      ultimately show ?thesis using none r rok by simp
    next
      case refuse
      with ap False have r: "r = refused chunk ?r" "ds = []" by (auto simp: append_form)
      have "link_ok ?s" by (rule link_ok_cong [OF refused_keeps [OF rok(3) refuse(2,1) rok(1)]]) (simp_all add: r)
      then show ?thesis using append_refused [OF rok(1,2) refuse(2) now] r by simp
    next
      case over
      let ?n = "?r\<lparr>r_received := r_received ?r + int (length chunk)\<rparr>"
      from over ap False have r: "r = emptied ?n" "ds = map s_path (r_segs ?r)"
        by (auto simp: append_form)
      have "ring_ok r (y_hist s @ chunk)"
        unfolding r using rok(1) by (intro ring_ok_emptied) (simp add: ring_ok_def)
      moreover have "marks_ok r now" using base r by (simp add: marks_ok_emptied)
      moreover have up: "r_flushed ?r < r_flushed r" using rok(1) r over(1) by (cases chunk) (auto simp: ring_ok_def)
      moreover have "link_ok ?s"
        by (rule link_ok_cong [OF reset_keeps [of s r ds]]) (use rok(3) r up False in auto)
      ultimately show ?thesis by simp
    next
      case keep
      with ap False have r: "r = kept now chunk ?r" "ds = []" by (auto simp: append_form)
      have "link_ok ?s" by (rule link_ok_cong [OF kept_keeps [OF rok(3)]]) (simp_all add: r)
      moreover have "marks_ok r now"
        unfolding r by (rule append_kept_marks [OF rok(2) _ now keep(1) rok(1)]) (use ok in \<open>simp add: sys_ok_def\<close>)
      ultimately show ?thesis using append_kept_ring [OF rok(1) keep] r by simp
    qed
    then show ?thesis using base by (intro sys_okI) auto
  qed
qed

lemma chain_last: "chain a ss b \<Longrightarrow> ss \<noteq> [] \<Longrightarrow> s_path (last ss) + s_size (last ss) = b"
  by (induction ss arbitrary: a) (auto split: if_splits)

lemma step_close_ok: "sys_ok s \<Longrightarrow> sys_ok (s\<lparr>y_ring := Close (y_ring s)\<rparr>)"
  by (cases "y_phase s") (auto simp: sys_ok_def flight_ok_def Close_def)

lemma step_take_ok:
  assumes ok: "sys_ok s" and idle: "y_phase s = Idle" and now: "y_clock s \<le> now"
    and f: "flushTake span now (y_file s) (y_ring s) = Some f"
  shows "sys_ok (s\<lparr>y_phase := Taken f, y_clock := now\<rparr>)" (is "sys_ok ?s")
proof -
  let ?r = "y_ring s"
  have open_: "\<not> r_closed ?r" and pend: "r_pending ?r \<noteq> []"
    and fd: "f_gen f = r_gen ?r" "f_batch f = r_pending ?r" "f_first f = r_flushed ?r"
      "\<not> f_rotate f \<longrightarrow> y_file s \<noteq> None \<and> r_segs ?r \<noteq> []"
    using f by (auto simp: flushTake_def split: if_splits)
  note rok = sys_okD [OF ok open_]
  have full: "last_full s 0" using rok(3) idle by (simp add: link_ok_def phase_ok_def)
  have "0 \<le> r_flushed ?r" using rok(1) chain_le by (fastforce simp: ring_ok_def)
  moreover have "concat (r_pending ?r) \<noteq> []" using rok(1) pend by (cases "r_pending ?r") (auto simp: ring_ok_def)
  moreover have "r_flushed ?r + int (length (concat (r_pending ?r))) = r_received ?r"
    "r_received ?r = int (length (y_hist s))"
    "concat (r_pending ?r) = window (y_hist s) (r_flushed ?r) (r_received ?r)"
    using rok(1) ring_ok_queued [OF rok(1)] by (simp_all add: ring_ok_def)
  ultimately have "flight_data f (y_hist s)"
    unfolding flight_data_def fd by (metis order_refl)
  moreover have "\<exists>p. y_file s = Some p \<and> (\<forall>c. y_disk s p = Some c \<longrightarrow> p + int (length c) = f_first f)"
    if "\<not> f_rotate f"
    using that fd full chain_last [of "r_start ?r" "r_segs ?r" "r_flushed ?r"] rok(1)
    by (auto simp: last_full_def ring_ok_def)
  ultimately have fl: "flight_ok ?s" by (simp add: flight_ok_def)
  have "current f ?r" using rok(1) pend fd by (auto simp: current_def ring_ok_def)
  then have "phase_ok ?s" using full fd by (simp add: phase_ok_def last_full_def)
  moreover have "live_ok ?s" using rok(3) by (simp add: link_ok_def live_ok_def)
  moreover have "fresh_ok ?s" using rok(3) idle by (simp add: link_ok_def fresh_ok_def busy_def)
  moreover have "marks_ok ?r now" using rok(2) now by (auto simp: marks_ok_def)
  ultimately show ?thesis
    using ok now fl rok(1) by (intro sys_okI) (auto simp: sys_ok_def link_ok_def)
qed

lemma current_pending: "current f r \<Longrightarrow> ring_ok r h \<Longrightarrow> concat (f_batch f) \<noteq> [] \<Longrightarrow>
    r_flushed r < r_received r"
proof -
  assume "current f r" "ring_ok r h" "concat (f_batch f) \<noteq> []"
  then obtain more where "r_pending r = f_batch f @ more" by (auto simp: current_def)
  with \<open>concat (f_batch f) \<noteq> []\<close> have "0 < length (concat (r_pending r))" by auto
  with ring_ok_queued [OF \<open>ring_ok r h\<close>] show ?thesis by linarith
qed

lemma step_create_fails_ok:
  assumes ok: "sys_ok s" and ph: "y_phase s = Taken f"
  shows "sys_ok (s\<lparr>y_phase := Failing (f_gen f), y_file := None\<rparr>)" (is "sys_ok ?s")
proof (cases "r_closed (y_ring s)")
  case True
  with ok show ?thesis by (simp add: sys_ok_def flight_ok_def)
next
  case False
  note rok = sys_okD [OF ok False]
  have "concat (f_batch f) \<noteq> []" using ok ph by (simp add: sys_ok_def flight_ok_def flight_data_def)
  then have "phase_ok ?s"
    using rok(3) ph current_pending [OF _ rok(1), of f]
    by (auto simp: link_ok_def phase_ok_def current_def split: if_splits)
  moreover have "live_ok ?s" using rok(3) by (simp add: link_ok_def live_ok_def)
  moreover have "fresh_ok ?s" using rok(3) ph by (simp add: link_ok_def fresh_ok_def busy_def)
  ultimately show ?thesis using ok rok by (auto simp: sys_ok_def flight_ok_def)
qed

lemma batchBytes_window:
  assumes "flight_data f h" and "\<forall>k. fault = Some k \<longrightarrow> k \<le> length (concat (f_batch f))"
  defines "bs \<equiv> batchBytes (f_batch f) fault"
  shows "bs = window h (f_first f) (f_first f + int (length bs))"
    and "f_first f + int (length bs) \<le> int (length h)"
proof -
  let ?n = "length (concat (f_batch f))" and ?a = "f_first f"
  have d: "concat (f_batch f) = window h ?a (?a + int ?n)" "0 \<le> ?a" "?a + int ?n \<le> int (length h)"
    using assms by (auto simp: flight_data_def)
  define k where "k = (case fault of None \<Rightarrow> ?n | Some k \<Rightarrow> k)"
  have bs: "bs = take k (concat (f_batch f))" and k: "k \<le> ?n"
    using assms(2) by (auto simp: bs_def k_def batchBytes_def split: option.splits)
  have "bs = take (nat (int k)) (drop (nat 0) (window h ?a (?a + int ?n)))" using bs d(1) by simp
  also have "\<dots> = window h ?a (?a + int k)"
    using d k by (subst take_drop_window) auto
  finally have w: "bs = window h ?a (?a + int k)" .
  have len: "length bs = k" unfolding bs using k by (simp only: length_take min_absorb2)
  show "bs = window h ?a (?a + int (length bs))" unfolding len by (rule w)
  show "?a + int (length bs) \<le> int (length h)" unfolding len using k d(3) by linarith
qed

lemma disk_ok_appendFile:
  assumes d: "disk_ok disk h" and c: "\<forall>c. disk p = Some c \<longrightarrow> p + int (length c) = a"
    and bs: "bs = window h a (a + int (length bs))" "a + int (length bs) \<le> int (length h)"
  shows "disk_ok (appendFile p bs disk) h"
proof (cases "disk p")
  case None
  then show ?thesis using d by (simp add: appendFile_def)
next
  case (Some c)
  then have p: "0 \<le> p" "p + int (length c) = a" "c = window h p a"
    using d c by (auto simp: disk_ok_def)
  have "c @ bs = window h p a @ window h a (a + int (length bs))" using p(3) bs(1) by simp
  also have "\<dots> = window h p (a + int (length bs))" using p by (intro window_split) auto
  finally have "c @ bs = window h p (a + int (length bs))" .
  moreover have "p + int (length (c @ bs)) = a + int (length bs)" using p(2) by simp
  ultimately have new: "c @ bs = window h p (p + int (length (c @ bs)))"
    "p + int (length (c @ bs)) \<le> int (length h)" using bs(2) by (simp_all only:)
  show ?thesis
    unfolding disk_ok_def
  proof (intro allI impI)
    fix q c' assume q: "appendFile p bs disk q = Some c'"
    show "0 \<le> q \<and> q + int (length c') \<le> int (length h) \<and> c' = window h q (q + int (length c'))"
    proof (cases "q = p")
      case True
      with q Some have "c' = c @ bs" by (simp add: appendFile_def)
      with True new p(1) show ?thesis by blast
    next
      case False
      with q Some have "disk q = Some c'" by (simp add: appendFile_def)
      with d show ?thesis by (simp add: disk_ok_def)
    qed
  qed
qed

lemma disk_ok_create:
  "disk_ok disk h \<Longrightarrow> 0 \<le> p \<Longrightarrow> p \<le> int (length h) \<Longrightarrow> disk_ok (disk(p \<mapsto> [])) h"
  by (auto simp: disk_ok_def)

lemma appendFile_other [simp]: "q \<noteq> p \<Longrightarrow> appendFile p bs disk q = disk q"
  by (simp add: appendFile_def split: option.split)

lemma dom_appendFile [simp]: "dom (appendFile p bs disk) = dom disk"
  by (auto simp: appendFile_def split: option.splits)

lemma step_write_disk:
  assumes ok: "sys_ok s" and ph: "y_phase s = Taken f"
    and k: "\<forall>k. fault = Some k \<longrightarrow> k \<le> length (concat (f_batch f))"
    and w: "flushWrite f fault (y_file s) (y_disk s) = (seg, file, disk)"
  shows "disk_ok disk (y_hist s)"
proof -
  have fd: "flight_data f (y_hist s)" using ok ph by (simp add: sys_ok_def flight_ok_def)
  note bs = batchBytes_window [OF fd k]
  have d: "disk_ok (y_disk s) (y_hist s)" using ok by (simp add: sys_ok_def)
  have range: "0 \<le> f_first f" "f_first f \<le> int (length (y_hist s))"
    using fd by (auto simp: flight_data_def)
  show ?thesis
  proof (cases "f_rotate f")
    case True
    have "disk_ok ((y_disk s)(f_first f \<mapsto> [])) (y_hist s)" by (rule disk_ok_create [OF d range])
    from disk_ok_appendFile [OF this _ bs, of "f_first f"] show ?thesis
      using True w by (simp add: flushWrite_def Let_def)
  next
    case False
    then obtain p where p: "y_file s = Some p" "\<forall>c. y_disk s p = Some c \<longrightarrow> p + int (length c) = f_first f"
      using ok ph by (auto simp: sys_ok_def flight_ok_def)
    from disk_ok_appendFile [OF d p(2) bs] show ?thesis
      using False w p by (simp add: flushWrite_def)
  qed
qed

lemma step_write_link:
  assumes lk: "link_ok s" and ph: "y_phase s = Taken f"
    and w: "flushWrite f fault (y_file s) (y_disk s) = (seg, file, disk)"
  shows "link_ok (s\<lparr>y_phase := Written f fault seg, y_file := file, y_disk := disk\<rparr>)" (is "link_ok ?s")
proof -
  let ?r = "y_ring s"
  have ok: "phase_ok s" "live_ok s" "fresh_ok s" using lk by (auto simp: link_ok_def)
  have below: "p < r_flushed ?r" if "p \<in> dom (y_disk s) \<union> y_doomed s" for p
    using that ok(3) ph by (simp add: fresh_ok_def busy_def)
  have segd: "s_path g \<in> dom (y_disk s)" if "g \<in> set (r_segs ?r)" for g
    using that ok(2) by (auto simp: live_ok_def)
  show ?thesis
  proof (cases "f_rotate f")
    case True
    then have w': "file = Some (f_first f)" "disk = (y_disk s)(f_first f \<mapsto> batchBytes (f_batch f) fault)"
      "seg = Some \<lparr>s_path = f_first f, s_first = f_first f, s_size = 0, s_opened = f_now f\<rparr>"
      using w by (auto simp: flushWrite_def appendFile_def Let_def)
    have nodir: "f_first f \<notin> dom (y_disk s)" "f_first f \<notin> y_doomed s" if "f_gen f = r_gen ?r"
      using that ok(1) ph below by (auto simp: phase_ok_def current_def)
    have nopath: "f_first f \<notin> s_path ` set (r_segs ?r)" if "f_gen f = r_gen ?r"
      using nodir(1) [OF that] segd by (metis imageE)
    have "phase_ok ?s" using ok(1) ph w' nodir nopath by (auto simp: phase_ok_def split: if_splits)
    moreover have "live_ok ?s"
    proof (cases "f_gen f = r_gen ?r")
      case True
      have "disk (s_path g) = y_disk s (s_path g)" if "g \<in> set (r_segs ?r)" for g
      proof -
        have "s_path g \<noteq> f_first f" using that nopath [OF True] by (metis imageI)
        then show ?thesis using w'(2) by simp
      qed
      with ok(2) show ?thesis by (simp add: live_ok_def)
    next
      case False
      with ok(1) ph show ?thesis by (simp add: phase_ok_def live_ok_def)
    qed
    moreover have "fresh_ok ?s"
      using ok(1) ph w' below
      by (cases "f_gen f = r_gen ?r") (auto simp: fresh_ok_def busy_def phase_ok_def current_def)
    ultimately show ?thesis by (simp add: link_ok_def)
  next
    case False
    then have seg: "seg = None" "file = y_file s" using w by (auto simp: flushWrite_def)
    have dk: "disk = (case y_file s of None \<Rightarrow> y_disk s | Some p \<Rightarrow> appendFile p (batchBytes (f_batch f) fault) (y_disk s))"
      using w False by (auto simp: flushWrite_def)
    have "dom disk = dom (y_disk s)" unfolding dk by (cases "y_file s") simp_all
    moreover have "\<And>p c. y_disk s p = Some c \<Longrightarrow> \<exists>c'. disk p = Some c' \<and> length c \<le> length c'"
      using w False by (auto simp: flushWrite_def appendFile_def split: option.splits)
    ultimately have disk: "dom disk = dom (y_disk s)"
      "\<And>p c. y_disk s p = Some c \<Longrightarrow> \<exists>c'. disk p = Some c' \<and> length c \<le> length c'" by blast+
    have "phase_ok ?s"
    proof (cases "f_gen f = r_gen ?r")
      case True
      then have c: "current f ?r" "last_full s 0" "r_segs ?r \<noteq> []"
        using ok(1) ph False by (auto simp: phase_ok_def)
      with w False have "last_full ?s (int (length (batchBytes (f_batch f) fault)))"
        by (auto simp: last_full_def flushWrite_def appendFile_def)
      with True c seg show ?thesis by (simp add: phase_ok_def)
    next
      case False
      with ok(1) ph seg show ?thesis by (simp add: phase_ok_def)
    qed
    moreover have "live_ok ?s"
      using ok(2) disk(2) by (fastforce simp: live_ok_def)
    moreover have "fresh_ok ?s" using disk(1) below by (intro fresh_okI) simp
    ultimately show ?thesis by (simp add: link_ok_def)
  qed
qed

lemma step_write_ok:
  assumes ok: "sys_ok s" and ph: "y_phase s = Taken f"
    and k: "\<forall>k. fault = Some k \<longrightarrow> k \<le> length (concat (f_batch f))"
    and w: "flushWrite f fault (y_file s) (y_disk s) = (seg, file, disk)"
  shows "sys_ok (s\<lparr>y_phase := Written f fault seg, y_file := file, y_disk := disk\<rparr>)" (is "sys_ok ?s")
proof -
  have "flight_ok ?s" using ok ph by (simp add: sys_ok_def flight_ok_def)
  moreover have "link_ok ?s" if "\<not> r_closed (y_ring s)"
    using sys_okD [OF ok that] step_write_link [OF _ ph w] by blast
  ultimately show ?thesis
    using ok step_write_disk [OF ok ph k w] by (auto simp: sys_ok_def link_ok_def)
qed

text \<open>What every operation keeps, open or closed.\<close>

lemma emptied_frame [simp]:
  "r_received (moveToEnd (snd (resetLocked r))) = r_received r"
  "r_closed (moveToEnd (snd (resetLocked r))) = r_closed r"
  by (simp_all add: reset_form)

lemma trimLocked_frame:
  "trimLocked now r = (ds, r') \<Longrightarrow> r_received r' = r_received r \<and> r_closed r' = r_closed r"
  by (rule trimLocked_form [of now r]) auto

lemma fail_form:
  "fail g r = (if r_gen r = g then (map s_path (r_segs r), (emptied r)\<lparr>r_low := True\<rparr>) else ([], r))"
proof -
  obtain ds r1 where "resetLocked r = (ds, r1)" by force
  with reset_form [where r = r] show ?thesis by (simp add: fail_def)
qed

lemma stop_form: "stop r = (map s_path (r_segs r), (emptied r)\<lparr>r_low := True\<rparr>)"
proof -
  obtain ds r1 where "resetLocked r = (ds, r1)" by force
  with reset_form [where r = r] show ?thesis by (simp add: stop_def)
qed

lemma ring_ok_low: "r_received r = int (length h) \<Longrightarrow> ring_ok ((emptied r)\<lparr>r_low := True\<rparr>) h"
  by (simp add: ring_ok_def emptied_def)

lemma ring_ok_off: "r_received r = int (length h) \<Longrightarrow> ring_ok ((emptied r)\<lparr>r_off := True\<rparr>) h"
  by (simp add: ring_ok_def emptied_def)

lemma marks_ok_low: "0 \<le> t \<Longrightarrow> marks_ok ((emptied r)\<lparr>r_low := b\<rparr>) t"
  by (simp add: marks_ok_def emptied_def)

lemma marks_ok_off: "0 \<le> t \<Longrightarrow> marks_ok ((emptied r)\<lparr>r_off := b\<rparr>) t"
  by (simp add: marks_ok_def emptied_def)

lemma step_fail_ok:
  assumes ok: "sys_ok s" and ph: "y_phase s = Failing g" and f: "fail g (y_ring s) = (ds, r)"
  shows "sys_ok (s\<lparr>y_phase := Idle, y_file := None, y_ring := r, y_doomed := y_doomed s \<union> set ds\<rparr>)"
    (is "sys_ok ?s")
proof (cases "r_closed (y_ring s)")
  case True
  then have "r_closed r" "r_received r = r_received (y_ring s)"
    using f by (auto simp: fail_form split: if_splits)
  with ok True show ?thesis by (simp add: sys_ok_def flight_ok_def)
next
  case False
  note rok = sys_okD [OF ok False]
  have lk: "phase_ok s" "live_ok s" "fresh_ok s" using rok(3) by (auto simp: link_ok_def)
  show ?thesis
  proof (cases "r_gen (y_ring s) = g")
    case True
    then have r: "r = (emptied (y_ring s))\<lparr>r_low := True\<rparr>" "ds = map s_path (r_segs (y_ring s))"
      using f by (auto simp: fail_form)
    have up: "r_flushed (y_ring s) < r_flushed r" using lk(1) ph True r by (simp add: phase_ok_def)
    have below: "p < r_flushed r" if "p \<in> dom (y_disk s) \<union> y_doomed s" for p
      using fresh_le [OF lk(3) that] up by simp
    have "s_path x \<in> dom (y_disk s)" if "x \<in> set (r_segs (y_ring s))" for x
      using that lk(2) by (auto simp: live_ok_def)
    with below have "fresh_ok ?s" using r(2) by (intro fresh_okI) auto
    moreover have "phase_ok ?s" "live_ok ?s"
      using r by (simp_all add: phase_ok_def live_ok_def last_full_def)
    ultimately show ?thesis
      using ok rok r ring_ok_low [of "y_ring s" "y_hist s"] marks_ok_low [of "y_clock s"]
      by (simp add: sys_ok_def flight_ok_def)
  next
    case False
    then have r: "r = y_ring s" "ds = []" using f by (auto simp: fail_form split: if_splits)
    have "phase_ok ?s" using lk(1) ph False r by (simp add: phase_ok_def last_full_def)
    moreover have "live_ok ?s" using lk(2) r by (simp add: live_ok_def)
    moreover have "fresh_ok ?s" using lk(3) ph False r by (simp add: fresh_ok_def busy_def)
    ultimately show ?thesis using ok rok r by (simp add: sys_ok_def flight_ok_def)
  qed
qed

text \<open>Dropping the oldest files of an idle ring.\<close>

lemma dropped_keeps:
  assumes lk: "link_ok s" and idle: "y_phase s = Idle" and k: "k = 0 \<or> k < length (r_segs (y_ring s))"
    and dist: "distinct (map s_path (r_segs (y_ring s)))"
    and r: "r_segs r = drop k (r_segs (y_ring s))" "r_flushed r = r_flushed (y_ring s)"
    and ds: "ds = map s_path (take k (r_segs (y_ring s)))"
  shows "link_ok (s\<lparr>y_ring := r, y_doomed := y_doomed s \<union> set ds\<rparr>)" (is "link_ok ?s")
proof -
  have ok: "phase_ok s" "live_ok s" "fresh_ok s" using lk by (auto simp: link_ok_def)
  have "last_full ?s 0"
    using ok(1) idle k r by (cases "k = 0") (auto simp: phase_ok_def last_full_def)
  then have "phase_ok ?s" using idle by (simp add: phase_ok_def)
  moreover have "live_ok ?s"
    unfolding live_ok_def
  proof
    fix g assume "g \<in> set (r_segs (y_ring ?s))"
    then have g: "g \<in> set (drop k (r_segs (y_ring s)))" using r by simp
    have "set (take k (map s_path (r_segs (y_ring s)))) \<inter> set (drop k (map s_path (r_segs (y_ring s)))) = {}"
      using dist by (metis append_take_drop_id distinct_append)
    then have "s_path g \<notin> set ds" using g ds by (auto simp: take_map drop_map)
    with g ok(2) show "s_path g \<notin> y_doomed ?s \<and> (\<exists>c. y_disk ?s (s_path g) = Some c \<and> s_size g \<le> int (length c))"
      by (auto simp: live_ok_def dest: in_set_dropD)
  qed
  moreover have "fresh_ok ?s"
  proof (rule fresh_okI)
    fix p assume "p \<in> dom (y_disk ?s) \<union> y_doomed ?s"
    then have "p \<in> dom (y_disk s) \<union> y_doomed s"
      using ok(2) ds by (auto simp: live_ok_def dest!: in_set_takeD)
    with ok(3) idle r show "p < r_flushed (y_ring ?s)" by (simp add: fresh_ok_def busy_def)
  qed
  ultimately show ?thesis by (simp add: link_ok_def)
qed

lemma ring_ok_window [simp]: "ring_ok (r\<lparr>r_window := w\<rparr>) h = ring_ok r h"
  by (simp add: ring_ok_def)

lemma marks_ok_window [simp]: "marks_ok (r\<lparr>r_window := w\<rparr>) t = marks_ok r t"
  by (simp add: marks_ok_def)

lemma emptied_window: "emptied (r\<lparr>r_window := w\<rparr>) = (emptied r)\<lparr>r_window := w\<rparr>"
  by (simp add: emptied_def)

text \<open>The four outcomes of \<^verbatim>\<open>checkWindow\<close>.\<close>

lemma checkWindow_form:
  assumes "checkWindow w now r = (ds, r')"
  obtains (emptied) "w \<le> 0" "\<not> r_off r" "ds = map s_path (r_segs r)"
      "r' = (emptied (r\<lparr>r_window := w\<rparr>))\<lparr>r_off := True\<rparr>"
    | (same) "w \<le> 0" "r_off r" "ds = []" "r' = r\<lparr>r_window := w\<rparr>"
    | (trimmed) k where "w > 0" "k = 0 \<or> k < length (r_segs r)"
      "ds = map s_path (take k (r_segs r))"
      "r' = trimMarksLocked (dropped k (r\<lparr>r_window := w, r_off := False\<rparr>))"
      "\<And>i. i < k \<Longrightarrow> time_sub now (s_opened (r_segs r ! Suc i)) \<ge> w"
proof (cases "w \<le> 0")
  case True
  obtain da ra where "resetLocked (r\<lparr>r_window := w\<rparr>) = (da, ra)" by force
  with True assms reset_form [where r = "r\<lparr>r_window := w\<rparr>"] emptied same show thesis
    by (auto simp: checkWindow_def Let_def split: if_splits)
next
  case False
  let ?r = "r\<lparr>r_window := w, r_off := False\<rparr>"
  have c: "checkWindow w now r = trimLocked now ?r"
  proof (cases "r_off r")
    case True
    with False show ?thesis by (auto simp: checkWindow_def Let_def split: prod.splits)
  next
    case on: False
    have "checkWindow w now r = trimLocked now (r\<lparr>r_window := w\<rparr>)"
      using False on by (simp add: checkWindow_def Let_def split: prod.splits)
    also have "r\<lparr>r_window := w\<rparr> = ?r" using on by simp
    finally show ?thesis .
  qed
  show thesis
  proof (rule trimLocked_form [of now ?r])
    fix k
    assume "trimLocked now ?r = (map s_path (take k (r_segs ?r)), trimMarksLocked (dropped k ?r))"
      "k = 0 \<or> k < length (r_segs ?r)"
      "\<And>i. i < k \<Longrightarrow> 0 < r_window ?r \<and> r_window ?r \<le> time_sub now (s_opened (r_segs ?r ! Suc i))"
    with c assms False show thesis by (intro trimmed [of k]) auto
  qed
qed

lemma step_window_ok:
  assumes ok: "sys_ok s" and idle: "y_phase s = Idle" and now: "y_clock s \<le> now"
    and w: "checkWindow w now (y_ring s) = (ds, r)"
  shows "sys_ok (s\<lparr>y_ring := r, y_doomed := y_doomed s \<union> set ds, y_clock := now\<rparr>)" (is "sys_ok ?s")
proof -
  have fl: "flight_ok ?s" using idle by (simp add: flight_ok_def)
  have base: "0 < now" "disk_ok (y_disk s) (y_hist s)" "r_received (y_ring s) = int (length (y_hist s))"
    using ok now by (auto simp: sys_ok_def)
  have frame: "r_received r = r_received (y_ring s)" "r_closed r = r_closed (y_ring s)"
    using w by (auto elim!: checkWindow_form)
  show ?thesis
  proof (cases "r_closed (y_ring s)")
    case True
    with fl base frame show ?thesis by (simp add: sys_ok_def)
  next
    case False
    note rok = sys_okD [OF ok False]
    have mk: "marks_ok (y_ring s) now" using rok(2) now by (auto simp: marks_ok_def)
    from w have "ring_ok r (y_hist s) \<and> marks_ok r now \<and> link_ok ?s"
    proof (cases rule: checkWindow_form)
      case emptied
      have "ring_ok r (y_hist s)" "marks_ok r now"
        unfolding emptied(4) using base by (auto intro!: ring_ok_off marks_ok_off)
      moreover have "link_ok ?s"
        by (rule link_ok_cong [OF reset_keeps [of s r ds]])
           (use rok emptied False idle in \<open>auto simp: ring_ok_def\<close>)
      ultimately show ?thesis by blast
    next
      case same
      have "link_ok ?s"
        by (rule link_ok_cong [OF dropped_keeps [of s 0 r ds]])
           (use rok same idle in \<open>auto simp: ring_ok_def\<close>)
      with same rok mk show ?thesis by simp
    next
      case (trimmed k)
      let ?w = "(y_ring s)\<lparr>r_window := w, r_off := False\<rparr>"
      have "ring_ok ?w (y_hist s)" "marks_ok ?w now"
        using rok(1) mk by (auto simp: ring_ok_def marks_ok_def)
      then have "ring_ok r (y_hist s)" "marks_ok r now"
        unfolding trimmed(4) using trimmed(2) marks_ok_dropped [of ?w now now k]
        by (auto intro!: ring_ok_trimMarks ring_ok_dropped)
      moreover have "link_ok ?s"
        by (rule link_ok_cong [OF dropped_keeps [of s k r ds]])
           (use rok trimmed idle in \<open>auto simp: ring_ok_def\<close>)
      ultimately show ?thesis by blast
    qed
    with fl base show ?thesis by (intro sys_okI) auto
  qed
qed

lemma checkRoom_form:
  assumes "checkRoom room r = (ds, r')"
  obtains (same) "ds = []" "r' = r" "\<And>x. room = Some x \<Longrightarrow> 0 \<le> x \<or> r_low r"
    | (resumed) k where "room = Some k" "k \<ge> resumeRoom" "r_low r" "ds = []" "r' = r\<lparr>r_low := False\<rparr>"
    | (freed) need k where "room = Some need" "need < 0" "\<not> r_low r" "k = 0 \<or> k < length (r_segs r)"
      "ds = map s_path (take k (r_segs r))" "r' = trimMarksLocked (dropped k r)"
      "- need \<le> sum_list (map s_size (take k (r_segs r)))"
    | (stopped) need where "room = Some need" "need < 0" "\<not> r_low r" "ds = map s_path (r_segs r)"
      "r' = (emptied r)\<lparr>r_low := True\<rparr>" "r_segs r \<noteq> [] \<longrightarrow> sum_list (map s_size (butlast (r_segs r))) < - need"
proof (cases room)
  case None
  with assms same show thesis by (simp add: checkRoom_def)
next
  case (Some need)
  show thesis
  proof (cases "need < 0 \<and> \<not> r_low r")
    case False
    then have eq: "checkRoom room r = (if r_low r \<and> need \<ge> resumeRoom then ([], r\<lparr>r_low := False\<rparr>) else ([], r))"
      using Some by (simp add: checkRoom_def del: de_Morgan_conj)
    show thesis
    proof (cases "r_low r \<and> need \<ge> resumeRoom")
      case True
      with eq assms show thesis by (intro resumed [of need]) (simp_all add: Some)
    next
      case False
      then have "checkRoom room r = ([], r)" using eq by (simp only: if_False)
      with assms \<open>\<not> (need < 0 \<and> \<not> r_low r)\<close> Some show thesis by (intro same) auto
    qed
  next
    case True
    show thesis
    proof (rule roomLoop_form [of "- need" r])
      fix k need'
      assume l: "roomLoop (- need) r = (need', map s_path (take k (r_segs r)), dropped k r)"
        "k = 0 \<or> k < length (r_segs r)" "need' = - need - sum_list (map s_size (take k (r_segs r)))"
        "need' \<le> 0 \<or> length (r_segs r) \<le> Suc k"
      let ?t = "trimMarksLocked (dropped k r)"
      obtain da ra where da: "resetLocked ?t = (da, ra)" by force
      have em: "emptied ?t = emptied r" by (simp add: emptied_def dropped_def trimMarksLocked_def)
      show thesis
      proof (cases "need' > 0")
        case False
        with l True Some assms show thesis
          by (intro freed [of need k]) (auto simp: checkRoom_def Let_def)
      next
        case need: True
        have "ds = map s_path (take k (r_segs r)) @ map s_path (drop k (r_segs r))" "r' = (emptied r)\<lparr>r_low := True\<rparr>"
          using need l(1) True Some assms da reset_form [where r = ?t] em
          by (simp_all add: checkRoom_def Let_def)
        then have "ds = map s_path (r_segs r)" "r' = (emptied r)\<lparr>r_low := True\<rparr>"
          by (metis append_take_drop_id map_append, blast)
        moreover have "take k (r_segs r) = butlast (r_segs r)" if "r_segs r \<noteq> []"
        proof -
          have "k = length (r_segs r) - 1" using that need l(2,4) by (cases "r_segs r") auto
          then show ?thesis by (simp add: butlast_conv_take)
        qed
        ultimately show thesis
          using True Some need l(3) by (intro stopped [of need]) auto
      qed
    qed
  qed
qed

lemma step_room_ok:
  assumes ok: "sys_ok s" and idle: "y_phase s = Idle" and c: "checkRoom room (y_ring s) = (ds, r)"
  shows "sys_ok (s\<lparr>y_ring := r, y_doomed := y_doomed s \<union> set ds\<rparr>)" (is "sys_ok ?s")
proof -
  have fl: "flight_ok ?s" using idle by (simp add: flight_ok_def)
  have base: "0 < y_clock s" "disk_ok (y_disk s) (y_hist s)" "r_received (y_ring s) = int (length (y_hist s))"
    using ok by (auto simp: sys_ok_def)
  have frame: "r_received r = r_received (y_ring s)" "r_closed r = r_closed (y_ring s)"
    using c by (auto elim!: checkRoom_form)
  show ?thesis
  proof (cases "r_closed (y_ring s)")
    case True
    with fl base frame show ?thesis by (simp add: sys_ok_def)
  next
    case False
    note rok = sys_okD [OF ok False]
    have dist: "distinct (map s_path (r_segs (y_ring s)))" using rok(1) by (simp add: ring_ok_def)
    from c have "ring_ok r (y_hist s) \<and> marks_ok r (y_clock s) \<and> link_ok ?s"
    proof (cases rule: checkRoom_form)
      case same
      with rok show ?thesis by simp
    next
      case (resumed k)
      have "link_ok ?s"
        by (rule link_ok_cong [OF dropped_keeps [of s 0 r ds]]) (use rok dist resumed idle in auto)
      with resumed rok show ?thesis by (auto simp: ring_ok_def marks_ok_def)
    next
      case (freed need k)
      have "ring_ok r (y_hist s)" "marks_ok r (y_clock s)"
        unfolding freed(6) using rok freed(4) marks_ok_dropped [OF rok(2), of "y_clock s" k]
        by (auto intro!: ring_ok_trimMarks ring_ok_dropped)
      moreover have "link_ok ?s"
        by (rule link_ok_cong [OF dropped_keeps [of s k r ds]]) (use rok dist freed idle in auto)
      ultimately show ?thesis by blast
    next
      case (stopped need)
      have "link_ok ?s"
        by (rule link_ok_cong [OF reset_keeps [of s r ds]])
           (use rok stopped False idle in \<open>auto simp: ring_ok_def\<close>)
      with stopped base show ?thesis by (auto intro!: ring_ok_low marks_ok_low)
    qed
    with fl base show ?thesis by (intro sys_okI) auto
  qed
qed

lemma step_stop_ok:
  assumes ok: "sys_ok s" and idle: "y_phase s = Idle" and c: "stop (y_ring s) = (ds, r)"
  shows "sys_ok (s\<lparr>y_ring := r, y_doomed := y_doomed s \<union> set ds\<rparr>)" (is "sys_ok ?s")
proof -
  have r: "ds = map s_path (r_segs (y_ring s))" "r = (emptied (y_ring s))\<lparr>r_low := True\<rparr>"
    using c by (auto simp: stop_form)
  have fl: "flight_ok ?s" using idle by (simp add: flight_ok_def)
  have base: "0 < y_clock s" "disk_ok (y_disk s) (y_hist s)" "r_received (y_ring s) = int (length (y_hist s))"
    using ok by (auto simp: sys_ok_def)
  show ?thesis
  proof (cases "r_closed (y_ring s)")
    case True
    with fl base r show ?thesis by (simp add: sys_ok_def)
  next
    case False
    note rok = sys_okD [OF ok False]
    have "link_ok ?s"
      by (rule link_ok_cong [OF reset_keeps [of s r ds]])
         (use rok r False idle in \<open>auto simp: ring_ok_def\<close>)
    with fl base r show ?thesis by (intro sys_okI) (auto intro!: ring_ok_low marks_ok_low)
  qed
qed

lemma step_exit_ok:
  assumes ok: "sys_ok s" and closed: "r_closed (y_ring s)" and c: "resetLocked (y_ring s) = (ds, r)"
  shows "sys_ok (s\<lparr>y_phase := Exited, y_file := None, y_ring := moveToEnd r, y_disk := Map.empty\<rparr>)"
proof -
  have "moveToEnd r = emptied (y_ring s)" using c reset_form [where r = "y_ring s"] by simp
  with ok closed show ?thesis by (simp add: sys_ok_def flight_ok_def disk_ok_def)
qed

lemma step_remove_ok:
  assumes ok: "sys_ok s" and p: "p \<in> y_doomed s"
  shows "sys_ok (s\<lparr>y_disk := (y_disk s)(p := None), y_doomed := y_doomed s - {p}\<rparr>)" (is "sys_ok ?s")
proof -
  have d: "disk_ok (y_disk ?s) (y_hist s)" using ok by (auto simp: sys_ok_def disk_ok_def)
  have fl: "flight_ok ?s" using ok by (cases "y_phase s") (auto simp: sys_ok_def flight_ok_def)
  show ?thesis
  proof (cases "r_closed (y_ring s)")
    case True
    with ok d fl show ?thesis by (simp add: sys_ok_def)
  next
    case False
    note rok = sys_okD [OF ok False]
    have lk: "phase_ok s" "live_ok s" "fresh_ok s" using rok(3) by (auto simp: link_ok_def)
    have away: "s_path g \<noteq> p" if "g \<in> set (r_segs (y_ring s))" for g
      using that lk(2) p by (auto simp: live_ok_def)
    have full: "last_full ?s n = last_full s n" for n
      using away [of "last (r_segs (y_ring s))"] by (auto simp: last_full_def)
    have "phase_ok ?s"
    proof (cases "y_phase s")
      case (Written f fault seg)
      with lk(1) full p show ?thesis
        by (auto simp: phase_ok_def split: option.splits if_splits)
    qed (use lk(1) full in \<open>auto simp: phase_ok_def\<close>)
    moreover have "live_ok ?s" using lk(2) away by (simp add: live_ok_def)
    moreover have "fresh_ok ?s" using lk(3) by (cases "y_phase s") (auto simp: fresh_ok_def busy_def)
    ultimately show ?thesis using ok d fl rok by (auto simp: sys_ok_def)
  qed
qed

lemma drop_window:
  assumes "0 \<le> a" "0 \<le> n"
  shows "drop (nat n) (window xs a b) = window xs (a + n) b"
proof -
  have "nat (b - a) - nat n = nat (b - (a + n))" "nat n + nat a = nat (a + n)"
    using assms by linarith+
  then show ?thesis by (simp only: window_def drop_take drop_drop)
qed

lemma growLast_path: "ss \<noteq> [] \<Longrightarrow> map s_path (growLast n ss) = map s_path ss"
  by (induction ss rule: rev_induct) (simp_all add: growLast_def)

lemma last_growLast [simp]: "last (growLast n ss) = (last ss)\<lparr>s_size := s_size (last ss) + n\<rparr>"
  by (simp add: growLast_def)

text \<open>The ring after a batch went to disk, before trimming.\<close>

definition flushedBy :: "flight \<Rightarrow> segment list \<Rightarrow> ring \<Rightarrow> ring" where
  "flushedBy f segs r =
     (let n = int (length (concat (f_batch f)))
      in r\<lparr>r_segs := growLast n segs, r_flushed := r_flushed r + n,
           r_pending := drop (length (f_batch f)) (r_pending r), r_queued := r_queued r - n\<rparr>)"

lemma flushedBy_ring:
  assumes ok: "ring_ok r h" and cur: "current f r"
    and ch: "chain (r_start r) segs (r_flushed r)" "segs \<noteq> []" "distinct (map s_path segs)"
  shows "ring_ok (flushedBy f segs r) h"
proof -
  let ?n = "int (length (concat (f_batch f)))"
  obtain more where more: "r_pending r = f_batch f @ more" using cur by (auto simp: current_def)
  have fl: "0 \<le> r_flushed r" using ok chain_le [of "r_start r" "r_segs r"] by (fastforce simp: ring_ok_def)
  have "concat more = drop (nat ?n) (concat (r_pending r))" by (simp add: more)
  also have "\<dots> = drop (nat ?n) (window h (r_flushed r) (r_received r))" using ok by (simp add: ring_ok_def)
  also have "\<dots> = window h (r_flushed r + ?n) (r_received r)" using fl by (intro drop_window) auto
  finally have "concat more = window h (r_flushed r + ?n) (r_received r)" .
  moreover have "?n \<le> r_received r - r_flushed r" using ring_ok_queued [OF ok] by (simp add: more)
  moreover have "chain (r_start r) (growLast ?n segs) (r_flushed r + ?n)" using ch by (intro chain_growLast) auto
  ultimately show ?thesis
    using ok cur ch more by (simp add: ring_ok_def flushedBy_def Let_def growLast_path current_def)
qed

lemma flushedBy_marks: "marks_ok r t \<Longrightarrow> marks_ok (flushedBy f segs r) t"
  by (simp add: marks_ok_def flushedBy_def Let_def)

lemma flushedBy_link:
  assumes lk: "link_ok s" and n: "concat (f_batch f) \<noteq> []" and segs: "segs \<noteq> []"
    and live: "\<And>g. g \<in> set segs \<Longrightarrow> s_path g \<notin> y_doomed s \<and> (\<exists>c. y_disk s (s_path g) = Some c \<and> s_size g \<le> int (length c))"
    and lst: "file = Some (s_path (last segs))" "y_disk s (s_path (last segs)) = Some c"
      "int (length c) = s_size (last segs) + int (length (concat (f_batch f)))"
  shows "link_ok (s\<lparr>y_phase := Idle, y_file := file, y_ring := flushedBy f segs (y_ring s)\<rparr>)" (is "link_ok ?s")
proof -
  let ?n = "int (length (concat (f_batch f)))"
  have r: "r_segs (y_ring ?s) = growLast ?n segs" "r_flushed (y_ring ?s) = r_flushed (y_ring s) + ?n"
    by (simp_all add: flushedBy_def Let_def)
  have "last_full ?s 0" using lst by (simp add: last_full_def flushedBy_def Let_def)
  then have "phase_ok ?s" by (simp add: phase_ok_def)
  moreover have "live_ok ?s"
    unfolding live_ok_def r
  proof
    fix g assume "g \<in> set (growLast ?n segs)"
    then consider "g \<in> set (butlast segs)" | "g = (last segs)\<lparr>s_size := s_size (last segs) + ?n\<rparr>"
      by (auto simp: growLast_def)
    then show "s_path g \<notin> y_doomed ?s \<and> (\<exists>c. y_disk ?s (s_path g) = Some c \<and> s_size g \<le> int (length c))"
    proof cases
      case 1
      with live [of g] show ?thesis by (auto dest: in_set_butlastD)
    next
      case 2
      with live [of "last segs"] segs lst show ?thesis by auto
    qed
  qed
  moreover have "fresh_ok ?s"
  proof (rule fresh_okI)
    fix p assume "p \<in> dom (y_disk ?s) \<union> y_doomed ?s"
    then have "p \<le> r_flushed (y_ring s)" using lk fresh_le [of s p] by (simp add: link_ok_def)
    moreover have "0 < ?n" using n by (cases "concat (f_batch f)") simp_all
    ultimately show "p < r_flushed (y_ring ?s)" unfolding r by linarith
  qed
  ultimately show ?thesis by (simp add: link_ok_def)
qed

lemma flushCommit_form:
  "flushCommit f fault seg file r =
     (if r_gen r \<noteq> f_gen f then (case seg of Some z \<Rightarrow> ([s_path z], None, r, False) | None \<Rightarrow> ([], file, r, False))
      else let segs = r_segs r @ (case seg of Some z \<Rightarrow> [z] | None \<Rightarrow> [])
           in if fault \<noteq> None then ([], None, r\<lparr>r_segs := segs\<rparr>, True)
              else let (drops, r') = trimLocked (f_now f) (flushedBy f segs r) in (drops, file, r', False))"
  by (cases seg) (simp_all add: flushCommit_def flushedBy_def Let_def)

lemma commit_done_ok:
  assumes ok: "sys_ok s" and open_: "\<not> r_closed (y_ring s)" and ph: "y_phase s = Written f None seg"
    and gen: "r_gen (y_ring s) = f_gen f"
    and segs: "segs = r_segs (y_ring s) @ (case seg of Some z \<Rightarrow> [z] | None \<Rightarrow> [])"
    and t: "trimLocked (f_now f) (flushedBy f segs (y_ring s)) = (ds, r)"
  shows "sys_ok (s\<lparr>y_phase := Idle, y_ring := r, y_doomed := y_doomed s \<union> set ds\<rparr>)"
proof -
  let ?r = "y_ring s" and ?f = "flushedBy f segs (y_ring s)"
  note rok = sys_okD [OF ok open_]
  have lk: "phase_ok s" "live_ok s" using rok(3) by (auto simp: link_ok_def)
  have fd: "concat (f_batch f) \<noteq> []" using ok ph by (simp add: sys_ok_def flight_ok_def flight_data_def)
  have cur: "current f ?r" using lk(1) ph gen by (simp add: phase_ok_def)
  have ch: "chain (r_start ?r) (r_segs ?r) (r_flushed ?r)" "distinct (map s_path (r_segs ?r))"
    using rok(1) by (auto simp: ring_ok_def)
  have chain: "chain (r_start ?r) segs (r_flushed ?r)" "segs \<noteq> []" "distinct (map s_path segs)"
    using lk(1) ph gen segs ch cur by (auto simp: phase_ok_def chain_append current_def split: option.splits)
  have live: "s_path g \<notin> y_doomed s \<and> (\<exists>c. y_disk s (s_path g) = Some c \<and> s_size g \<le> int (length c))"
    if "g \<in> set segs" for g
    using that lk ph gen segs by (auto simp: phase_ok_def live_ok_def split: option.splits)
  obtain c where lst: "y_file s = Some (s_path (last segs))" "y_disk s (s_path (last segs)) = Some c"
      "int (length c) = s_size (last segs) + int (length (concat (f_batch f)))"
    using lk(1) ph gen segs
    by (cases seg) (auto simp: phase_ok_def last_full_def batchBytes_def)
  let ?m = "s\<lparr>y_phase := Idle, y_file := y_file s, y_ring := ?f\<rparr>"
  have m: "link_ok ?m" by (rule flushedBy_link [OF rok(3) fd chain(2) live lst])
  have mr: "ring_ok ?f (y_hist s)" "marks_ok ?f (y_clock s)"
    using flushedBy_ring [OF rok(1) cur chain] flushedBy_marks [OF rok(2)] by auto
  show ?thesis
  proof (rule trimLocked_form [of "f_now f" ?f])
    fix k
    assume k: "trimLocked (f_now f) ?f = (map s_path (take k (r_segs ?f)), trimMarksLocked (dropped k ?f))"
      "k = 0 \<or> k < length (r_segs ?f)"
    have r: "r = trimMarksLocked (dropped k ?f)" "ds = map s_path (take k (r_segs ?f))" using k(1) t by auto
    have "link_ok (?m\<lparr>y_ring := r, y_doomed := y_doomed ?m \<union> set ds\<rparr>)"
      by (rule dropped_keeps [OF m]) (use k(2) mr r in \<open>auto simp: ring_ok_def\<close>)
    then have "link_ok (s\<lparr>y_phase := Idle, y_ring := r, y_doomed := y_doomed s \<union> set ds\<rparr>)"
      by (rule link_ok_cong) simp_all
    moreover have "ring_ok r (y_hist s)" "marks_ok r (y_clock s)"
      unfolding r using mr k(2) marks_ok_dropped [OF mr(2), of "y_clock s" k]
      by (auto intro!: ring_ok_trimMarks ring_ok_dropped)
    ultimately show ?thesis using ok by (intro sys_okI) (auto simp: sys_ok_def flight_ok_def)
  qed
qed

lemma commit_failed_ok:
  assumes ok: "sys_ok s" and open_: "\<not> r_closed (y_ring s)" and ph: "y_phase s = Written f fault seg"
    and gen: "r_gen (y_ring s) = f_gen f"
    and segs: "segs = r_segs (y_ring s) @ (case seg of Some z \<Rightarrow> [z] | None \<Rightarrow> [])"
  shows "sys_ok (s\<lparr>y_phase := Failing (f_gen f), y_file := None, y_ring := (y_ring s)\<lparr>r_segs := segs\<rparr>\<rparr>)"
    (is "sys_ok ?s")
proof -
  let ?r = "y_ring s"
  note rok = sys_okD [OF ok open_]
  have lk: "phase_ok s" "live_ok s" "fresh_ok s" using rok(3) by (auto simp: link_ok_def)
  have fd: "concat (f_batch f) \<noteq> []" using ok ph by (simp add: sys_ok_def flight_ok_def flight_data_def)
  have cur: "current f ?r" using lk(1) ph gen by (simp add: phase_ok_def)
  have "chain (r_start ?r) segs (r_flushed ?r)" "distinct (map s_path segs)"
    using lk(1) ph gen segs rok(1) cur
    by (auto simp: phase_ok_def ring_ok_def chain_append current_def split: option.splits)
  then have "ring_ok (y_ring ?s) (y_hist s)" using rok(1) cur by (auto simp: ring_ok_def current_def)
  moreover have "marks_ok (y_ring ?s) (y_clock s)" using rok(2) by (simp add: marks_ok_def)
  moreover have "phase_ok ?s"
    using current_pending [OF cur rok(1) fd] cur gen by (simp add: phase_ok_def current_def)
  moreover have "live_ok ?s"
    using lk ph gen segs by (auto simp: phase_ok_def live_ok_def split: option.splits)
  moreover have "fresh_ok ?s" using lk(3) gen by (auto simp: fresh_ok_def busy_def)
  ultimately show ?thesis using ok by (intro sys_okI) (auto simp: sys_ok_def flight_ok_def link_ok_def)
qed

lemma step_commit_ok:
  assumes ok: "sys_ok s" and ph: "y_phase s = Written f fault seg"
    and c: "flushCommit f fault seg (y_file s) (y_ring s) = (ds, file, r, bad)"
  shows "sys_ok (s\<lparr>y_phase := (if bad then Failing (f_gen f) else Idle), y_file := file,
                   y_ring := r, y_doomed := y_doomed s \<union> set ds\<rparr>)" (is "sys_ok ?s")
proof (cases "r_closed (y_ring s)")
  case True
  have "r_received r = r_received (y_ring s) \<and> r_closed r = r_closed (y_ring s)"
    using c trimLocked_frame
    by (auto simp: flushCommit_form Let_def flushedBy_def split: if_splits option.splits prod.splits)
  with ok True show ?thesis by (simp add: sys_ok_def flight_ok_def)
next
  case False
  show ?thesis
  proof (cases "r_gen (y_ring s) = f_gen f")
    case stale: False
    note rok = sys_okD [OF ok False]
    have lk: "phase_ok s" "live_ok s" "fresh_ok s" using rok(3) by (auto simp: link_ok_def)
    have r: "r = y_ring s" "bad = False" "\<forall>p \<in> set ds. p = f_first f" "f_first f < r_flushed (y_ring s)"
      "r_segs (y_ring s) = []"
      using c stale lk(1) ph by (auto simp: flushCommit_form phase_ok_def split: option.splits)
    have "phase_ok ?s" "live_ok ?s" using r by (simp_all add: phase_ok_def last_full_def live_ok_def)
    moreover have "fresh_ok ?s" using lk(3) r stale ph by (auto simp: fresh_ok_def busy_def)
    ultimately show ?thesis using ok rok r by (simp add: sys_ok_def flight_ok_def)
  next
    case gen: True
    define segs where "segs = r_segs (y_ring s) @ (case seg of Some z \<Rightarrow> [z] | None \<Rightarrow> [])"
    show ?thesis
    proof (cases fault)
      case None
      obtain drops r' where t: "trimLocked (f_now f) (flushedBy f segs (y_ring s)) = (drops, r')" by force
      with c gen None have "ds = drops" "r = r'" "file = y_file s" "\<not> bad"
        by (auto simp: flushCommit_form Let_def segs_def)
      with commit_done_ok [OF ok False _ gen segs_def t] ph None show ?thesis by simp
    next
      case (Some k)
      with c gen have "ds = []" "r = (y_ring s)\<lparr>r_segs := segs\<rparr>" "file = None" "bad"
        by (auto simp: flushCommit_form Let_def segs_def)
      with commit_failed_ok [OF ok False ph gen segs_def] show ?thesis by simp
    qed
  qed
qed

subsection \<open>The invariant holds in every reachable state\<close>

lemma ring_step_ok: "sys_ok s \<Longrightarrow> ring_step span s t \<Longrightarrow> sys_ok t"
  by (erule ring_step.cases)
     (simp_all add: step_append_ok step_close_ok step_take_ok step_create_fails_ok step_write_ok
       step_commit_ok step_fail_ok step_window_ok step_room_ok step_stop_ok step_exit_ok step_remove_ok)

interpretation rm: machine "\<lambda>s. \<exists>now > 0. s = sys_init now" "ring_step span" sys_ok for span
  by unfold_locales (auto simp: sys_ok_init intro: ring_step_ok)

end
