(* ===== verification/RingReads.thy ===== *)
theory RingReads
  imports RingSafety
begin

text \<open>
  What the ring promises to the code that uses it: the bytes it holds are the stream's own,
  a reader gets them exactly whatever the other goroutines do meanwhile, no removal touches
  a file in use, and the time index answers with positions that are held.
\<close>

subsection \<open>Copying out of memory\<close>

lemma copyPending_eq:
  "0 \<le> skip \<Longrightarrow> copyPending room cs skip = take room (drop (nat skip) (concat cs))"
proof (induction room cs skip rule: copyPending.induct)
  case (2 room chunk rest skip)
  show ?case
  proof (cases "skip \<ge> int (length chunk)")
    case True
    then have n: "nat skip - length chunk = nat (skip - int (length chunk))" "length chunk \<le> nat skip"
      by linarith+
    have "copyPending room (chunk # rest) skip = take room (drop (nat (skip - int (length chunk))) (concat rest))"
      using True "2.IH"(1) by simp
    with n show ?thesis by simp
  next
    case False
    then have k: "nat skip \<le> length chunk" by linarith
    show ?thesis
    proof (cases "length (take room (drop (nat skip) chunk)) = room")
      case True
      with False k show ?thesis by (simp add: Let_def)
    next
      case short: False
      with False k "2.IH"(2) [OF False refl short] show ?thesis by (simp add: Let_def)
    qed
  qed
qed simp

lemma ring_ok_pos: "ring_ok r h \<Longrightarrow> 0 \<le> r_start r \<and> r_start r \<le> r_flushed r \<and> r_flushed r \<le> r_received r"
  using chain_le by (auto simp: ring_ok_def)

lemma take_drop_window_min:
  assumes "0 \<le> a" "a \<le> x" "x \<le> b" "b \<le> int (length xs)"
  shows "take n (drop (nat (x - a)) (window xs a b)) = window xs x (min b (x + int n))"
proof -
  have "drop (nat (x - a)) (window xs a b) = window xs x b"
    using assms drop_window [of a "x - a" xs b] by simp
  moreover have "take n (window xs x b) = window xs x (min b (x + int n))"
    using assms by (auto simp: window_def min_def nat_diff_distrib intro!: arg_cong2 [of _ _ _ _ take])
  ultimately show ?thesis by simp
qed

lemma pending_window:
  assumes "ring_ok r h" "r_flushed r \<le> x" "x \<le> r_received r"
  shows "copyPending n (r_pending r) (x - r_flushed r) = window h x (min (r_received r) (x + int n))"
proof -
  have "0 \<le> r_flushed r" using ring_ok_pos [OF assms(1)] by linarith
  with assms take_drop_window_min [of "r_flushed r" x "r_received r" h n] show ?thesis
    by (simp add: copyPending_eq ring_ok_def)
qed

subsection \<open>The ring holds a window of the stream\<close>

definition held :: "sys \<Rightarrow> bytes" where
  "held s = concat (map (\<lambda>g. take (nat (s_size g)) (the (y_disk s (s_path g)))) (r_segs (y_ring s))) @
     concat (r_pending (y_ring s))"

lemma chain_held:
  assumes "chain a ss b" "0 \<le> a" "b \<le> int (length h)" "disk_ok disk h"
    "\<forall>g \<in> set ss. \<exists>c. disk (s_path g) = Some c \<and> s_size g \<le> int (length c)"
  shows "concat (map (\<lambda>g. take (nat (s_size g)) (the (disk (s_path g)))) ss) = window h a b"
  using assms
proof (induction ss arbitrary: a)
  case (Cons g ss)
  then obtain c where c: "disk (s_path g) = Some c" "s_size g \<le> int (length c)" by auto
  have g: "s_path g = a" "0 \<le> s_size g" "chain (a + s_size g) ss b" using Cons.prems by auto
  have "c = window h a (a + int (length c))" "a + int (length c) \<le> int (length h)"
    using c g Cons.prems(4) by (auto simp: disk_ok_def)
  then have "take (nat (s_size g)) c = window h a (a + s_size g)"
    using take_drop_window_min [of a a "a + int (length c)" h "nat (s_size g)"] Cons.prems(2) g c(2)
    by simp
  moreover have "window h a (a + s_size g) @ window h (a + s_size g) b = window h a b"
    using Cons.prems(2) g chain_le [OF g(3)] by (simp add: window_split)
  ultimately show ?case using Cons c g by simp
qed simp

lemma held_window:
  assumes "sys_ok s" "\<not> r_closed (y_ring s)"
  shows "held s = window (y_hist s) (r_start (y_ring s)) (r_received (y_ring s))"
proof -
  note ok = sys_okD [OF assms]
  have p: "0 \<le> r_start (y_ring s)" "r_start (y_ring s) \<le> r_flushed (y_ring s)"
    "r_flushed (y_ring s) \<le> r_received (y_ring s)" using ring_ok_pos [OF ok(1)] by auto
  have "concat (map (\<lambda>g. take (nat (s_size g)) (the (y_disk s (s_path g)))) (r_segs (y_ring s)))
      = window (y_hist s) (r_start (y_ring s)) (r_flushed (y_ring s))"
    using assms(1) ok p by (intro chain_held) (auto simp: ring_ok_def sys_ok_def link_ok_def live_ok_def)
  with ok(1) p show ?thesis by (simp add: held_def ring_ok_def window_split)
qed

lemma reachable_ok: "0 < t0 \<Longrightarrow> (ring_step span)\<^sup>*\<^sup>* (sys_init t0) s \<Longrightarrow> sys_ok s"
  using rm.steps_inv sys_ok_init by blast

subsection \<open>Readers\<close>

lemma ring_step_hist: "ring_step span s t \<Longrightarrow> \<exists>c. y_hist t = y_hist s @ c"
  by (erule ring_step.cases) auto

definition reader_ok :: "reader \<Rightarrow> bool" where
  "reader_ok d \<longleftrightarrow> sys_ok (d_sys d) \<and> 0 \<le> d_begin d \<and> d_begin d \<le> d_from d \<and>
     (d_from d = d_begin d \<or> d_from d \<le> int (length (y_hist (d_sys d)))) \<and>
     d_out d = window (y_hist (d_sys d)) (d_begin d) (d_from d) \<and>
     (d_from d \<le> d_to d \<or> d_from d = d_begin d) \<and>
     (\<forall>g. d_seg d = Some g \<longrightarrow> s_path g = s_first g \<and> s_first g \<le> d_from d)"

lemma reader_others:
  assumes "reader_ok d" "ring_step span (d_sys d) s"
  shows "reader_ok (d\<lparr>d_sys := s\<rparr>)"
proof -
  obtain c where c: "y_hist s = y_hist (d_sys d) @ c" using ring_step_hist [OF assms(2)] by blast
  have "sys_ok s" using assms ring_step_ok by (auto simp: reader_ok_def)
  with assms(1) c show ?thesis by (auto simp: reader_ok_def window_append_old)
qed

lemma reader_takes:
  assumes ok: "reader_ok d" and got: "got = window (y_hist (d_sys d)) (d_from d) (d_from d + int (length got))"
    and n: "n \<le> length got" and to: "d_from d + int n \<le> d_to d \<or> n = 0"
    and hist: "n = 0 \<or> d_from d + int (length got) \<le> int (length (y_hist (d_sys d)))"
  shows "reader_ok (d\<lparr>d_from := d_from d + int n, d_out := d_out d @ take n got\<rparr>)"
proof (cases "n = 0")
  case True
  with ok show ?thesis by (auto simp: reader_ok_def)
next
  case False
  let ?h = "y_hist (d_sys d)"
  have b: "0 \<le> d_begin d" "d_begin d \<le> d_from d" using ok by (auto simp: reader_ok_def)
  have "take n got = window ?h (d_from d) (d_from d + int n)"
    using take_drop_window_min [of "d_from d" "d_from d" "d_from d + int (length got)" ?h n] b n False hist got
    by (simp add: min_def)
  moreover have "window ?h (d_begin d) (d_from d) @ window ?h (d_from d) (d_from d + int n) =
      window ?h (d_begin d) (d_from d + int n)" using b by (simp add: window_split)
  ultimately show ?thesis using ok n False hist to by (auto simp: reader_ok_def)
qed

lemma window_len:
  "0 \<le> a \<Longrightarrow> a \<le> int (length h) \<Longrightarrow> 0 \<le> n \<Longrightarrow>
   window h a (min (int (length h)) (a + n)) = window h a (a + int (length (window h a (min (int (length h)) (a + n)))))"
  by (cases "a + n \<le> int (length h)") (auto simp: length_window min_def)

lemma reader_file:
  assumes ok: "reader_ok d" and s: "d_seg d = Some g" "y_disk (d_sys d) (s_path g) = Some file"
    and got: "got = take k (drop (nat (d_from d - s_first g)) file)"
    and k: "int k \<le> min (s_first g + s_size g) (d_to d) - d_from d" and n: "n \<le> length got"
  shows "reader_ok (d\<lparr>d_from := d_from d + int n, d_out := d_out d @ take n got\<rparr>)"
proof (cases "n = 0")
  case True
  with ok show ?thesis by (auto simp: reader_ok_def)
next
  case False
  let ?h = "y_hist (d_sys d)" and ?a = "s_first g" and ?e = "s_first g + int (length file)"
  have p: "s_path g = ?a" "?a \<le> d_from d" using ok s by (auto simp: reader_ok_def)
  have f: "file = window ?h ?a ?e" "0 \<le> ?a" "?e \<le> int (length ?h)"
    using ok s p by (auto simp: reader_ok_def sys_ok_def disk_ok_def)
  have "got \<noteq> []" using n False by auto
  then have x: "d_from d \<le> ?e" using got p by (cases "d_from d \<le> ?e") auto
  have w: "got = window ?h (d_from d) (min ?e (d_from d + int k))"
    using take_drop_window_min [of ?a "d_from d" ?e ?h k] f p x got by simp
  then have l: "int (length got) = min ?e (d_from d + int k) - d_from d"
    using f p x by (simp add: length_window)
  show ?thesis
    by (rule reader_takes [OF ok _ n]) (use w l f k n in auto)
qed

lemma reader_step_ok: "reader_ok d \<Longrightarrow> reader_step span d e \<Longrightarrow> reader_ok e"
proof (erule reader_step.cases, goal_cases)
  case (1 d' s)
  then show ?case using reader_others by simp
next
  case (2 d' r got buf n)
  let ?h = "y_hist (d_sys d)" and ?m = "nat (min (int buf) (d_to d - d_from d))"
  have r: "ring_ok r ?h" using 2 sys_okD by (auto simp: reader_ok_def)
  have len: "r_received r = int (length ?h)" using r by (simp add: ring_ok_def)
  have w: "got = window ?h (d_from d) (min (r_received r) (d_from d + int ?m))"
    using 2 pending_window [OF r, of "d_from d" ?m] by simp
  have "0 \<le> d_from d" using 2 by (auto simp: reader_ok_def)
  then have l: "int (length got) = min (r_received r) (d_from d + int ?m) - d_from d"
    using w 2 len by (simp add: length_window)
  have "reader_ok (d\<lparr>d_from := d_from d + int n, d_out := d_out d @ take n got\<rparr>)"
    by (rule reader_takes) (use 2 w l len in auto)
  with 2 show ?case by simp
next
  case (3 d' r s)
  then have r: "ring_ok r (y_hist (d_sys d))" using sys_okD by (auto simp: reader_ok_def)
  have "s \<in> set (r_segs r) \<and> holds_pos (d_from d) s" using 3 by (auto simp: find_Some_iff)
  then have "s_path s = s_first s" "s_first s \<le> d_from d"
    using r chain_mem [of "r_start r" "r_segs r" "r_flushed r" s] by (auto simp: ring_ok_def holds_pos_def)
  with 3 show ?case by (auto simp: reader_ok_def)
next
  case (4 d' g fl got k n)
  then show ?case using reader_file [of d g fl got k n] by simp
next
  case (5 d' s)
  then show ?case by (auto simp: reader_ok_def)
qed

interpretation rd: machine "\<lambda>d. \<exists>s from to. sys_ok s \<and> 0 \<le> from \<and> d = reader_at s from to" "reader_step span" reader_ok for span
  by unfold_locales (fastforce simp: reader_ok_def reader_at_def, rule reader_step_ok)

subsection \<open>Copy ends, and copies exactly\<close>

definition sound :: "writer \<Rightarrow> bool" where
  "sound w \<longleftrightarrow> (\<forall>out p. \<not> snd (w out p))"

lemma io_writer_cases:
  assumes "io_writer w"
  obtains (failed) n where "w out p = (n, True)" "n \<le> length p" "\<not> sound w"
  | (taken) "w out p = (length p, False)"
proof -
  have "fst (w out p) \<le> length p" "\<not> snd (w out p) \<longrightarrow> fst (w out p) = length p"
    using assms by (auto simp: io_writer_def)
  moreover have "snd (w out p) \<longrightarrow> \<not> sound w" by (auto simp: sound_def)
  ultimately show thesis using that by (cases "w out p") auto
qed

lemma copyFileLoop_step:
  assumes "tot < len" "min (int buf) (len - tot) = want" "take (nat want) (drop (nat (off + tot)) fl) = got"
    "(if got = [] then (0, False) else w out got) = (n, werr)"
  shows "copyFileLoop w buf fl off len tot out =
     (if werr then Some (out @ take n got, tot + int n, Some ErrWrite)
      else if int (length got) < want \<and> tot + int n < len then Some (out @ take n got, tot + int n, Some ErrGone)
      else copyFileLoop w buf fl off len (tot + int n) (out @ take n got))"
  by (subst copyFileLoop.simps) (simp only: assms Let_def if_True prod.case)

lemma copyFileLoop_ends:
  assumes buf: "0 < buf" and w: "io_writer w" and "0 \<le> off" "0 \<le> tot"
  shows "\<exists>m err. copyFileLoop w buf fl off len tot out =
      Some (out @ take m (drop (nat (off + tot)) fl), tot + int m, err) \<and>
      m \<le> length (drop (nat (off + tot)) fl) \<and> (m = 0 \<or> tot + int m \<le> len) \<and>
      (err = None \<longrightarrow> tot + int m = max tot len) \<and>
      (err = Some ErrGone \<longrightarrow> int (length fl) < off + len) \<and> (err = Some ErrWrite \<longrightarrow> \<not> sound w)"
  using assms(4)
proof (induction "nat (len - tot)" arbitrary: tot out rule: less_induct)
  case (less tot out)
  show ?case
  proof (cases "tot < len")
    case False
    then show ?thesis by (intro exI [of _ 0] exI [of _ None]) (simp add: copyFileLoop.simps [of w buf fl off len tot out])
  next
    case True
    let ?rest = "drop (nat (off + tot)) fl"
    define want where "want = min (int buf) (len - tot)"
    define got where "got = take (nat want) ?rest"
    have want: "0 < want" "want \<le> len - tot" using buf True by (auto simp: want_def)
    have gl: "length got \<le> nat want" "length got \<le> length ?rest" by (auto simp: got_def)
    have tg: "take m got = take m ?rest" if "m \<le> length got" for m
      using that by (simp add: got_def min_def split: if_splits)
    have eof: "int (length got) < want \<Longrightarrow> got = ?rest \<and> int (length fl) < off + len"
      using want assms(3) less.prems by (auto simp: got_def min_def split: if_splits)
    note step = copyFileLoop_step [OF True want_def [symmetric] got_def [symmetric]]
    show ?thesis
    proof (cases "got = []")
      case empty: True
      then have "copyFileLoop w buf fl off len tot out = Some (out, tot, Some ErrGone)"
        using want eof by (subst step [of w out 0 False]) (simp_all add: True)
      with eof empty want show ?thesis by (intro exI [of _ 0] exI [of _ "Some ErrGone"]) auto
    next
      case some: False
      from w show ?thesis
      proof (cases rule: io_writer_cases [where out = out and p = got])
        case (failed n)
        then have "copyFileLoop w buf fl off len tot out = Some (out @ take n got, tot + int n, Some ErrWrite)"
          using some by (subst step [of w out n True]) simp_all
        with failed gl want tg [of n] show ?thesis by (intro exI [of _ n] exI [of _ "Some ErrWrite"]) auto
      next
        case taken
        let ?n = "length got"
        have n0: "0 < ?n" using some by simp
        show ?thesis
        proof (cases "int ?n < want \<and> tot + int ?n < len")
          case short: True
          then have "copyFileLoop w buf fl off len tot out = Some (out @ got, tot + int ?n, Some ErrGone)"
            using some taken by (subst step [of w out ?n False]) auto
          with short eof gl tg [of ?n] show ?thesis by (intro exI [of _ ?n] exI [of _ "Some ErrGone"]) auto
        next
          case full: False
          then have eq: "copyFileLoop w buf fl off len tot out = copyFileLoop w buf fl off len (tot + int ?n) (out @ got)"
            using some taken by (subst step [of w out ?n False]) auto
          have dec: "nat (len - (tot + int ?n)) < nat (len - tot)" using n0 True by linarith
          have "nat (off + (tot + int ?n)) = ?n + nat (off + tot)" using assms(3) less.prems by linarith
          then have dr: "drop (nat (off + (tot + int ?n))) fl = drop ?n ?rest" by simp
          have "0 \<le> tot + int ?n" using less.prems by simp
          from less.hyps [OF dec this, of "out @ got", unfolded dr] obtain m err where m:
            "copyFileLoop w buf fl off len (tot + int ?n) (out @ got) =
               Some ((out @ got) @ take m (drop ?n ?rest), tot + int ?n + int m, err)"
            "m \<le> length (drop ?n ?rest)" "m = 0 \<or> tot + int ?n + int m \<le> len"
            "err = None \<longrightarrow> tot + int ?n + int m = max (tot + int ?n) len"
            "err = Some ErrGone \<longrightarrow> int (length fl) < off + len" "err = Some ErrWrite \<longrightarrow> \<not> sound w"
            by blast
          have "got @ take m (drop ?n ?rest) = take (?n + m) ?rest" using tg [of ?n] by (simp add: take_add)
          moreover have le: "tot + int ?n \<le> len" using gl want by linarith
          moreover have "err = None \<longrightarrow> tot + int (?n + m) = max tot len" using m(4) le True by auto
          ultimately show ?thesis
            using eq m(1,2,3,5,6) gl(2) n0 by (intro exI [of _ "?n + m"] exI [of _ err]) auto
        qed
      qed
    qed
  qed
qed

lemma copyLoop_step:
  assumes "from < to" "\<not> (r_closed r \<or> from < r_start r \<or> from \<ge> r_received r)"
  shows "from \<ge> r_flushed r \<Longrightarrow>
     copyPending (nat (min (int buf) (to - from))) (r_pending r) (from - r_flushed r) = got \<Longrightarrow> got \<noteq> [] \<Longrightarrow>
     w out got = (n, werr) \<Longrightarrow>
     copyLoop w buf r disk from to out =
       (if werr then Some (out @ take n got, Some ErrWrite)
        else copyLoop w buf r disk (from + int n) to (out @ take n got))"
    and "from < r_flushed r \<Longrightarrow> find (holds_pos from) (r_segs r) = Some g \<Longrightarrow>
     copyFile w buf disk (s_path g) (from - s_first g) (min (s_first g + s_size g) to - from) out = Some (out', k, err) \<Longrightarrow>
     copyLoop w buf r disk from to out =
       (case err of Some e \<Rightarrow> Some (out', Some e) | None \<Rightarrow> copyLoop w buf r disk (from + k) to out')"
  by (subst copyLoop.simps, simp add: assms Let_def)+

lemma copyLoop_ends:
  assumes ok: "sys_ok s" and open_: "\<not> r_closed (y_ring s)" and buf: "0 < buf" and w: "io_writer w" and "0 \<le> from"
  shows "\<exists>e err. copyLoop w buf (y_ring s) (y_disk s) from to out = Some (out @ window (y_hist s) from e, err) \<and>
     from \<le> e \<and> e \<le> max from to \<and> (err = None \<longrightarrow> e = max from to) \<and>
     (err = Some ErrGone \<longrightarrow> from < r_start (y_ring s) \<or> (e = max from (r_received (y_ring s)) \<and> r_received (y_ring s) < to)) \<and>
     (err = Some ErrWrite \<longrightarrow> \<not> sound w) \<and> (from < to \<and> from < r_start (y_ring s) \<longrightarrow> err = Some ErrGone \<and> e = from)"
  using assms(5)
proof (induction "nat (to - from)" arbitrary: "from" out rule: less_induct)
  case (less "from" out)
  let ?r = "y_ring s" and ?h = "y_hist s"
  note rok = sys_okD [OF ok open_]
  have pos: "0 \<le> r_start ?r" "r_start ?r \<le> r_flushed ?r" "r_flushed ?r \<le> r_received ?r"
    and len: "r_received ?r = int (length ?h)" using ring_ok_pos [OF rok(1)] rok(1) by (auto simp: ring_ok_def)
  have go: "\<exists>e err. copyLoop w buf ?r (y_disk s) from to out = Some (out @ window ?h from e, err) \<and>
     from \<le> e \<and> e \<le> max from to \<and> (err = None \<longrightarrow> e = max from to) \<and>
     (err = Some ErrGone \<longrightarrow> from < r_start ?r \<or> (e = max from (r_received ?r) \<and> r_received ?r < to)) \<and>
     (err = Some ErrWrite \<longrightarrow> \<not> sound w) \<and> (from < to \<and> from < r_start ?r \<longrightarrow> err = Some ErrGone \<and> e = from)"
    if "copyLoop w buf ?r (y_disk s) from to out = copyLoop w buf ?r (y_disk s) m to (out @ window ?h from m)"
      "from < m" "m \<le> to" "r_start ?r \<le> from" "m \<le> r_received ?r" for m
  proof -
    have "nat (to - m) < nat (to - from)" "0 \<le> m" using that less.prems by linarith+
    from less.hyps [OF this, of "out @ window ?h from m"] obtain e err where e:
      "copyLoop w buf ?r (y_disk s) m to (out @ window ?h from m) = Some ((out @ window ?h from m) @ window ?h m e, err)"
      "m \<le> e" "e \<le> max m to" "err = None \<longrightarrow> e = max m to"
      "err = Some ErrGone \<longrightarrow> m < r_start ?r \<or> (e = max m (r_received ?r) \<and> r_received ?r < to)"
      "err = Some ErrWrite \<longrightarrow> \<not> sound w" by blast
    moreover have "window ?h from m @ window ?h m e = window ?h from e"
      using that e(2) less.prems by (simp add: window_split)
    ultimately show ?thesis using that by (intro exI [of _ e] exI [of _ err]) auto
  qed
  show ?case
  proof (cases "from < to \<and> \<not> (from < r_start ?r \<or> from \<ge> r_received ?r)")
    case False
    then show ?thesis
      by (intro exI [of _ "from"] exI [of _ "if from < to then Some ErrGone else None"])
         (auto simp: copyLoop.simps [of w buf ?r "y_disk s" "from" to out])
  next
    case True
    then have c: "from < to" "\<not> (r_closed ?r \<or> from < r_start ?r \<or> from \<ge> r_received ?r)" using open_ by auto
    show ?thesis
    proof (cases "from \<ge> r_flushed ?r")
      case mem: True
      define got where "got = copyPending (nat (min (int buf) (to - from))) (r_pending ?r) (from - r_flushed ?r)"
      define x where "x = min (r_received ?r) (from + int (nat (min (int buf) (to - from))))"
      have g: "got = window ?h from x" unfolding got_def x_def using mem True by (intro pending_window [OF rok(1)]) auto
      have m: "from < x" "x \<le> to" "x \<le> r_received ?r" using buf True by (auto simp: x_def)
      have gl: "int (length got) = x - from" using g m less.prems len by (simp add: length_window)
      then have ne: "got \<noteq> []" using m by auto
      have part: "take n got = window ?h from (from + int n)" if "n \<le> length got" for n
      proof -
        have "min x (from + int n) = from + int n" using that gl by linarith
        with take_drop_window_min [of "from" "from" x ?h n] less.prems m len g show ?thesis by simp
      qed
      note step = copyLoop_step(1) [OF c mem got_def [symmetric] ne, where w = w and out = out and disk = "y_disk s"]
      from w show ?thesis
      proof (cases rule: io_writer_cases [where out = out and p = got])
        case (failed n)
        with step [OF failed(1)] part [of n] c m gl show ?thesis
          by (intro exI [of _ "from + int n"] exI [of _ "Some ErrWrite"]) auto
      next
        case taken
        show ?thesis
          by (rule go [of x]) (use step [OF taken] part [of "length got"] g m True gl in auto)
      qed
    next
      case disk: False
      then have f: "from < r_flushed ?r" by simp
      obtain g where g: "find (holds_pos from) (r_segs ?r) = Some g" "g \<in> set (r_segs ?r)" "holds_pos from g"
        using chain_find [of "r_start ?r" "r_segs ?r" "r_flushed ?r" "from"] rok(1) True f by (auto simp: ring_ok_def)
      have gp: "s_path g = s_first g" "s_first g + s_size g \<le> r_flushed ?r" "r_start ?r \<le> s_first g"
        using chain_mem [of "r_start ?r" "r_segs ?r" "r_flushed ?r" g] rok(1) g by (auto simp: ring_ok_def)
      obtain fl where fl: "y_disk s (s_path g) = Some fl" "s_size g \<le> int (length fl)"
        using rok(3) g(2) by (auto simp: link_ok_def live_ok_def)
      let ?off = "from - s_first g" and ?l = "min (s_first g + s_size g) to - from"
      have off: "0 \<le> ?off" "0 < ?l" using g(3) c by (auto simp: holds_pos_def)
      obtain m err where m:
        "copyFileLoop w buf fl ?off ?l 0 out = Some (out @ take m (drop (nat (?off + 0)) fl), 0 + int m, err)"
        "m = 0 \<or> 0 + int m \<le> ?l" "err = None \<longrightarrow> 0 + int m = max 0 ?l" "m \<le> length (drop (nat (?off + 0)) fl)"
        "err = Some ErrGone \<longrightarrow> int (length fl) < ?off + ?l" "err = Some ErrWrite \<longrightarrow> \<not> sound w"
        using copyFileLoop_ends [OF buf w off(1), of 0 fl ?l out] by blast
      have fw: "fl = window ?h (s_first g) (s_first g + int (length fl))" "s_first g + int (length fl) \<le> int (length ?h)"
        using ok fl gp by (auto simp: sys_ok_def disk_ok_def)
      have "min (s_first g + int (length fl)) (from + int m) = from + int m"
        using m(4) off fl(2) g(3) unfolding holds_pos_def by simp linarith
      with take_drop_window_min [of "s_first g" "from" "s_first g + int (length fl)" ?h m] fw gp pos off g(3) fl
      have part: "take m (drop (nat ?off) fl) = window ?h from (from + int m)"
        by (simp add: holds_pos_def)
      have cf: "copyFile w buf (y_disk s) (s_path g) ?off ?l out = Some (out @ window ?h from (from + int m), int m, err)"
        using fl m(1) part by (simp add: copyFile_def)
      note step = copyLoop_step(2) [OF c f g(1) cf]
      show ?thesis
      proof (cases err)
        case None
        show ?thesis by (rule go [of "from + int m"]) (use None step m off c gp pos True in auto)
      next
        case (Some x)
        have "x = ErrWrite" using Some m(5) fl(2) by (cases x) auto
        with Some step m off c show ?thesis by (intro exI [of _ "from + int m"] exI [of _ "Some x"]) auto
      qed
    qed
  qed
qed

subsection \<open>The time index\<close>

lemma marks_nth:
  assumes "marks_ok r clock" "i < j" "j < length (r_marks r)"
  shows "m_pos (r_marks r ! i) < m_pos (r_marks r ! j)" "m_at (r_marks r ! i) < m_at (r_marks r ! j)"
  using assms sorted_wrt_nth_less unfolding marks_ok_def by fastforce+

lemma marks_mem:
  assumes "marks_ok r clock" "i < length (r_marks r)"
  shows "r_start r \<le> m_pos (r_marks r ! i)" "m_pos (r_marks r ! i) < r_received r"
    "m_at (r_marks r ! i) \<le> r_lastAt r"
  using assms nth_mem [of i "r_marks r"] unfolding marks_ok_def by fastforce+

lemma At_lo:
  assumes "marks_ok r clock"
  shows "go_search (length (r_marks r)) (\<lambda>i. m_pos (r_marks r ! i) \<ge> r_start r) = 0"
proof -
  let ?f = "\<lambda>i. m_pos (r_marks r ! i) \<ge> r_start r"
  have mono: "?f b" if "a \<le> b" "b < length (r_marks r)" "?f a" for a b
    using marks_mem(1) [OF assms that(2)] .
  show ?thesis
  proof (rule ccontr)
    assume n: "go_search (length (r_marks r)) ?f \<noteq> 0"
    then have "0 < length (r_marks r)" using go_search_least(1) [of "length (r_marks r)" ?f] mono by fastforce
    then show False using n go_search_least(2) [of "length (r_marks r)" ?f 0] mono marks_mem(1) [OF assms] by blast
  qed
qed

text \<open>The index of the mark before \<open>t\<close>, found by two binary searches, is the one a scan would find.\<close>

lemma At_k:
  assumes ok: "marks_ok r clock" and k_def: "k = go_search (length (r_marks r)) (\<lambda>i. m_at (r_marks r ! i) > t)"
  shows "k \<le> length (r_marks r)" "i < k \<Longrightarrow> m_at (r_marks r ! i) \<le> t"
    "k \<le> i \<Longrightarrow> i < length (r_marks r) \<Longrightarrow> t < m_at (r_marks r ! i)"
proof -
  have mono: "m_at (r_marks r ! b) > t" if "a \<le> b" "b < length (r_marks r)" "m_at (r_marks r ! a) > t" for a b
    using that marks_nth(2) [OF ok, of a b] by (cases "a = b") auto
  let ?f = "\<lambda>i. m_at (r_marks r ! i) > t"
  note least = go_search_least [where f = ?f and n = "length (r_marks r)", folded k_def]
  show "k \<le> length (r_marks r)" by (rule least(1)) (rule mono)
  show "m_at (r_marks r ! i) \<le> t" if "i < k"
  proof -
    have "\<not> ?f i" by (rule least(2) [OF mono that])
    then show ?thesis by simp
  qed
  show "t < m_at (r_marks r ! i)" if "k \<le> i" "i < length (r_marks r)"
    by (rule least(3) [OF mono that])
qed

lemma interpolate:
  assumes "0 \<le> d" "0 \<le> x" "x \<le> s" "0 < s"
  shows "0 \<le> quot (d * x) s" "quot (d * x) s \<le> d"
proof -
  have "d * x \<le> d * s" using assms by (simp add: mult_left_mono)
  then have "d * x div s \<le> d * s div s" using assms by (intro zdiv_mono1) auto
  then show "0 \<le> quot (d * x) s" "quot (d * x) s \<le> d"
    using assms by (simp_all add: pos_imp_zdiv_nonneg_iff)
qed

lemma time_sub_mono: "a \<le> b \<Longrightarrow> time_sub a c \<le> time_sub b c"
  by (auto simp: time_sub_def)

lemma time_sub_pos: "c < a \<Longrightarrow> 0 < time_sub a c"
  by (auto simp: time_sub_def)

lemma At_range:
  assumes ok: "marks_ok r clock" and "r_start r \<le> r_received r" and at: "At r t = Some p"
  obtains a where "a < length (r_marks r)" "m_at (r_marks r ! a) \<le> t" "m_pos (r_marks r ! a) \<le> p" "p \<le> r_received r"
    "a + 1 < length (r_marks r) \<Longrightarrow> t < m_at (r_marks r ! (a + 1)) \<and> (t < r_lastAt r \<longrightarrow> p \<le> m_pos (r_marks r ! (a + 1)))"
    "\<not> t < r_lastAt r \<Longrightarrow> p = r_received r"
proof -
  let ?ms = "r_marks r"
  define k where "k = go_search (length ?ms) (\<lambda>i. m_at (?ms ! i) > t)"
  note K = At_k [OF ok k_def]
  define a where "a = k - 1"
  define tom where "tom = (if a + 1 < length ?ms then ?ms ! (a + 1) else \<lparr>m_at = r_lastAt r, m_pos = r_received r\<rparr>)"
  define span where "span = time_sub (m_at tom) (m_at (?ms ! a))"
  have form: "At r t = (if r_closed r \<or> k = 0 then None
      else if \<not> t < r_lastAt r then Some (r_received r) else if span \<le> 0 then Some (m_pos (?ms ! a))
      else Some (m_pos (?ms ! a) + quot ((m_pos tom - m_pos (?ms ! a)) * time_sub t (m_at (?ms ! a))) span))"
    unfolding At_def Let_def At_lo [OF ok] add_0 minus_nat.diff_0 k_def [symmetric] a_def [symmetric]
      tom_def [symmetric] span_def [symmetric]
    by simp
  then have k0: "k \<noteq> 0" using at by (auto split: if_splits)
  then have a: "a < length ?ms" "m_at (?ms ! a) \<le> t" using K(1) K(2) [of a] by (auto simp: a_def)
  have nx: "t < m_at (?ms ! (a + 1))" if "a + 1 < length ?ms" using that K(3) [of "a + 1"] k0 by (simp add: a_def)
  have rng: "m_pos (?ms ! a) \<le> m_pos tom" "m_pos tom \<le> r_received r"
    using marks_nth(1) [OF ok, of a "a + 1"] marks_mem [OF ok a(1)] marks_mem(2) [OF ok, of "a + 1"]
    by (auto simp: tom_def)
  show thesis
  proof (cases "t < r_lastAt r")
    case False
    then have "p = r_received r" using at form by (simp split: if_splits)
    with False a nx marks_mem [OF ok a(1)] show thesis by (intro that [of a]) auto
  next
    case True
    have tt: "t < m_at tom" using True nx by (auto simp: tom_def)
    have s: "0 < span" using tt a(2) by (simp add: span_def time_sub_pos)
    have x: "0 \<le> time_sub t (m_at (?ms ! a))" "time_sub t (m_at (?ms ! a)) \<le> span"
      using a(2) tt time_sub_mono [of t "m_at tom"] by (auto simp: span_def time_sub_nonneg)
    have "p = m_pos (?ms ! a) + quot ((m_pos tom - m_pos (?ms ! a)) * time_sub t (m_at (?ms ! a))) span"
      using form at True s by (simp split: if_splits)
    with interpolate [of "m_pos tom - m_pos (?ms ! a)", OF _ x s] rng
    have p: "m_pos (?ms ! a) \<le> p" "p \<le> m_pos tom" by auto
    with True rng a nx show thesis by (intro that [of a]) (auto simp: tom_def)
  qed
qed

lemma At_none:
  assumes ok: "marks_ok r clock" and "\<not> r_closed r"
  shows "At r t = None \<longleftrightarrow> (\<forall>m \<in> set (r_marks r). t < m_at m)"
proof -
  define k where "k = go_search (length (r_marks r)) (\<lambda>i. m_at (r_marks r ! i) > t)"
  note K = At_k [OF ok k_def]
  have "At r t = None \<longleftrightarrow> k = 0"
    using assms(2) unfolding At_def Let_def At_lo [OF ok] by (simp add: k_def)
  also have "\<dots> \<longleftrightarrow> (\<forall>i < length (r_marks r). t < m_at (r_marks r ! i))"
    using K(1) K(2) [of 0] K(3) by (cases k) fastforce+
  finally show ?thesis by (simp add: all_set_conv_all_nth)
qed

end
