(* ===== verification/RingProps.thy ===== *)
theory RingProps
  imports RingReads
begin

text \<open>
  The properties of the timeshift ring, stated over the runs of the goroutines
  (\<open>ring_step\<close>, \<open>reader_step\<close>) and over the source's methods, with a short run of the model
  on which each is applied.
\<close>

subsection \<open>A run of the model\<close>

definition demo_ring :: ring where
  "demo_ring = \<lparr>r_gen = 0, r_start = 0, r_flushed = 3, r_received = 4, r_pending = [[4]], r_queued = 1,
     r_segs = [\<lparr>s_path = 0, s_first = 0, s_size = 3, s_opened = 2\<rparr>],
     r_marks = [\<lparr>m_at = 2, m_pos = 0\<rparr>], r_lastMark = 2, r_lastAt = 3, r_window = 0,
     r_low = False, r_off = False, r_closed = False\<rparr>"

definition demo :: sys where
  "demo = \<lparr>y_ring = demo_ring, y_disk = [0 \<mapsto> [1, 2, 3]], y_file = Some 0, y_phase = Idle,
     y_doomed = {}, y_clock = 3, y_hist = [1, 2, 3, 4]\<rparr>"

lemma demo_run: "(ring_step Minute)\<^sup>*\<^sup>* (sys_init 1) demo"
proof -
  define f where "f = \<lparr>f_gen = 0, f_batch = [[1, 2, 3 :: byte]], f_first = 0, f_now = 2, f_rotate = True\<rparr>"
  define seg where "seg = \<lparr>s_path = 0, s_first = 0, s_size = 0, s_opened = 2\<rparr>"
  note defs = sys_init_def Open_def Append_def time_sub_def flushTake_def flushWrite_def batchBytes_def
    appendFile_def flushCommit_def growLast_def trimLocked_def trimLoop.simps trimMarksLocked_def
    f_def seg_def Let_def
  let ?r1 = "snd (Append 2 [1, 2, 3] Open)"
  let ?s1 = "(sys_init 1)\<lparr>y_ring := ?r1, y_doomed := {}, y_clock := 2, y_hist := [1, 2, 3]\<rparr>"
  let ?s2 = "?s1\<lparr>y_phase := Taken f\<rparr>"
  let ?s3 = "?s2\<lparr>y_phase := Written f None (Some seg), y_file := Some 0, y_disk := [0 \<mapsto> [1, 2, 3]]\<rparr>"
  let ?s4 = "?s3\<lparr>y_phase := Idle, y_ring := demo_ring\<lparr>r_received := 3, r_pending := [], r_queued := 0, r_lastAt := 2\<rparr>\<rparr>"
  have "ring_step Minute (sys_init 1) ?s1"
    using ring_step.step_append [of "sys_init 1" 2 "[1, 2, 3]" "[]" ?r1 Minute] by (simp add: defs)
  moreover have "ring_step Minute ?s1 ?s2"
    using ring_step.step_take [of ?s1 2 Minute f] by (simp add: defs)
  moreover have "ring_step Minute ?s2 ?s3"
    using ring_step.step_write [of ?s2 f None "Some seg" "Some 0" "[0 \<mapsto> [1, 2, 3]]" Minute] by (simp add: defs)
  moreover have "ring_step Minute ?s3 ?s4"
    using ring_step.step_commit [of ?s3 f None "Some seg" "[]" "Some 0" "y_ring ?s4" False Minute]
    by (simp add: defs demo_ring_def)
  moreover have "ring_step Minute ?s4 demo"
    using ring_step.step_append [of ?s4 3 "[4]" "[]" demo_ring Minute] by (simp add: defs demo_def demo_ring_def)
  ultimately show ?thesis by (meson converse_rtranclp_into_rtranclp rtranclp.rtrancl_refl)
qed

subsection \<open>What the ring holds\<close>

text \<open>
  C1. In every state the goroutines can reach before the ring is closed, the files of the
  index (each up to its recorded size) and then the chunks still in memory are, together,
  exactly the appended stream from \<^verbatim>\<open>start\<close> to \<^verbatim>\<open>received\<close>: nothing missing, doubled or out of
  order, whatever was reset, failed, trimmed or removed on the way. What waits in memory is
  never above \<^verbatim>\<open>pendingCap\<close>.
\<close>

theorem ring_holds_window:
  assumes "0 < t0" "(ring_step span)\<^sup>*\<^sup>* (sys_init t0) s" "\<not> r_closed (y_ring s)"
  shows "held s = window (y_hist s) (r_start (y_ring s)) (r_received (y_ring s)) \<and>
    0 \<le> r_start (y_ring s) \<and> r_start (y_ring s) \<le> r_flushed (y_ring s) \<and>
    r_flushed (y_ring s) \<le> r_received (y_ring s) \<and> r_received (y_ring s) = int (length (y_hist s)) \<and>
    r_queued (y_ring s) = int (length (concat (r_pending (y_ring s)))) \<and> r_queued (y_ring s) \<le> pendingCap"
proof -
  have ok: "sys_ok s" using assms reachable_ok by blast
  with assms(3) have r: "ring_ok (y_ring s) (y_hist s)" by (simp add: sys_okD)
  then have "r_queued (y_ring s) = r_received (y_ring s) - r_flushed (y_ring s)"
    "r_queued (y_ring s) \<le> pendingCap" "r_received (y_ring s) = int (length (y_hist s))"
    by (auto simp: ring_ok_def)
  with held_window [OF ok assms(3)] ring_ok_pos [OF r] ring_ok_queued [OF r] show ?thesis
    by (metis (no_types, lifting))
qed

theorem ring_holds_window_witness:
  "held demo = window (y_hist demo) 0 4 \<and> held demo = [1, 2, 3, 4] \<and> r_received (y_ring demo) = int (length (y_hist demo))"
proof -
  have "\<not> r_closed (y_ring demo)" by (simp add: demo_def demo_ring_def)
  with ring_holds_window [of 1 Minute demo] demo_run have
    "held demo = window (y_hist demo) (r_start (y_ring demo)) (r_received (y_ring demo)) \<and>
     r_received (y_ring demo) = int (length (y_hist demo))" by auto
  then show ?thesis by (simp add: held_def demo_def demo_ring_def)
qed

text \<open>
  C2. A reader that copies while the tuner appends, the flusher writes, fails, trims or resets
  and files are removed under it: whatever the interleaving, the bytes it has handed out so
  far are exactly the stream from where it began to where it stands.
\<close>

theorem reader_exact:
  assumes "0 < t0" "(ring_step span)\<^sup>*\<^sup>* (sys_init t0) s" "0 \<le> from"
    "(reader_step span)\<^sup>*\<^sup>* (reader_at s from to) d"
  shows "d_out d = window (y_hist (d_sys d)) from (d_from d) \<and> from \<le> d_from d \<and> d_from d \<le> max from to"
proof -
  have "reader_ok (reader_at s from to)"
    using assms reachable_ok [of t0 span s] by (auto intro: rd.init_inv)
  then have "reader_ok d" using assms(4) rd.steps_inv by blast
  moreover have "d_begin d = from \<and> d_to d = to"
    using assms(4) by (induction rule: rtranclp_induct) (auto simp: reader_at_def elim: reader_step.cases)
  ultimately show ?thesis by (auto simp: reader_ok_def)
qed

theorem reader_exact_witness:
  "\<exists>d. (reader_step Minute)\<^sup>*\<^sup>* (reader_at demo 1 4) d \<and> d_out d = window (y_hist (d_sys d)) 1 (d_from d) \<and>
     d_from d = 3 \<and> d_out d = [2, 3]"
proof -
  let ?g = "\<lparr>s_path = 0, s_first = 0, s_size = 3, s_opened = 2\<rparr>" and ?d = "reader_at demo 1 4"
  let ?d1 = "?d\<lparr>d_seg := Some ?g\<rparr>"
  let ?d2 = "?d1\<lparr>d_from := 3, d_out := [2, 3]\<rparr>"
  have 1: "reader_step Minute ?d ?d1"
    by (rule reader_step.pick_file) (auto simp: reader_at_def demo_def demo_ring_def holds_pos_def)
  have 2: "reader_step Minute ?d1 ?d2"
    using reader_step.read_file [of ?d1 ?g "[1, 2, 3]" "[2, 3]" 2 2 Minute] by (simp add: reader_at_def demo_def)
  have run: "(reader_step Minute)\<^sup>*\<^sup>* ?d ?d2" using 1 2 by (meson r_into_rtranclp rtranclp.rtrancl_into_rtrancl)
  have "d_out ?d2 = window (y_hist (d_sys ?d2)) 1 (d_from ?d2)"
    using reader_exact [OF _ demo_run _ run] by simp
  with run show ?thesis by (intro exI [of _ ?d2]) simp
qed

text \<open>
  C3. \<^verbatim>\<open>CopyBuffer\<close> on a ring nobody touches meanwhile ends, for any buffer that is not empty
  and any writer that keeps the \<^verbatim>\<open>io.Writer\<close> contract, and what it wrote is the stream from
  \<open>from\<close> to some position \<open>e\<close>. Without an error \<open>e\<close> is \<open>to\<close>; \<^verbatim>\<open>ErrGone\<close> comes only when
  \<open>from\<close> was dropped (and then nothing is written) or after everything received was written;
  the writer's error comes only from the writer.
\<close>

theorem CopyBuffer_exact:
  assumes "0 < t0" "(ring_step span)\<^sup>*\<^sup>* (sys_init t0) s" "\<not> r_closed (y_ring s)"
    "0 < buf" "io_writer w" "0 \<le> from"
  shows "\<exists>e err. CopyBuffer w buf (y_ring s) (y_disk s) from to = Some (window (y_hist s) from e, err) \<and>
     from \<le> e \<and> e \<le> max from to \<and> (err = None \<longrightarrow> e = max from to) \<and>
     (err = Some ErrGone \<longrightarrow> from < r_start (y_ring s) \<or> (e = max from (r_received (y_ring s)) \<and> r_received (y_ring s) < to)) \<and>
     (err = Some ErrWrite \<longrightarrow> (\<exists>out p. snd (w out p))) \<and>
     (from < to \<and> from < r_start (y_ring s) \<longrightarrow> err = Some ErrGone \<and> e = from)"
proof -
  have "sys_ok s" using assms reachable_ok by blast
  from copyLoop_ends [OF this assms(3-6), of to "[]"] assms(3) show ?thesis
    by (simp add: CopyBuffer_def sound_def)
qed

theorem CopyBuffer_exact_witness:
  "CopyBuffer all_writer 2 (y_ring demo) (y_disk demo) 1 4 = Some ([2, 3, 4], None)"
proof -
  have "\<not> r_closed (y_ring demo)" by (simp add: demo_def demo_ring_def)
  moreover have "io_writer all_writer" by (simp add: io_writer_def all_writer_def)
  ultimately have "\<exists>e err. CopyBuffer all_writer 2 (y_ring demo) (y_disk demo) 1 4 = Some (window (y_hist demo) 1 e, err) \<and>
      (err = None \<longrightarrow> e = max 1 4) \<and>
      (err = Some ErrGone \<longrightarrow> 1 < r_start (y_ring demo) \<or> (e = max 1 (r_received (y_ring demo)) \<and> r_received (y_ring demo) < 4)) \<and>
      (err = Some ErrWrite \<longrightarrow> (\<exists>out p. snd (all_writer out p)))"
    using CopyBuffer_exact [of 1 Minute demo 2 all_writer 1 4] demo_run by fastforce
  then obtain e err where e: "CopyBuffer all_writer 2 (y_ring demo) (y_disk demo) 1 4 = Some (window (y_hist demo) 1 e, err)"
      "err = None \<longrightarrow> e = max 1 4" "err = Some ErrGone \<longrightarrow> False" "err = Some ErrWrite \<longrightarrow> False"
    by (auto simp: all_writer_def demo_def demo_ring_def)
  then have "err = None" by (metis option.exhaust ring_error.exhaust)
  with e show ?thesis by (simp add: window_def demo_def numeral_eq_Suc)
qed



subsection \<open>The time index\<close>

text \<open>
  C5. \<^verbatim>\<open>At\<close> finds by two binary searches what a scan of the index would: it refuses exactly the
  times before every mark still held; otherwise its position is held, lies between the marks
  around \<open>t\<close>, and is the end of the stream for a time at or past the newest byte.
\<close>

theorem At_held:
  assumes "0 < t0" "(ring_step span)\<^sup>*\<^sup>* (sys_init t0) s" "\<not> r_closed (y_ring s)"
  shows "case At (y_ring s) t of
      None \<Rightarrow> \<forall>m \<in> set (r_marks (y_ring s)). t < m_at m
    | Some p \<Rightarrow> r_start (y_ring s) \<le> p \<and> p \<le> r_received (y_ring s) \<and>
        (\<exists>m \<in> set (r_marks (y_ring s)). m_at m \<le> t \<and> m_pos m \<le> p) \<and>
        (t < r_lastAt (y_ring s) \<longrightarrow> (\<forall>m \<in> set (r_marks (y_ring s)). t < m_at m \<longrightarrow> p \<le> m_pos m)) \<and>
        (r_lastAt (y_ring s) \<le> t \<longrightarrow> p = r_received (y_ring s))"
proof -
  have ok: "sys_ok s" using assms reachable_ok by blast
  let ?r = "y_ring s"
  have m: "marks_ok ?r (y_clock s)" "r_start ?r \<le> r_received ?r"
    using sys_okD [OF ok assms(3)] ring_ok_pos by fastforce+
  show ?thesis
  proof (cases "At ?r t")
    case None
    then have "\<forall>m \<in> set (r_marks ?r). t < m_at m" using At_none [OF m(1) assms(3)] by simp
    with None show ?thesis by simp
  next
    case (Some p)
    from At_range [OF m Some] obtain a where a: "a < length (r_marks ?r)" "m_at (r_marks ?r ! a) \<le> t"
      "m_pos (r_marks ?r ! a) \<le> p" "p \<le> r_received ?r"
      "a + 1 < length (r_marks ?r) \<Longrightarrow> t < r_lastAt ?r \<longrightarrow> p \<le> m_pos (r_marks ?r ! (a + 1))"
      "\<not> t < r_lastAt ?r \<Longrightarrow> p = r_received ?r" by blast
    have "p \<le> m_pos (r_marks ?r ! i)" if i: "i < length (r_marks ?r)" "t < m_at (r_marks ?r ! i)" "t < r_lastAt ?r" for i
    proof -
      have "a < i" using i(1,2) a(1,2) marks_nth(2) [OF m(1), of i a] by (cases i a rule: linorder_cases) auto
      then have "p \<le> m_pos (r_marks ?r ! (a + 1))" "a + 1 = i \<or> a + 1 < i" using a(5) i by auto
      then show ?thesis using marks_nth(1) [OF m(1), of "a + 1" i] i(1) by fastforce
    qed
    then have "\<forall>x \<in> set (r_marks ?r). t < r_lastAt ?r \<longrightarrow> t < m_at x \<longrightarrow> p \<le> m_pos x"
      by (auto simp: in_set_conv_nth)
    moreover have "\<exists>x \<in> set (r_marks ?r). m_at x \<le> t \<and> m_pos x \<le> p" using a(1-3) nth_mem by blast
    ultimately show ?thesis using Some a(3,4,6) marks_mem(1) [OF m(1) a(1)] by auto
  qed
qed

theorem At_held_witness: "At demo_ring 3 = Some 4 \<and> r_start demo_ring \<le> 4 \<and> At demo_ring 1 = None \<and> 1 < (2 :: int)"
proof -
  have c: "\<not> r_closed (y_ring demo)" "y_ring demo = demo_ring" by (simp_all add: demo_def demo_ring_def)
  have v: "At demo_ring 3 = Some 4" "At demo_ring 1 = None"
    by (simp_all add: At_def demo_ring_def go_search_def search_from.simps Let_def)
  have "r_start demo_ring \<le> 4" using At_held [OF _ demo_run c(1), of 3] v(1) c(2) by simp
  moreover have "1 < (2 :: int)" using At_held [OF _ demo_run c(1), of 1] v(2) c(2) by (simp add: demo_ring_def)
  ultimately show ?thesis using v by simp
qed

text \<open>
  \<^verbatim>\<open>Position\<close> gives a held position at or after \<open>t\<close> that is the first of the index, so a
  time before the ring's start gives the oldest indexed position; it fails only when every
  mark is before \<open>t\<close>.
\<close>

theorem Position_first:
  assumes "0 < t0" "(ring_step span)\<^sup>*\<^sup>* (sys_init t0) s" "\<not> r_closed (y_ring s)"
  shows "case Position (y_ring s) t of
      None \<Rightarrow> \<forall>m \<in> set (r_marks (y_ring s)). m_at m < t
    | Some (p, tm) \<Rightarrow> t \<le> tm \<and> r_start (y_ring s) \<le> p \<and> p < r_received (y_ring s) \<and>
        (\<forall>m \<in> set (r_marks (y_ring s)). t \<le> m_at m \<longrightarrow> p \<le> m_pos m)"
proof -
  have ok: "sys_ok s" using assms reachable_ok by blast
  let ?r = "y_ring s" and ?q = "\<lambda>m. \<not> (m_pos m < r_start (y_ring s) \<or> m_at m < t)"
  note m = sys_okD(2) [OF ok assms(3)]
  show ?thesis
  proof (cases "find ?q (r_marks ?r)")
    case None
    then have "\<forall>m \<in> set (r_marks ?r). m_at m < t" using m by (fastforce simp: find_None_iff marks_ok_def)
    with None assms(3) show ?thesis by (simp add: Position_def)
  next
    case (Some x)
    then obtain i where i: "i < length (r_marks ?r)" "?q (r_marks ?r ! i)" "x = r_marks ?r ! i"
        "\<forall>j < i. \<not> ?q (r_marks ?r ! j)" by (auto simp: find_Some_iff)
    have "m_pos x \<le> m_pos (r_marks ?r ! j)" if "j < length (r_marks ?r)" "t \<le> m_at (r_marks ?r ! j)" for j
    proof -
      have "?q (r_marks ?r ! j)" using marks_mem(1) [OF m that(1)] that(2) by auto
      then have "i \<le> j" using i(4) not_less by blast
      then show ?thesis using marks_nth(1) [OF m, of i j] that(1) i(3) by (cases "i = j") auto
    qed
    then show ?thesis
      using Some i marks_mem [OF m i(1)] assms(3) by (auto simp: Position_def in_set_conv_nth)
  qed
qed

theorem Position_first_witness: "Position demo_ring 1 = Some (0, 2) \<and> (1 :: int) \<le> 2 \<and> r_start demo_ring \<le> 0"
proof -
  have c: "\<not> r_closed (y_ring demo)" "y_ring demo = demo_ring" by (simp_all add: demo_def demo_ring_def)
  have "Position demo_ring 1 = Some (0, 2)" by (simp add: Position_def demo_ring_def)
  with Position_first [OF _ demo_run c(1), of 1] c(2) show ?thesis by simp
qed

subsection \<open>Giving up files\<close>

lemma trimLoop_done:
  "trimLoop now r = (ps, r') \<Longrightarrow>
   \<not> (1 < length (r_segs r') \<and> 0 < r_window r' \<and> time_sub now (s_opened (r_segs r' ! 1)) \<ge> r_window r')"
proof (induction now r arbitrary: ps rule: trimLoop.induct)
  case (1 now r)
  let ?c = "1 < length (r_segs r) \<and> 0 < r_window r \<and> time_sub now (s_opened (r_segs r ! 1)) \<ge> r_window r"
  show ?case
  proof (cases ?c)
    case False
    then have "trimLoop now r = ([], r)" by (subst trimLoop.simps) (simp only: False if_False)
    with "1.prems" False show ?thesis by auto
  next
    case True
    then have d: "dropOldestLocked r = Some (s_path (hd (r_segs r)), dropped 1 r)" by (simp add: dropOldest_dropped)
    obtain qs r1 where q: "trimLoop now (dropped 1 r) = (qs, r1)" by force
    then have "r' = r1" using "1.prems" d True by (subst (asm) trimLoop.simps) simp
    with "1.IH" [OF True d refl] q show ?thesis by blast
  qed
qed

text \<open>
  Trimming drops the \<open>k\<close> oldest files and only files that ended at least a window ago: the
  file after each dropped one was opened no later than \<open>now - window\<close>. It drops every such
  file, so all but one of the files kept were opened within the window, and never the file
  being written.
\<close>

theorem trim_window:
  assumes "trimLocked now r = (ds, r')"
  shows "\<exists>k. ds = map s_path (take k (r_segs r)) \<and> r_segs r' = drop k (r_segs r) \<and> (k = 0 \<or> k < length (r_segs r)) \<and>
     (\<forall>i < k. 0 < r_window r \<and> r_window r \<le> time_sub now (s_opened (r_segs r ! Suc i))) \<and>
     (0 < r_window r \<and> 1 < length (r_segs r') \<longrightarrow> time_sub now (s_opened (r_segs r' ! 1)) < r_window r) \<and>
     (\<forall>m \<in> set (r_marks r'). m \<in> set (r_marks r))"
proof -
  obtain ps r1 where t: "trimLoop now r = (ps, r1)" by force
  then have r': "ds = ps" "r' = trimMarksLocked r1" using assms by (simp_all add: trimLocked_def)
  obtain k where k: "trimLoop now r = (map s_path (take k (r_segs r)), dropped k r)" "k = 0 \<or> k < length (r_segs r)"
    "\<And>i. i < k \<Longrightarrow> 0 < r_window r \<and> time_sub now (s_opened (r_segs r ! Suc i)) \<ge> r_window r"
    using trimLoop_form by blast
  have r1: "ps = map s_path (take k (r_segs r))" "r1 = dropped k r" using t k(1) by auto
  have "\<not> (1 < length (r_segs r') \<and> 0 < r_window r \<and> time_sub now (s_opened (r_segs r' ! 1)) \<ge> r_window r)"
    using trimLoop_done [OF t] r' r1 by (simp add: dropped_def)
  then show ?thesis
    using k(2,3) r' r1
    by (intro exI [of _ k]) (auto simp: dropped_def trimMarksLocked_def dest: set_dropWhileD)
qed

definition demo_old :: ring where
  "demo_old = demo_ring\<lparr>r_window := 10, r_flushed := 4, r_pending := [], r_queued := 0,
     r_segs := [\<lparr>s_path = 0, s_first = 0, s_size = 3, s_opened = 2\<rparr>, \<lparr>s_path = 3, s_first = 3, s_size = 1, s_opened = 3\<rparr>]\<rparr>"

text \<open>
  C6. \<^verbatim>\<open>checkRoom\<close> under its floor by \<open>- room\<close> bytes: the ring either gives up its oldest files,
  never the one being written, worth at least what was asked, and goes on; or all files but
  the last would not have been enough, and then it is emptied and paused. It goes on after a
  pause only with \<^verbatim>\<open>resumeRoom\<close> to spare.
\<close>

theorem checkRoom_frees:
  assumes "checkRoom room r = (ds, r')"
  shows "(r_low r' \<noteq> r_low r \<or> ds \<noteq> [] \<longrightarrow> room \<noteq> None) \<and>
    (\<not> r_low r \<and> \<not> r_low r' \<longrightarrow>
       (\<exists>k. ds = map s_path (take k (r_segs r)) \<and> r_segs r' = drop k (r_segs r) \<and> (k = 0 \<or> k < length (r_segs r)) \<and>
          (\<forall>x. room = Some x \<longrightarrow> - x \<le> sum_list (map s_size (take k (r_segs r)))))) \<and>
    (\<not> r_low r \<and> r_low r' \<longrightarrow>
       ds = map s_path (r_segs r) \<and> r_segs r' = [] \<and> r_pending r' = [] \<and> r_start r' = r_received r \<and>
       r_received r' = r_received r \<and>
       (r_segs r \<noteq> [] \<longrightarrow> (\<exists>x. room = Some x \<and> sum_list (map s_size (butlast (r_segs r))) < - x))) \<and>
    (r_low r \<and> \<not> r_low r' \<longrightarrow> (\<exists>x. room = Some x \<and> resumeRoom \<le> x) \<and> r' = r\<lparr>r_low := False\<rparr>)"
  using assms
proof (cases rule: checkRoom_form)
  case same
  then have "\<forall>x. room = Some x \<longrightarrow> - x \<le> 0" if "\<not> r_low r" using that by fastforce
  with same show ?thesis by (auto intro!: exI [of _ 0])
next
  case (resumed k)
  then show ?thesis by auto
next
  case (freed need k)
  then show ?thesis by (auto simp: dropped_def trimMarksLocked_def intro!: exI [of _ k])
next
  case (stopped need)
  then show ?thesis by (auto simp: emptied_def)
qed

theorem checkRoom_frees_witness:
  "\<exists>ds r'. checkRoom (Some (- 2)) demo_old = (ds, r') \<and> ds = [0] \<and> \<not> r_low r' \<and>
     (\<exists>k. ds = map s_path (take k (r_segs demo_old)) \<and> - (- 2) \<le> sum_list (map s_size (take k (r_segs demo_old))))"
proof -
  obtain ds r' where t: "checkRoom (Some (- 2)) demo_old = (ds, r')" by force
  then have d: "ds = [0]" "\<not> r_low r'" "\<not> r_low demo_old"
    by (auto simp: demo_old_def demo_ring_def checkRoom_def roomLoop.simps dropOldestLocked_def trimMarksLocked_def)
  have "\<exists>k. ds = map s_path (take k (r_segs demo_old)) \<and> - (- 2) \<le> sum_list (map s_size (take k (r_segs demo_old)))"
    using checkRoom_frees [OF t] d by blast
  with t d show ?thesis by (intro exI [of _ ds] exI [of _ r']) simp
qed

end
