(* ===== verification/TsHealth.thy ===== *)
theory TsHealth
  imports Prelude Complex_Main
begin

text \<open>
  The transport-stream damage counter of \<^verbatim>\<open>server/internal/tshealth/counter.go\<close>: an
  \<^verbatim>\<open>io.Writer\<close> that finds packet sync, counts continuity errors, transport errors, lost sync
  and clock gaps per PID, and sums them up. \<^verbatim>\<open>pidStat\<close> and \<^verbatim>\<open>Counter\<close> are records; the
  counters are naturals (Go \<^verbatim>\<open>int\<close>s that only count up), the clock keeps its 64 bits. The map
  of PIDs is a map, and \<^verbatim>\<open>Summary\<close> takes the order in which Go's \<^verbatim>\<open>range\<close> happens to visit
  it. The compaction of the buffer's spare capacity in \<^verbatim>\<open>Write\<close> keeps its contents and has no
  counterpart here.
\<close>

named_theorems ts_forms \<open>the counter's steps in closed form\<close>

subsection \<open>State\<close>

type_synonym pid = "16 word"

abbreviation gapTicks :: "64 word" where "gapTicks \<equiv> 2 * 90000"
abbreviation maxGapTicks :: "64 word" where "maxGapTicks \<equiv> 10 * 60 * 90000"
abbreviation (input) PacketLen :: nat where "PacketLen \<equiv> 188"
abbreviation syncByte :: byte where "syncByte \<equiv> 0x47"
abbreviation nullPID :: pid where "nullPID \<equiv> 0x1FFF"

record pidStat =
  packets :: nat
  ccErr :: nat
  tei :: nat
  have_cc :: bool
  cc :: nat
  dup :: bool
  pcrs :: nat
  pcr :: "64 word"
  gaps :: nat
  lost :: "64 word"
  lostAt :: nat

definition noStat :: pidStat where
  "noStat = \<lparr>packets = 0, ccErr = 0, tei = 0, have_cc = False, cc = 0, dup = False, pcrs = 0, pcr = 0,
     gaps = 0, lost = 0, lostAt = 0\<rparr>"

record Counter =
  buf :: bytes
  synced :: bool
  notedLoss :: bool
  syncLoss :: nat
  pids :: "pid \<rightharpoonup> pidStat"
  ccErrs :: nat

definition newCounter :: Counter where
  "newCounter = \<lparr>buf = [], synced = False, notedLoss = False, syncLoss = 0, pids = Map.empty, ccErrs = 0\<rparr>"

subsection \<open>One packet\<close>

definition clock :: "nat \<Rightarrow> bytes \<Rightarrow> bool \<Rightarrow> pidStat \<Rightarrow> pidStat" where
  "clock errs b disc st =
     (let now = push_bit 25 (ucast (b ! 0)) OR push_bit 17 (ucast (b ! 1)) OR push_bit 9 (ucast (b ! 2))
                OR push_bit 1 (ucast (b ! 3)) OR drop_bit 7 (ucast (b ! 4)) :: 64 word;
          ahead = (now - pcr st) AND (push_bit 33 1 - 1);
          st1 = (if pcrs st > 0 \<and> \<not> disc \<and> errs > lostAt st \<and> ahead > gapTicks \<and> ahead \<le> maxGapTicks
                 then st\<lparr>gaps := gaps st + 1, lost := lost st + ahead\<rparr> else st)
      in st1\<lparr>pcrs := pcrs st1 + 1, pcr := now, lostAt := errs\<rparr>)"

definition pktPid :: "bytes \<Rightarrow> pid" where
  "pktPid pkt = push_bit 8 (ucast (pkt ! 1 AND 0x1f)) OR ucast (pkt ! 2)"

definition afc :: "bytes \<Rightarrow> byte" where
  "afc pkt = drop_bit 4 (pkt ! 3) AND 3"

definition payload :: "bytes \<Rightarrow> bool" where
  "payload pkt \<longleftrightarrow> afc pkt AND 1 = 1"

definition disc :: "bytes \<Rightarrow> bool" where
  "disc pkt \<longleftrightarrow> afc pkt AND 2 = 2 \<and> pkt ! 4 > 0 \<and> pkt ! 5 AND 0x80 \<noteq> 0"

definition damaged :: "bytes \<Rightarrow> bool" where
  "damaged pkt \<longleftrightarrow> pkt ! 1 AND 0x80 \<noteq> 0"

definition hasClock :: "bytes \<Rightarrow> bool" where
  "hasClock pkt \<longleftrightarrow> afc pkt AND 2 = 2 \<and> pkt ! 4 > 0 \<and> pkt ! 4 \<ge> 7 \<and> pkt ! 5 AND 0x10 \<noteq> 0 \<and> \<not> damaged pkt"

text \<open>
  The continuity check at the end of \<^verbatim>\<open>packet\<close>: the PID's new state, and whether the packet is
  a continuity error.
\<close>

definition continuity :: "bytes \<Rightarrow> pidStat \<Rightarrow> pidStat \<times> bool" where
  "continuity pkt st =
     (if \<not> payload pkt then (if disc pkt then st\<lparr>have_cc := False, dup := False\<rparr> else st, False)
      else
        let n = unat (pkt ! 3 AND 0x0f) in
        if disc pkt \<or> \<not> have_cc st then (st\<lparr>have_cc := True, cc := n, dup := False\<rparr>, False)
        else if n = cc st then
          (if dup st then (st\<lparr>ccErr := ccErr st + 1\<rparr>, True) else (st\<lparr>dup := True\<rparr>, False))
        else if n \<noteq> (cc st + 1) AND 0x0f then (st\<lparr>ccErr := ccErr st + 1, cc := n, dup := False\<rparr>, True)
        else (st\<lparr>cc := n, dup := False\<rparr>, False))"

definition packetStat :: "nat \<Rightarrow> bytes \<Rightarrow> pidStat \<Rightarrow> pidStat \<times> bool" where
  "packetStat errs pkt st =
     (let st1 = st\<lparr>packets := packets st + 1\<rparr>;
          st2 = (if damaged pkt then st1\<lparr>tei := tei st1 + 1\<rparr> else st1)
      in if pktPid pkt = nullPID then (st2, False)
         else
           let st3 = (if hasClock pkt then clock errs (take 5 (drop 6 pkt)) (disc pkt) st2 else st2)
           in continuity pkt st3)"

definition packet :: "bytes \<Rightarrow> Counter \<Rightarrow> Counter" where
  "packet pkt c =
     (let pid = pktPid pkt;
          st = (case pids c pid of None \<Rightarrow> noStat | Some st \<Rightarrow> st);
          (st', bad) = packetStat (ccErrs c) pkt st
      in c\<lparr>pids := (pids c)(pid \<mapsto> st'), ccErrs := ccErrs c + (if bad then 1 else 0)\<rparr>)"

subsection \<open>Framing\<close>

definition locks :: "bytes \<Rightarrow> nat \<Rightarrow> bool" where
  "locks b i \<longleftrightarrow> b ! i = syncByte \<and> b ! (i + PacketLen) = syncByte \<and> b ! (i + PacketLen * 2) = syncByte"

definition acquire :: "Counter \<Rightarrow> bool \<times> Counter" where
  "acquire c =
     (let tail = PacketLen * 2 in
      if length (buf c) < tail + 1 then (False, c)
      else
        let limit = length (buf c) - tail in
        case find (locks (buf c)) [0..<limit] of
          Some i \<Rightarrow>
            (let c1 = (if i > 0 \<and> \<not> notedLoss c then c\<lparr>syncLoss := syncLoss c + 1\<rparr> else c)
             in (True, c1\<lparr>notedLoss := False, buf := drop i (buf c1), synced := True\<rparr>))
        | None \<Rightarrow> (False, c\<lparr>buf := drop limit (buf c)\<rparr>))"

definition noteLoss :: "Counter \<Rightarrow> Counter" where
  "noteLoss c =
     (if \<not> notedLoss c then c\<lparr>syncLoss := syncLoss c + 1, notedLoss := True\<rparr> else c)\<lparr>synced := False\<rparr>"

lemma find_upt_Some:
  "find P [0..<n] = Some i \<longleftrightarrow> i < n \<and> P i \<and> (\<forall>j<i. \<not> P j)"
  by (auto simp: find_Some_iff)

lemma acquire_locked:
  assumes "acquire c = (True, c')"
  obtains i where "find (locks (buf c)) [0..<length (buf c) - 376] = Some i" "buf c' = drop i (buf c)" "synced c'"
    "PacketLen \<le> length (buf c')" "hd (buf c') = syncByte"
proof -
  have len: "376 < length (buf c)" using assms by (auto simp: acquire_def Let_def split: if_splits)
  with assms obtain i where i: "find (locks (buf c)) [0..<length (buf c) - 376] = Some i"
    by (auto simp: acquire_def Let_def split: option.splits)
  with assms len have c': "buf c' = drop i (buf c)" "synced c'" by (auto simp: acquire_def Let_def)
  have "i < length (buf c) - 376" "buf c ! i = syncByte" using i by (auto simp: find_upt_Some locks_def)
  with len i c' show thesis by (intro that [of i]) (auto simp: hd_drop_conv_nth)
qed

function drain :: "Counter \<Rightarrow> Counter" where
  "drain c =
     (let (ok, c1) = (if synced c then (True, c) else acquire c) in
      if \<not> ok then c1
      else if length (buf c1) < PacketLen then c1
      else if hd (buf c1) \<noteq> syncByte then drain (noteLoss c1)
      else drain ((packet (take PacketLen (buf c1)) c1)\<lparr>buf := drop PacketLen (buf c1), notedLoss := False\<rparr>))"
  by pat_completeness auto
termination
proof (relation "measures [\<lambda>c. length (buf c), \<lambda>c. if synced c then 1 else 0]", goal_cases)
  case 1
  then show ?case by simp
next
  case (2 c x ok c1)
  show ?case
  proof (cases "synced c")
    case True
    with 2 show ?thesis by (auto simp: noteLoss_def)
  next
    case False
    with 2 have "acquire c = (True, c1)" by simp
    then show ?thesis by (rule acquire_locked) (use 2 in simp)
  qed
next
  case (3 c x ok c1)
  show ?case
  proof (cases "synced c")
    case True
    with 3 show ?thesis by auto
  next
    case False
    with 3 have "acquire c = (True, c1)" by simp
    then show ?thesis by (rule acquire_locked) (use 3 in auto)
  qed
qed

declare drain.simps [simp del]

definition Write :: "bytes \<Rightarrow> Counter \<Rightarrow> Counter" where
  "Write p c = (if p = [] then c else drain (c\<lparr>buf := buf c @ p\<rparr>))"

subsection \<open>Summary\<close>

record Summary =
  ContinuityErrors :: nat
  TransportErrors :: nat
  SyncLosses :: nat
  Packets :: nat
  WorstPID :: pid
  WorstContinuity :: nat
  WorstTransport :: nat
  Gaps :: nat
  LostSeconds :: rat

definition noSummary :: Summary where
  "noSummary = \<lparr>ContinuityErrors = 0, TransportErrors = 0, SyncLosses = 0, Packets = 0, WorstPID = 0,
     WorstContinuity = 0, WorstTransport = 0, Gaps = 0, LostSeconds = 0\<rparr>"

definition worse :: "pid \<Rightarrow> pidStat \<Rightarrow> Summary \<Rightarrow> bool" where
  "worse pid st s =
     (if WorstContinuity s = 0 \<and> WorstTransport s = 0 then True
      else if ccErr st \<noteq> WorstContinuity s then ccErr st > WorstContinuity s
      else if tei st \<noteq> WorstTransport s then tei st > WorstTransport s
      else pid < WorstPID s)"

definition summaryStep :: "pid \<times> pidStat \<Rightarrow> Summary \<times> nat \<times> pid \<Rightarrow> Summary \<times> nat \<times> pid" where
  "summaryStep ps x =
     (case (ps, x) of ((pid, st), (s, ticks, tickPID)) \<Rightarrow>
        let s1 = s\<lparr>Packets := Packets s + packets st, ContinuityErrors := ContinuityErrors s + ccErr st,
                  TransportErrors := TransportErrors s + tei st\<rparr>;
            best = pcrs st > ticks \<or> (pcrs st = ticks \<and> pcrs st > 0 \<and> pid < tickPID);
            s2 = (if best then s1\<lparr>Gaps := gaps st, LostSeconds := of_nat (unat (lost st)) / 90000\<rparr> else s1);
            s3 = (if (ccErr st = 0 \<and> tei st = 0) \<or> \<not> worse pid st s2 then s2
                  else s2\<lparr>WorstPID := pid, WorstContinuity := ccErr st, WorstTransport := tei st\<rparr>)
        in (s3, if best then (pcrs st, pid) else (ticks, tickPID)))"

text \<open>\<open>order\<close> is the order in which the range over the map visits its entries.\<close>

definition summaryOf :: "pid list \<Rightarrow> Counter \<Rightarrow> Summary" where
  "summaryOf order c =
     fst (fold (\<lambda>pid. summaryStep (pid, the (pids c pid))) order (noSummary\<lparr>SyncLosses := syncLoss c\<rparr>, 0, 0))"

end
