(* ===== verification/TsHealthProps.thy ===== *)
theory TsHealthProps
  imports TsHealth
begin

text \<open>
  Correctness of the damage counter. \<open>frames\<close> is an abstract framing of a byte stream into
  packets; the counter refines it, which makes the counts independent of how the stream was
  cut into writes. The counts themselves are invariants of \<^verbatim>\<open>packet\<close>, and the summary does
  not depend on the order in which Go visits its map.
\<close>

subsection \<open>Framing, abstractly\<close>

definition firstLock :: "bytes \<Rightarrow> nat option" where
  "firstLock b = find (locks b) [0..<length b - 376]"

lemma firstLock_Some:
  "firstLock b = Some i \<longleftrightarrow> i < length b - 376 \<and> locks b i \<and> (\<forall>j<i. \<not> locks b j)"
  by (simp add: firstLock_def find_upt_Some)

lemma firstLock_lock:
  assumes "firstLock b = Some i"
  shows "hd (drop i b) = syncByte" "188 \<le> length (drop i b)" "i \<le> length b"
  using assms by (auto simp: firstLock_Some locks_def hd_drop_conv_nth)

function frames :: "bool \<Rightarrow> bytes \<Rightarrow> bytes list \<times> bool \<times> bytes" where
  "frames True b =
     (if length b < 188 then ([], True, b)
      else if hd b \<noteq> syncByte then frames False b
      else let (ps, r) = frames True (drop 188 b) in (take 188 b # ps, r))"
| "frames False b =
     (case firstLock b of
        None \<Rightarrow> ([], False, drop (length b - 376) b)
      | Some i \<Rightarrow> (let (ps, r) = frames True (drop 188 (drop i b)) in (take 188 (drop i b) # ps, r)))"
  by pat_completeness auto
termination
  by (relation "measures [\<lambda>(s, b). length b, \<lambda>(s, b). if s then 1 else 0]")
     (auto dest: firstLock_lock(2,3))

declare frames.simps [simp del]

lemma locks_append: "i < length b - 376 \<Longrightarrow> locks (b @ q) i = locks b i"
  by (auto simp: locks_def nth_append)

lemma locks_drop: "k \<le> length b \<Longrightarrow> locks (drop k b) i = locks b (k + i)"
  by (simp add: locks_def add.assoc)

lemma firstLock_append_Some:
  assumes "firstLock b = Some i"
  shows "firstLock (b @ q) = Some i"
proof -
  have i: "i < length b - 376" "locks b i" "\<forall>j<i. \<not> locks b j" using assms by (auto simp: firstLock_Some)
  then have "\<forall>j<i. \<not> locks (b @ q) j" using locks_append by auto
  with i locks_append [of i b q] show ?thesis by (auto simp: firstLock_Some)
qed

lemma firstLock_append_None:
  assumes "firstLock b = None"
  shows "firstLock (b @ q) = map_option ((+) (length b - 376)) (firstLock (drop (length b - 376) b @ q))"
proof -
  let ?k = "length b - 376"
  have none: "\<not> locks (b @ q) j" if "j < ?k" for j
    using that assms locks_append [of j b q] by (auto simp: firstLock_def find_None_iff)
  have shift: "locks (drop ?k b @ q) j = locks (b @ q) (?k + j)" for j
    using locks_drop [of ?k "b @ q" j] by simp
  show ?thesis
  proof (cases "firstLock (drop ?k b @ q)")
    case (Some i)
    have "\<not> locks (b @ q) j" if "j < ?k + i" for j
    proof (cases "j < ?k")
      case False
      then have "j - ?k < i" using that by linarith
      then have "\<not> locks (drop ?k b @ q) (j - ?k)" using Some by (auto simp: firstLock_Some)
      then show ?thesis using shift [of "j - ?k"] False by simp
    qed (rule none)
    moreover have "i + ?k < length (b @ q) - 376" "locks (b @ q) (?k + i)"
      using Some shift by (auto simp: firstLock_Some)
    ultimately have "firstLock (b @ q) = Some (?k + i)" by (simp add: firstLock_Some add.commute)
    with Some show ?thesis by simp
  next
    case None
    have "\<not> locks (b @ q) j" if "j < length (b @ q) - 376" for j
    proof (cases "j < ?k")
      case False
      then have "j - ?k < length (drop ?k b @ q) - 376" using that by simp
      then have "\<not> locks (drop ?k b @ q) (j - ?k)" using None by (auto simp: firstLock_def find_None_iff)
      then show ?thesis using shift [of "j - ?k"] False by simp
    qed (rule none)
    then have "firstLock (b @ q) = None" by (auto simp: firstLock_def find_None_iff)
    with None show ?thesis by simp
  qed
qed

text \<open>Framing a stream in two parts is framing it at once.\<close>

lemma frames_append:
  "frames s b = (ps, s', r) \<Longrightarrow> frames s (b @ q) = (let (qs, t) = frames s' (r @ q) in (ps @ qs, t))"
proof (induction s b arbitrary: ps s' r rule: frames.induct)
  case (1 b)
  show ?case
  proof (cases "length b < 188")
    case True
    with "1.prems" show ?thesis by (auto simp: frames.simps(1) [of b] split: prod.splits)
  next
    case long: False
    then have hd: "hd (b @ q) = hd b" "\<not> length (b @ q) < 188" by (cases b; simp)+
    show ?thesis
    proof (cases "hd b = syncByte")
      case False
      then have "frames True b = frames False b" "frames True (b @ q) = frames False (b @ q)"
        using long hd by (auto simp: frames.simps(1))
      with "1.IH"(1) [OF long False] "1.prems" show ?thesis by simp
    next
      case True
      obtain ps' s1 r1 where f: "frames True (drop 188 b) = (ps', s1, r1)" by (cases "frames True (drop 188 b)") auto
      then have eq: "ps = take 188 b # ps'" "s' = s1" "r = r1"
        using "1.prems" long True by (auto simp: frames.simps(1) [of b])
      have "frames True (b @ q) = (let (qs, t) = frames True (drop 188 b @ q) in (take 188 b # qs, t))"
        using long hd True by (simp add: frames.simps(1) [of "b @ q"])
      with "1.IH"(2) [OF long _ f] True eq show ?thesis by (simp split: prod.splits)
    qed
  qed
next
  case (2 b)
  show ?case
  proof (cases "firstLock b")
    case None
    let ?k = "length b - 376"
    have r: "ps = []" "s' = False" "r = drop ?k b" using "2.prems" None by (auto simp: frames.simps(2))
    show ?thesis
    proof (cases "firstLock (drop ?k b @ q)")
      case (Some i)
      then have "firstLock (b @ q) = Some (?k + i)" using firstLock_append_None [OF None, of q] by simp
      moreover have "drop (?k + i) (b @ q) = drop i (drop ?k b @ q)" by (simp add: add.commute)
      ultimately show ?thesis using r Some by (simp add: frames.simps(2) split: prod.splits)
    next
      case none: None
      then have "firstLock (b @ q) = None" using firstLock_append_None [OF None, of q] by simp
      moreover have "drop (length (b @ q) - 376) (b @ q) = drop (length (drop ?k b @ q) - 376) (drop ?k b @ q)"
        by (cases "length b \<le> 376") (simp_all add: min_def add.commute)
      ultimately show ?thesis using r none by (simp add: frames.simps(2))
    qed
  next
    case (Some i)
    note lk = firstLock_lock [OF Some]
    obtain ps' s1 r1 where f: "frames True (drop 188 (drop i b)) = (ps', s1, r1)"
      by (cases "frames True (drop 188 (drop i b))") auto
    then have eq: "ps = take 188 (drop i b) # ps'" "s' = s1" "r = r1"
      using "2.prems" Some by (auto simp: frames.simps(2))
    have "frames False (b @ q) = (let (qs, t) = frames True (drop 188 (drop i b) @ q) in (take 188 (drop i b) # qs, t))"
      using firstLock_append_Some [OF Some, of q] lk by (simp add: frames.simps(2))
    with "2.IH" [OF Some f] eq show ?thesis by (simp split: prod.splits)
  qed
qed

subsection \<open>The counter refines the framing\<close>

definition absorb :: "Counter \<Rightarrow> bytes list \<Rightarrow> Counter" where
  "absorb c ps = fold packet ps c"

lemma packet_frame [simp]:
  "buf (packet p c) = buf c" "synced (packet p c) = synced c" "notedLoss (packet p c) = notedLoss c"
  "syncLoss (packet p c) = syncLoss c"
  by (simp_all add: packet_def Let_def split: prod.splits)

lemma packet_cong:
  "pids c = pids d \<Longrightarrow> ccErrs c = ccErrs d \<Longrightarrow> pids (packet p c) = pids (packet p d) \<and> ccErrs (packet p c) = ccErrs (packet p d)"
proof -
  assume "pids c = pids d" "ccErrs c = ccErrs d"
  then show ?thesis
    by (cases "packetStat (ccErrs d) p (case pids d (pktPid p) of None \<Rightarrow> noStat | Some st \<Rightarrow> st)")
       (simp add: packet_def)
qed

lemma absorb_cong:
  "pids c = pids d \<Longrightarrow> ccErrs c = ccErrs d \<Longrightarrow> pids (absorb c ps) = pids (absorb d ps) \<and> ccErrs (absorb c ps) = ccErrs (absorb d ps)"
proof (induction ps arbitrary: c d)
  case (Cons p ps)
  have "pids (packet p c) = pids (packet p d)" "ccErrs (packet p c) = ccErrs (packet p d)"
    using packet_cong [OF Cons.prems] by auto
  from Cons.IH [OF this] show ?case by (simp only: absorb_def fold_Cons o_apply)
qed (simp add: absorb_def)

definition view :: "Counter \<Rightarrow> bytes \<times> bool \<times> (pid \<rightharpoonup> pidStat) \<times> nat" where
  "view c = (buf c, synced c, pids c, ccErrs c)"

text \<open>What the framing says a counter shows after it has read what is in its buffer.\<close>

definition framed :: "Counter \<Rightarrow> bytes \<times> bool \<times> (pid \<rightharpoonup> pidStat) \<times> nat" where
  "framed c = (case frames (synced c) (buf c) of (ps, s, r) \<Rightarrow> (r, s, pids (absorb c ps), ccErrs (absorb c ps)))"

lemma acquire_keeps: "acquire c = (ok, c1) \<Longrightarrow> pids c1 = pids c \<and> ccErrs c1 = ccErrs c"
  by (auto simp: acquire_def Let_def split: if_splits option.splits)

lemma acquire_failed:
  "acquire c = (False, c1) \<Longrightarrow> firstLock (buf c) = None \<and> buf c1 = drop (length (buf c) - 376) (buf c) \<and> synced c1 = synced c"
  by (auto simp: acquire_def Let_def firstLock_def split: if_splits option.splits)

lemma framed_packet:
  assumes "frames True (drop 188 b) = (ps, s, r)" "pids c1 = pids c" "ccErrs c1 = ccErrs c"
    "d = (packet (take 188 b) c1)\<lparr>buf := drop 188 b, notedLoss := False\<rparr>" "synced d"
  shows "framed d = (r, s, pids (absorb c (take 188 b # ps)), ccErrs (absorb c (take 188 b # ps)))"
  using assms packet_cong [of c1 c "take 188 b"] absorb_cong [of d "packet (take 188 b) c" ps]
  by (simp add: framed_def) (simp add: absorb_def)

theorem drain_framed: "view (drain c) = framed c"
proof (induction c rule: drain.induct)
  case (1 c)
  obtain ok c1 where a: "(if synced c then (True, c) else acquire c) = (ok, c1)" by force
  have keep: "pids c1 = pids c" "ccErrs c1 = ccErrs c" using a acquire_keeps by (auto split: if_splits)
  show ?case
  proof (cases ok)
    case False
    then have "\<not> synced c" "acquire c = (False, c1)" using a by (auto split: if_splits)
    then show ?thesis using acquire_failed [of c c1] keep False a
      by (simp add: drain.simps [of c] framed_def frames.simps view_def absorb_def)
  next
    case ok: True
    let ?d = "(packet (take 188 (buf c1)) c1)\<lparr>buf := drop 188 (buf c1), notedLoss := False\<rparr>"
    obtain ps s r where f: "frames True (drop 188 (buf c1)) = (ps, s, r)" by (cases "frames True (drop 188 (buf c1))") auto
    show ?thesis
    proof (cases "synced c")
      case True
      then have c1: "c1 = c" using a by simp
      consider "length (buf c) < 188" | "188 \<le> length (buf c)" "hd (buf c) \<noteq> syncByte"
        | "188 \<le> length (buf c)" "hd (buf c) = syncByte" by linarith
      then show ?thesis
      proof cases
        case 1
        then show ?thesis using True by (simp add: drain.simps [of c] framed_def frames.simps view_def absorb_def)
      next
        case 2
        then have d: "drain c = drain (noteLoss c)" using True by (simp add: drain.simps [of c])
        have "view (drain (noteLoss c1)) = framed (noteLoss c1)"
          by (rule "1.IH"(1) [OF refl a [symmetric]]) (use 2 ok c1 in auto)
        moreover have "framed (noteLoss c) = framed c"
          using 2 True absorb_cong [of "noteLoss c" c]
          by (auto simp: framed_def noteLoss_def frames.simps(1) [of "buf c"] split: prod.splits)
        ultimately show ?thesis using d c1 by simp
      next
        case 3
        then have d: "drain c = drain ?d" using True c1 by (simp add: drain.simps [of c])
        have "view (drain ?d) = framed ?d"
          by (rule "1.IH"(2) [OF refl a [symmetric]]) (use 3 ok c1 in auto)
        moreover have "framed ?d = framed c"
          using framed_packet [OF f keep refl] 3 True f c1
          by (simp add: framed_def [of c] frames.simps(1) [of "buf c"])
        ultimately show ?thesis using d by simp
      qed
    next
      case False
      then have acq: "acquire c = (True, c1)" using a ok by simp
      then obtain i where i: "firstLock (buf c) = Some i" "buf c1 = drop i (buf c)" "synced c1"
        by (rule acquire_locked) (auto simp: firstLock_def)
      note lk = firstLock_lock [OF i(1)]
      have d: "drain c = drain ?d" using False acq lk i(2) by (simp add: drain.simps [of c])
      have "view (drain ?d) = framed ?d"
        by (rule "1.IH"(2) [OF refl a [symmetric]]) (use lk ok i(2) in auto)
      moreover have "framed ?d = framed c"
        using framed_packet [OF f keep refl] i False f
        by (simp add: framed_def [of c] frames.simps(2) [of "buf c"])
      ultimately show ?thesis using d by simp
    qed
  qed
qed

lemma absorb_append: "absorb c (ps @ qs) = absorb (absorb c ps) qs"
  by (simp add: absorb_def)

lemma framed_append:
  "framed c = view d \<Longrightarrow> framed (d\<lparr>buf := buf d @ q\<rparr>) = framed (c\<lparr>buf := buf c @ q\<rparr>)"
proof -
  assume eq: "framed c = view d"
  obtain ps s r where f: "frames (synced c) (buf c) = (ps, s, r)" by (cases "frames (synced c) (buf c)") auto
  have d: "buf d = r" "synced d = s" "pids d = pids (absorb c ps)" "ccErrs d = ccErrs (absorb c ps)"
    using eq f by (auto simp: framed_def view_def)
  obtain qs t u where g: "frames s (r @ q) = (qs, t, u)" by (cases "frames s (r @ q)") auto
  have 1: "pids (absorb (d\<lparr>buf := r @ q\<rparr>) qs) = pids (absorb (absorb c ps) qs)"
    "ccErrs (absorb (d\<lparr>buf := r @ q\<rparr>) qs) = ccErrs (absorb (absorb c ps) qs)"
    using absorb_cong [of "d\<lparr>buf := r @ q\<rparr>" "absorb c ps" qs] d by auto
  have 2: "pids (absorb (c\<lparr>buf := buf c @ q\<rparr>) (ps @ qs)) = pids (absorb c (ps @ qs))"
    "ccErrs (absorb (c\<lparr>buf := buf c @ q\<rparr>) (ps @ qs)) = ccErrs (absorb c (ps @ qs))"
    using absorb_cong [of "c\<lparr>buf := buf c @ q\<rparr>" c "ps @ qs"] by auto
  show ?thesis using frames_append [OF f, of q] d g 1 2 by (simp add: framed_def absorb_append)
qed

lemma framed_cong: "view c = view d \<Longrightarrow> framed c = framed d"
  using absorb_cong [of c d] by (auto simp: framed_def view_def split: prod.splits)

interpretation ts: chunked_writer "\<lambda>c p. Write p c" "\<lambda>c. True" view
proof (unfold_locales, goal_cases)
  case (3 c p q)
  show ?case
  proof (cases "p = [] \<or> q = []")
    case False
    then show ?thesis
      using framed_append [of "c\<lparr>buf := buf c @ p\<rparr>" "drain (c\<lparr>buf := buf c @ p\<rparr>)" q]
      by (simp add: Write_def drain_framed)
  qed (auto simp: Write_def)
next
  case (4 c d p)
  have "view (c\<lparr>buf := buf c @ p\<rparr>) = view (d\<lparr>buf := buf d @ p\<rparr>)" using 4 by (auto simp: view_def)
  then have "framed (c\<lparr>buf := buf c @ p\<rparr>) = framed (d\<lparr>buf := buf d @ p\<rparr>)" by (rule framed_cong)
  with 4 show ?case by (simp add: Write_def drain_framed)
qed (auto simp: Write_def)

subsection \<open>What a framing keeps\<close>

lemma frames_sound:
  "frames s b = (ps, s', r) \<Longrightarrow> (\<forall>p \<in> set ps. length p = 188 \<and> hd p = syncByte) \<and> length r \<le> 376 \<and>
     188 * length ps + length r \<le> length b"
proof (induction s b arbitrary: ps s' r rule: frames.induct)
  case (1 b)
  show ?case
  proof (cases "length b < 188 \<or> hd b \<noteq> syncByte")
    case True
    show ?thesis
    proof (cases "length b < 188")
      case short: True
      then have "ps = []" "r = b" using "1.prems" by (simp_all add: frames.simps(1) [of b])
      with short show ?thesis by simp
    next
      case False
      then have "frames False b = (ps, s', r)" using True "1.prems" by (simp add: frames.simps(1) [of b])
      with "1.IH"(1) [OF False] True False show ?thesis by blast
    qed
  next
    case False
    obtain ps' s1 r1 where f: "frames True (drop 188 b) = (ps', s1, r1)" by (cases "frames True (drop 188 b)") auto
    with False "1.prems" have r: "ps = take 188 b # ps'" "r = r1" by (auto simp: frames.simps(1) [of b])
    have "(\<forall>p \<in> set ps'. length p = 188 \<and> hd p = syncByte) \<and> length r1 \<le> 376 \<and>
        188 * length ps' + length r1 \<le> length (drop 188 b)"
      by (rule "1.IH"(2) [OF _ _ f]) (use False in auto)
    moreover have "length (take 188 b) = 188" "hd (take 188 b) = syncByte" using False by (cases b; simp)+
    ultimately show ?thesis using r False by (simp, linarith)
  qed
next
  case (2 b)
  show ?case
  proof (cases "firstLock b")
    case None
    with 2 show ?thesis by (auto simp: frames.simps(2))
  next
    case (Some i)
    obtain ps' s1 r1 where f: "frames True (drop 188 (drop i b)) = (ps', s1, r1)"
      by (cases "frames True (drop 188 (drop i b))") auto
    with Some "2.prems" have r: "ps = take 188 (drop i b) # ps'" "r = r1" by (auto simp: frames.simps(2))
    note lk = firstLock_lock [OF Some]
    then have "length (take 188 (drop i b)) = 188" "hd (take 188 (drop i b)) = syncByte"
      by (cases "drop i b"; simp)+
    with r "2.IH" [OF Some f] lk show ?thesis by (simp, linarith)
  qed
qed

abbreviation good :: "bytes \<Rightarrow> bool" where
  "good p \<equiv> length p = 188 \<and> hd p = syncByte"

lemma frames_synced: "\<forall>p \<in> set ps. good p \<Longrightarrow> frames True (concat ps) = (ps, True, [])"
proof (induction ps)
  case Nil
  then show ?case by (simp add: frames.simps)
next
  case (Cons p ps)
  then have "hd (p @ concat ps) = syncByte" "\<not> length (p @ concat ps) < 188" by (cases p; auto)+
  with Cons show ?case by (simp add: frames.simps(1) [of "p @ concat ps"])
qed

lemma frames_in_sync:
  assumes "3 \<le> length ps" "\<forall>p \<in> set ps. good p"
  shows "frames False (concat ps) = (ps, True, [])"
proof -
  obtain a b c rest where ps: "ps = a # b # c # rest"
    using assms(1) by (metis Suc_le_length_iff numeral_3_eq_3)
  then have g: "good a" "good b" "good c" using assms(2) by auto
  then have nth: "a ! 0 = syncByte" "b ! 0 = syncByte" "c ! 0 = syncByte" by (metis hd_conv_nth list.size(3) zero_neq_numeral)+
  have "locks (concat ps) 0" using ps g nth by (simp add: locks_def nth_append)
  moreover have "0 < length (concat ps) - 376" using ps g by (cases c) auto
  ultimately have l: "firstLock (concat ps) = Some 0" by (simp add: firstLock_Some)
  have "drop 188 (concat ps) = concat (tl ps)" "take 188 (concat ps) = hd ps" using ps g by auto
  moreover have "frames True (concat (tl ps)) = (tl ps, True, [])" using ps assms(2) by (intro frames_synced) auto
  ultimately show ?thesis using l ps by (simp add: frames.simps(2))
qed

subsection \<open>Counting\<close>

text \<open>A PID's state without its clock.\<close>

definition core :: "pidStat \<Rightarrow> pidStat" where
  "core st = st\<lparr>pcrs := 0, pcr := 0, gaps := 0, lost := 0, lostAt := 0\<rparr>"

lemma core_clock [simp]: "core (clock e b d st) = core st"
  by (simp add: core_def clock_def Let_def)

lemma core_noStat [simp]: "core noStat = noStat"
  by (simp add: core_def noStat_def)


lemma continuity_core: "continuity p (core st) = map_prod core id (continuity p st)"
  by (simp add: continuity_def Let_def) (simp add: core_def)

lemma packetStat_core: "map_prod core id (packetStat e p st) = map_prod core id (packetStat 0 p (core st))"
proof -
  let ?a = "\<lambda>st. (if damaged p then (st\<lparr>packets := packets st + 1\<rparr>)\<lparr>tei := tei st + 1\<rparr> else st\<lparr>packets := packets st + 1\<rparr>)"
  have a: "core (?a (core st)) = core (?a st)" by (simp add: core_def)
  have c: "continuity p (core (?a st)) = map_prod core id (continuity p (?a st))" by (rule continuity_core)
  have k: "map_prod core id (continuity p x) = map_prod core id (continuity p y)" if "core x = core y" for x y
    using that continuity_core [of p x] continuity_core [of p y] by simp
  have ps: "packetStat e' p x = (if pktPid p = nullPID then (?a x, False)
      else continuity p (if hasClock p then clock e' (take 5 (drop 6 p)) (disc p) (?a x) else ?a x))" for e' x
    by (simp add: packetStat_def Let_def)
  show ?thesis unfolding ps using a by (auto intro!: k)
qed

text \<open>What one PID's packets alone would count.\<close>

definition alone :: "bytes list \<Rightarrow> pidStat" where
  "alone ps = fold (\<lambda>p st. fst (packetStat 0 p st)) ps noStat"

lemma alone_snoc: "alone (ps @ [p]) = fst (packetStat 0 p (alone ps))"
  by (simp add: alone_def)

lemma absorb_snoc: "absorb c (ps @ [p]) = packet p (absorb c ps)"
  by (simp add: absorb_def)

lemma core_fst: "map_prod core id x = map_prod core id y \<Longrightarrow> core (fst x) = core (fst y)"
  by (cases x; cases y) simp

lemma absorb_alone:
  "(pids (absorb newCounter ps) pid = None \<longleftrightarrow> filter (\<lambda>p. pktPid p = pid) ps = []) \<and>
   (\<forall>st. pids (absorb newCounter ps) pid = Some st \<longrightarrow> core st = core (alone (filter (\<lambda>p. pktPid p = pid) ps)))"
proof (induction ps rule: rev_induct)
  case Nil
  then show ?case by (simp add: absorb_def newCounter_def)
next
  case (snoc p ps)
  let ?c = "absorb newCounter ps" and ?f = "filter (\<lambda>p. pktPid p = pid) ps"
  define st where "st = (case pids ?c (pktPid p) of None \<Rightarrow> noStat | Some st \<Rightarrow> st)"
  have pk: "pids (packet p ?c) = (pids ?c)(pktPid p \<mapsto> fst (packetStat (ccErrs ?c) p st))"
    by (simp add: packet_def st_def Let_def split: prod.splits)
  show ?case
  proof (cases "pktPid p = pid")
    case False
    with snoc pk show ?thesis by (simp add: absorb_snoc)
  next
    case True
    have "core st = core (alone ?f)"
    proof (cases "pids ?c pid")
      case None
      then show ?thesis using snoc True by (simp add: st_def alone_def)
    qed (use snoc True in \<open>simp add: st_def\<close>)
    then have "core (fst (packetStat (ccErrs ?c) p st)) = core (fst (packetStat 0 p (alone ?f)))"
      using packetStat_core [of "ccErrs ?c" p st] packetStat_core [of 0 p "alone ?f"] by (intro core_fst) simp
    with True pk show ?thesis by (simp add: absorb_snoc alone_snoc)
  qed
qed

definition counter_of :: "bytes \<Rightarrow> nat" where
  "counter_of p = unat (p ! 3 AND 0x0f)"

text \<open>A packet that nothing excuses of a jump of its counter.\<close>

definition plain :: "bytes \<Rightarrow> bool" where
  "plain p \<longleftrightarrow> \<not> disc p \<and> pktPid p \<noteq> nullPID"









lemma continuity_counts [simp]: "packets (fst (continuity p st)) = packets st" "tei (fst (continuity p st)) = tei st"
  by (simp_all add: continuity_def Let_def)

lemma clock_counts [simp]:
  "packets (clock e b d st) = packets st" "tei (clock e b d st) = tei st" "ccErr (clock e b d st) = ccErr st"
  "have_cc (clock e b d st) = have_cc st" "cc (clock e b d st) = cc st" "dup (clock e b d st) = dup st"
  by (simp_all add: clock_def Let_def)

lemma packetStat_counts [simp]:
  "packets (fst (packetStat e p st)) = packets st + 1"
  "tei (fst (packetStat e p st)) = tei st + (if damaged p then 1 else 0)"
  by (simp_all add: packetStat_def Let_def)



subsection \<open>Totals and the clock\<close>

text \<open>
  The invariant of a counter: the total of continuity errors is the sum over the PIDs, counters
  have four bits, and the clock's marks are not ahead of the total.
\<close>

definition stat_ok :: "nat \<Rightarrow> pidStat \<Rightarrow> bool" where
  "stat_ok errs st \<longleftrightarrow> cc st < 16 \<and> lostAt st \<le> errs \<and> gaps st \<le> pcrs st \<and> tei st \<le> packets st \<and> ccErr st \<le> packets st \<and>
     (errs = 0 \<longrightarrow> gaps st = 0 \<and> lost st = 0)"

definition counter_ok :: "Counter \<Rightarrow> bool" where
  "counter_ok c \<longleftrightarrow> finite (dom (pids c)) \<and> ccErrs c = (\<Sum>pid\<in>dom (pids c). ccErr (the (pids c pid))) \<and>
     (\<forall>pid st. pids c pid = Some st \<longrightarrow> stat_ok (ccErrs c) st)"

lemma unat_low4: "unat (x AND 0x0f :: byte) < 16"
  using unat_and_le [of x "0x0f"] by simp

lemma continuity_ok:
  assumes "stat_ok errs st" "ccErr st < packets st"
  shows "stat_ok (errs + (if snd (continuity p st) then 1 else 0)) (fst (continuity p st)) \<and>
    ccErr (fst (continuity p st)) = ccErr st + (if snd (continuity p st) then 1 else 0)"
  using assms unat_low4 [of "p ! 3"] by (simp add: continuity_def Let_def stat_ok_def)

lemma clock_ok: "stat_ok errs st \<Longrightarrow> stat_ok errs (clock errs b d st)"
  by (simp add: stat_ok_def clock_def Let_def)

lemma packetStat_ok:
  assumes "stat_ok errs st"
  shows "stat_ok (errs + (if snd (packetStat errs p st) then 1 else 0)) (fst (packetStat errs p st)) \<and>
    ccErr (fst (packetStat errs p st)) = ccErr st + (if snd (packetStat errs p st) then 1 else 0)"
proof -
  define a where "a = (if damaged p then st\<lparr>packets := packets st + 1, tei := tei st + 1\<rparr> else st\<lparr>packets := packets st + 1\<rparr>)"
  define b where "b = (if hasClock p then clock errs (take 5 (drop 6 p)) (disc p) a else a)"
  have a: "stat_ok errs a" "ccErr a = ccErr st" "ccErr a < packets a" using assms by (auto simp: a_def stat_ok_def)
  then have b: "stat_ok errs b" "ccErr b = ccErr st" "ccErr b < packets b" by (auto simp: b_def clock_ok)
  have "packetStat errs p st = (if pktPid p = nullPID then (a, False) else continuity p b)"
    by (simp add: packetStat_def Let_def a_def b_def)
  with a(1,2) continuity_ok [OF b(1,3), of p] b(2) show ?thesis by (cases "pktPid p = nullPID") auto
qed

lemma stat_ok_mono: "stat_ok e st \<Longrightarrow> e \<le> e' \<Longrightarrow> stat_ok e' st"
  by (auto simp: stat_ok_def)

lemma packet_ok:
  assumes ok: "counter_ok c"
  shows "counter_ok (packet p c)"
proof -
  let ?pid = "pktPid p" and ?e = "ccErrs c"
  define st where "st = (case pids c ?pid of None \<Rightarrow> noStat | Some st \<Rightarrow> st)"
  obtain st' bad where pk: "packetStat ?e p st = (st', bad)" by force
  let ?n = "(if bad then 1 else 0) :: nat"
  have c': "packet p c = c\<lparr>pids := (pids c)(?pid \<mapsto> st'), ccErrs := ?e + ?n\<rparr>"
    using pk by (simp add: packet_def st_def Let_def)
  have "stat_ok ?e st"
  proof (cases "pids c ?pid")
    case None
    then show ?thesis by (simp add: st_def noStat_def stat_ok_def)
  qed (use ok in \<open>auto simp: st_def counter_ok_def\<close>)
  from packetStat_ok [OF this, of p] pk have st': "stat_ok (?e + ?n) st'" "ccErr st' = ccErr st + ?n" by auto
  have fin: "finite (dom (pids c))" using ok by (simp add: counter_ok_def)
  have sum: "(\<Sum>x\<in>insert ?pid (dom (pids c)). ccErr (the (((pids c)(?pid \<mapsto> st')) x))) =
      (\<Sum>x\<in>dom (pids c). ccErr (the (pids c x))) + ?n"
  proof -
    let ?D = "dom (pids c) - {?pid}"
    have "(\<Sum>x\<in>insert ?pid (dom (pids c)). ccErr (the (((pids c)(?pid \<mapsto> st')) x))) =
        ccErr st' + (\<Sum>x\<in>?D. ccErr (the (((pids c)(?pid \<mapsto> st')) x)))"
      using fin by (simp add: sum.insert_remove)
    also have "(\<Sum>x\<in>?D. ccErr (the (((pids c)(?pid \<mapsto> st')) x))) = (\<Sum>x\<in>?D. ccErr (the (pids c x)))"
      by (rule sum.cong) auto
    also have "(\<Sum>x\<in>dom (pids c). ccErr (the (pids c x))) = ccErr st + (\<Sum>x\<in>?D. ccErr (the (pids c x)))"
    proof (cases "?pid \<in> dom (pids c)")
      case True
      then show ?thesis using fin by (auto simp: sum.remove [of _ ?pid] st_def)
    next
      case False
      then show ?thesis by (auto simp: st_def noStat_def domIff)
    qed
    ultimately show ?thesis using st'(2) by simp
  qed
  have old: "stat_ok (?e + ?n) x" if "pids c q = Some x" for q x
  proof (rule stat_ok_mono [of ?e])
    show "stat_ok ?e x" using that ok unfolding counter_ok_def by blast
  qed simp
  have "stat_ok (?e + ?n) x" if "((pids c)(?pid \<mapsto> st')) q = Some x" for q x
    using that old [of q x] st'(1) by (cases "q = ?pid") simp_all
  moreover have "?e + ?n = (\<Sum>x\<in>insert ?pid (dom (pids c)). ccErr (the (((pids c)(?pid \<mapsto> st')) x)))"
    using ok sum by (simp only: counter_ok_def)
  ultimately show ?thesis using fin c' by (simp only: counter_ok_def) simp
qed

lemma absorb_ok: "counter_ok c \<Longrightarrow> counter_ok (absorb c ps)"
  by (induction ps arbitrary: c) (auto simp: absorb_def packet_ok)

lemma newCounter_ok: "counter_ok newCounter"
  by (simp add: counter_ok_def newCounter_def)

subsection \<open>The summary\<close>

definition dirty :: "pidStat \<Rightarrow> bool" where
  "dirty st \<longleftrightarrow> ccErr st \<noteq> 0 \<or> tei st \<noteq> 0"

text \<open>More continuity errors, then more transport errors, then the lower PID.\<close>

definition beats :: "(pid \<Rightarrow> pidStat) \<Rightarrow> pid \<Rightarrow> pid \<Rightarrow> bool" where
  "beats f a b \<longleftrightarrow> ccErr (f b) < ccErr (f a) \<or>
     (ccErr (f b) = ccErr (f a) \<and> (tei (f b) < tei (f a) \<or> (tei (f b) = tei (f a) \<and> a < b)))"

definition worst_of :: "(pid \<Rightarrow> pidStat) \<Rightarrow> pid set \<Rightarrow> pid \<Rightarrow> bool" where
  "worst_of f A w \<longleftrightarrow> w \<in> A \<and> dirty (f w) \<and> (\<forall>a \<in> A. dirty (f a) \<longrightarrow> a = w \<or> beats f w a)"

definition clock_of :: "(pid \<Rightarrow> pidStat) \<Rightarrow> pid set \<Rightarrow> pid \<Rightarrow> bool" where
  "clock_of f A k \<longleftrightarrow> k \<in> A \<and> 0 < pcrs (f k) \<and>
     (\<forall>a \<in> A. a = k \<or> pcrs (f a) < pcrs (f k) \<or> (pcrs (f a) = pcrs (f k) \<and> k < a))"

definition worst_ok :: "(pid \<Rightarrow> pidStat) \<Rightarrow> pid set \<Rightarrow> Summary \<Rightarrow> bool" where
  "worst_ok f A s \<longleftrightarrow>
     ((\<forall>a \<in> A. \<not> dirty (f a)) \<and> WorstPID s = 0 \<and> WorstContinuity s = 0 \<and> WorstTransport s = 0) \<or>
     (\<exists>w. worst_of f A w \<and> WorstPID s = w \<and> WorstContinuity s = ccErr (f w) \<and> WorstTransport s = tei (f w))"

definition clock_sum_ok :: "(pid \<Rightarrow> pidStat) \<Rightarrow> pid set \<Rightarrow> Summary \<Rightarrow> nat \<Rightarrow> pid \<Rightarrow> bool" where
  "clock_sum_ok f A s t tp \<longleftrightarrow>
     ((\<forall>a \<in> A. pcrs (f a) = 0) \<and> t = 0 \<and> Gaps s = 0 \<and> LostSeconds s = 0) \<or>
     (clock_of f A tp \<and> t = pcrs (f tp) \<and> Gaps s = gaps (f tp) \<and> LostSeconds s = of_nat (unat (lost (f tp))) / 90000)"

lemma beats_trans: "beats f a b \<Longrightarrow> beats f b c \<Longrightarrow> beats f a c"
  by (auto simp: beats_def)

lemma beats_total: "a \<noteq> b \<Longrightarrow> beats f a b \<or> beats f b a"
  by (auto simp: beats_def)

lemma worse_beats:
  assumes "WorstPID s = w" "WorstContinuity s = ccErr (f w)" "WorstTransport s = tei (f w)" "dirty (f w)"
  shows "worse a (f a) s = beats f a w"
  using assms by (auto simp: worse_def beats_def dirty_def)

lemma worst_step:
  assumes ok: "worst_ok f A s" and new: "a \<notin> A"
    and s': "s' = (if (ccErr (f a) = 0 \<and> tei (f a) = 0) \<or> \<not> worse a (f a) s then s
                  else s\<lparr>WorstPID := a, WorstContinuity := ccErr (f a), WorstTransport := tei (f a)\<rparr>)"
  shows "worst_ok f (insert a A) s'"
proof (cases "\<forall>x \<in> A. \<not> dirty (f x)")
  case True
  then have "WorstPID s = 0" "WorstContinuity s = 0" "WorstTransport s = 0"
    using ok by (auto simp: worst_ok_def worst_of_def)
  with True s' show ?thesis
    by (cases "dirty (f a)") (auto simp: worst_ok_def worst_of_def dirty_def worse_def)
next
  case False
  then obtain w where w: "worst_of f A w" "WorstPID s = w" "WorstContinuity s = ccErr (f w)" "WorstTransport s = tei (f w)"
    using ok by (auto simp: worst_ok_def)
  then have dw: "dirty (f w)" "w \<in> A" "w \<noteq> a" using new by (auto simp: worst_of_def)
  have wb: "worse a (f a) s = beats f a w" by (rule worse_beats) (use w dw in auto)
  show ?thesis
  proof (cases "dirty (f a) \<and> beats f a w")
    case True
    then have "worst_of f (insert a A) a" using w(1) beats_trans by (fastforce simp: worst_of_def)
    moreover have "s' = s\<lparr>WorstPID := a, WorstContinuity := ccErr (f a), WorstTransport := tei (f a)\<rparr>"
      using True s' wb by (auto simp: dirty_def)
    ultimately show ?thesis by (auto simp: worst_ok_def)
  next
    case no: False
    then have "worst_of f (insert a A) w" using w(1) dw beats_total [of w a f] by (auto simp: worst_of_def)
    moreover have "s' = s" using no s' wb by (auto simp: dirty_def)
    ultimately show ?thesis using w by (auto simp: worst_ok_def)
  qed
qed

lemma clock_step:
  assumes ok: "clock_sum_ok f A s t tp" and new: "a \<notin> A"
    and best: "best = (pcrs (f a) > t \<or> (pcrs (f a) = t \<and> pcrs (f a) > 0 \<and> a < tp))"
    and s': "Gaps s' = (if best then gaps (f a) else Gaps s)"
      "LostSeconds s' = (if best then of_nat (unat (lost (f a))) / 90000 else LostSeconds s)"
  shows "clock_sum_ok f (insert a A) s' (if best then pcrs (f a) else t) (if best then a else tp)"
proof (cases "\<forall>x \<in> A. pcrs (f x) = 0")
  case True
  then have "t = 0 \<and> Gaps s = 0 \<and> LostSeconds s = 0" using ok by (auto simp: clock_sum_ok_def clock_of_def)
  with True best s' show ?thesis by (cases "pcrs (f a) = 0") (auto simp: clock_sum_ok_def clock_of_def)
next
  case False
  then have k: "clock_of f A tp" "t = pcrs (f tp)" "Gaps s = gaps (f tp)"
      "LostSeconds s = of_nat (unat (lost (f tp))) / 90000"
    using ok by (auto simp: clock_sum_ok_def)
  have ne: "a \<noteq> tp" using k(1) new by (auto simp: clock_of_def)
  show ?thesis
  proof (cases best)
    case True
    then have "clock_of f (insert a A) a" using best k(1,2) by (fastforce simp: clock_of_def)
    with True s' show ?thesis by (simp add: clock_sum_ok_def)
  next
    case no: False
    then have "clock_of f (insert a A) tp"
      using best k(1,2) ne by (auto simp: clock_of_def)
    with no s' k show ?thesis by (simp add: clock_sum_ok_def)
  qed
qed

lemma summary_fold:
  fixes f :: "pid \<Rightarrow> pidStat" and s0 :: Summary
  assumes "distinct L"
    and "fold (\<lambda>pid. summaryStep (pid, f pid)) L (noSummary\<lparr>SyncLosses := n\<rparr>, 0, 0) = (s, t, tp)"
  shows "Packets s = (\<Sum>a\<in>set L. packets (f a)) \<and> ContinuityErrors s = (\<Sum>a\<in>set L. ccErr (f a)) \<and>
    TransportErrors s = (\<Sum>a\<in>set L. tei (f a)) \<and> SyncLosses s = n \<and>
    worst_ok f (set L) s \<and> clock_sum_ok f (set L) s t tp"
  using assms
proof (induction L arbitrary: s t tp rule: rev_induct)
  case Nil
  then show ?case by (auto simp: noSummary_def worst_ok_def clock_sum_ok_def)
next
  case (snoc a L)
  obtain s1 t1 tp1 where 1: "fold (\<lambda>pid. summaryStep (pid, f pid)) L (noSummary\<lparr>SyncLosses := n\<rparr>, 0, 0) = (s1, t1, tp1)"
    by (cases "fold (\<lambda>pid. summaryStep (pid, f pid)) L (noSummary\<lparr>SyncLosses := n\<rparr>, 0, 0)") auto
  have a: "a \<notin> set L" "distinct L" using snoc.prems by auto
  note ih = snoc.IH [OF a(2) 1]
  have st: "summaryStep (a, f a) (s1, t1, tp1) = (s, t, tp)" using snoc.prems(2) 1 by simp
  define best where "best = (pcrs (f a) > t1 \<or> (pcrs (f a) = t1 \<and> pcrs (f a) > 0 \<and> a < tp1))"
  define s2 where "s2 = (let u = s1\<lparr>Packets := Packets s1 + packets (f a), ContinuityErrors := ContinuityErrors s1 + ccErr (f a),
      TransportErrors := TransportErrors s1 + tei (f a)\<rparr> in
      if best then u\<lparr>Gaps := gaps (f a), LostSeconds := of_nat (unat (lost (f a))) / 90000\<rparr> else u)"
  let ?s3 = "if (ccErr (f a) = 0 \<and> tei (f a) = 0) \<or> \<not> worse a (f a) s2 then s2
      else s2\<lparr>WorstPID := a, WorstContinuity := ccErr (f a), WorstTransport := tei (f a)\<rparr>"
  have "summaryStep (a, f a) (s1, t1, tp1) = (?s3, if best then (pcrs (f a), a) else (t1, tp1))"
    by (simp only: summaryStep_def prod.case Let_def s2_def best_def)
  then have s: "s = ?s3" and tt: "(t, tp) = (if best then (pcrs (f a), a) else (t1, tp1))" using st by auto
  have "worst_ok f (set L) s2" using ih by (auto simp: worst_ok_def s2_def Let_def)
  from worst_step [OF this a(1) s] have w: "worst_ok f (set (L @ [a])) s" by simp
  have "clock_sum_ok f (insert a (set L)) s (if best then pcrs (f a) else t1) (if best then a else tp1)"
    by (rule clock_step [of f "set L" s1 t1 tp1 a best s, OF _ a(1) best_def]) (use ih s in \<open>auto simp: s2_def Let_def\<close>)
  then have k: "clock_sum_ok f (set (L @ [a])) s t tp" using tt by (cases best) simp_all
  have "Packets s = Packets s1 + packets (f a)" "ContinuityErrors s = ContinuityErrors s1 + ccErr (f a)"
    "TransportErrors s = TransportErrors s1 + tei (f a)" "SyncLosses s = SyncLosses s1"
    using s by (simp_all add: s2_def Let_def)
  with ih a w k show ?case by simp
qed

lemma beats_asym: "beats f a b \<Longrightarrow> \<not> beats f b a"
  by (auto simp: beats_def)

lemma worst_of_unique: "worst_of f A v \<Longrightarrow> worst_of f A w \<Longrightarrow> v = w"
  using beats_asym unfolding worst_of_def by blast

lemma clock_of_unique:
  assumes "clock_of f A v" "clock_of f A w"
  shows "v = w"
proof (rule ccontr)
  assume "v \<noteq> w"
  then have "pcrs (f w) < pcrs (f v) \<or> (pcrs (f w) = pcrs (f v) \<and> v < w)"
    "pcrs (f v) < pcrs (f w) \<or> (pcrs (f v) = pcrs (f w) \<and> w < v)"
    using assms \<open>v \<noteq> w\<close> by (auto simp only: clock_of_def)
  then show False by auto
qed

lemma worst_unique:
  assumes "worst_ok f A s" "worst_ok f A s'"
  shows "WorstPID s = WorstPID s' \<and> WorstContinuity s = WorstContinuity s' \<and> WorstTransport s = WorstTransport s'"
proof (cases "\<exists>w. worst_of f A w")
  case True
  then obtain w where w: "worst_of f A w" by blast
  have "WorstPID x = w \<and> WorstContinuity x = ccErr (f w) \<and> WorstTransport x = tei (f w)" if "worst_ok f A x" for x
    using that w worst_of_unique [OF w] unfolding worst_ok_def worst_of_def by blast
  with assms show ?thesis by simp
qed (use assms in \<open>auto simp: worst_ok_def\<close>)

lemma clock_unique:
  assumes "clock_sum_ok f A s t tp" "clock_sum_ok f A s' t' tp'"
  shows "Gaps s = Gaps s' \<and> LostSeconds s = LostSeconds s'"
proof (cases "clock_of f A tp \<and> clock_of f A tp'")
  case True
  then have "tp' = tp" using clock_of_unique by blast
  moreover have "\<not> (\<forall>a \<in> A. pcrs (f a) = 0)" using True by (auto simp: clock_of_def)
  ultimately show ?thesis using assms unfolding clock_sum_ok_def by auto
next
  case False
  then have "\<forall>a \<in> A. pcrs (f a) = 0" using assms unfolding clock_sum_ok_def by blast
  then have "\<not> clock_of f A tp" "\<not> clock_of f A tp'" by (auto simp: clock_of_def)
  with assms show ?thesis by (simp add: clock_sum_ok_def)
qed

lemma summary_unique:
  assumes "worst_ok f A s" "worst_ok f A s'" "clock_sum_ok f A s t tp" "clock_sum_ok f A s' t' tp'"
    "Packets s = Packets s'" "ContinuityErrors s = ContinuityErrors s'" "TransportErrors s = TransportErrors s'"
    "SyncLosses s = SyncLosses s'"
  shows "s = s'"
  using worst_unique [OF assms(1,2)] clock_unique [OF assms(3,4)] assms(5-8) by simp

subsection \<open>Streams in sync\<close>

lemma good_nth:
  "\<forall>p \<in> set gs. good p \<Longrightarrow> 188 * k < length (concat gs) \<Longrightarrow> concat gs ! (188 * k) = syncByte"
proof (induction gs arbitrary: k)
  case (Cons g gs)
  show ?case
  proof (cases k)
    case 0
    with Cons.prems show ?thesis by (cases g) auto
  next
    case (Suc j)
    have "188 * j < length (concat gs)" using Cons.prems Suc by simp
    from Cons.IH [OF _ this] Cons.prems Suc show ?thesis by (simp add: nth_append)
  qed
qed simp

lemma drain_in_sync:
  "\<forall>p \<in> set gs. good p \<Longrightarrow> buf c @ rest = concat gs \<Longrightarrow> \<not> notedLoss c \<Longrightarrow>
   syncLoss (drain c) = syncLoss c \<and> \<not> notedLoss (drain c) \<and>
   (\<exists>hs. (\<forall>p \<in> set hs. good p) \<and> buf (drain c) @ rest = concat hs)"
proof (induction c arbitrary: gs rule: drain.induct)
  case (1 c)
  let ?d = "(packet (take 188 (buf c)) c)\<lparr>buf := drop 188 (buf c), notedLoss := False, synced := True\<rparr>"
  have nth: "buf c ! (188 * k) = syncByte" if "188 * k < length (buf c)" for k
  proof -
    have "188 * k < length (concat gs)" using that "1.prems"(2) [symmetric] by simp
    from good_nth [OF "1.prems"(1) this] that "1.prems"(2) [symmetric] show ?thesis by (simp add: nth_append)
  qed
  have sync0: "locks (buf c) 0" if "376 < length (buf c)"
  proof -
    have "188 * 0 < length (buf c)" "188 * 1 < length (buf c)" "188 * 2 < length (buf c)" using that by auto
    from nth [OF this(1)] nth [OF this(2)] nth [OF this(3)] show ?thesis by (simp add: locks_def)
  qed
  have acq: "acquire c = (if length (buf c) < 377 then (False, c) else (True, c\<lparr>notedLoss := False, synced := True\<rparr>))"
  proof (cases "length (buf c) < 377")
    case False
    then have "find (locks (buf c)) [0..<length (buf c) - 376] = Some 0" using sync0 by (simp add: find_upt_Some)
    with False show ?thesis by (simp add: acquire_def Let_def)
  qed (simp add: acquire_def)
  obtain ok c1 where a: "(if synced c then (True, c) else acquire c) = (ok, c1)" by force
  have c1: "buf c1 = buf c" "syncLoss c1 = syncLoss c" "\<not> notedLoss c1" "ok \<longrightarrow> synced c1"
    using a acq "1.prems"(3) by (auto split: if_splits)
  show ?case
  proof (cases "\<not> ok \<or> length (buf c) < 188")
    case True
    then have "drain c = c1" using a c1(1) by (subst drain.simps) auto
    with c1 "1.prems" show ?thesis by (auto intro!: exI [of _ gs])
  next
    case False
    let ?d = "(packet (take 188 (buf c1)) c1)\<lparr>buf := drop 188 (buf c1), notedLoss := False\<rparr>"
    have ne: "188 * 0 < length (buf c)" using False by auto
    then have hd: "hd (buf c1) = syncByte" using nth [OF ne] c1(1) by (simp add: hd_conv_nth)
    have d: "drain c = drain ?d" using a False hd c1(1) by (subst drain.simps) auto
    obtain g gs' where gs: "gs = g # gs'" using "1.prems"(2) False by (cases gs) auto
    then have "take 188 (buf c @ rest) = g" "drop 188 (buf c @ rest) = concat gs'"
      using "1.prems"(1,2) by auto
    then have rest: "buf ?d @ rest = concat gs'" using False c1(1) by simp
    have "syncLoss (drain ?d) = syncLoss ?d \<and> \<not> notedLoss (drain ?d) \<and>
        (\<exists>hs. (\<forall>p \<in> set hs. good p) \<and> buf (drain ?d) @ rest = concat hs)"
      by (rule "1.IH"(2) [OF refl a [symmetric] _ _ _ _ rest]) (use False hd c1 gs "1.prems"(1) in auto)
    with d c1(2) show ?thesis by simp
  qed
qed

lemma writes_in_sync:
  "\<forall>p \<in> set gs. good p \<Longrightarrow> buf c @ concat ps = concat gs \<Longrightarrow> \<not> notedLoss c \<Longrightarrow>
   syncLoss (foldl (\<lambda>c p. Write p c) c ps) = syncLoss c"
proof (induction ps arbitrary: c gs)
  case (Cons p ps)
  show ?case
  proof (cases "p = []")
    case True
    with Cons show ?thesis by (simp add: Write_def)
  next
    case False
    have "buf (c\<lparr>buf := buf c @ p\<rparr>) @ concat ps = concat gs" using Cons.prems(2) by simp
    from drain_in_sync [OF Cons.prems(1) this] Cons.prems(3) obtain hs where d:
      "syncLoss (drain (c\<lparr>buf := buf c @ p\<rparr>)) = syncLoss c" "\<not> notedLoss (drain (c\<lparr>buf := buf c @ p\<rparr>))"
      "\<forall>p \<in> set hs. good p" "buf (drain (c\<lparr>buf := buf c @ p\<rparr>)) @ concat ps = concat hs" by auto
    from Cons.IH [OF d(3,4,2)] d(1) False show ?thesis by (simp add: Write_def)
  qed
qed simp

subsection \<open>Properties\<close>

abbreviation (input) written :: "bytes list \<Rightarrow> Counter" where
  "written ps \<equiv> foldl (\<lambda>c p. Write p c) newCounter ps"

lemma view_written: "view (written ps) = framed (newCounter\<lparr>buf := concat ps\<rparr>)"
proof -
  have "view (written ps) = view (Write (concat ps) newCounter)" by (rule ts.chunks_concat) simp
  also have "\<dots> = framed (newCounter\<lparr>buf := concat ps\<rparr>)"
  proof (cases "concat ps = []")
    case True
    then show ?thesis unfolding True
      by (simp add: Write_def framed_def view_def newCounter_def absorb_def frames.simps firstLock_def)
  next
    case False
    then show ?thesis by (simp only: Write_def if_False drain_framed) (simp add: newCounter_def)
  qed
  finally show ?thesis .
qed

lemma written_frames:
  assumes "frames False (concat ps) = (fs, s, r)"
  shows "buf (written ps) = r" "synced (written ps) = s" "pids (written ps) = pids (absorb newCounter fs)"
    "ccErrs (written ps) = ccErrs (absorb newCounter fs)"
proof -
  have "pids (absorb (newCounter\<lparr>buf := concat ps\<rparr>) fs) = pids (absorb newCounter fs) \<and>
      ccErrs (absorb (newCounter\<lparr>buf := concat ps\<rparr>) fs) = ccErrs (absorb newCounter fs)"
    by (rule absorb_cong) simp_all
  with view_written [of ps] assms show "buf (written ps) = r" "synced (written ps) = s"
    "pids (written ps) = pids (absorb newCounter fs)" "ccErrs (written ps) = ccErrs (absorb newCounter fs)"
    by (auto simp: view_def framed_def newCounter_def)
qed

text \<open>
  C7. The counter refines a framing of the whole byte stream: however the stream is cut into
  writes, its buffer, its lock and its counts per PID are those of the packets that \<open>frames\<close>
  finds in the bytes; each is a whole packet that starts with the sync byte, no byte is
  used twice, and never more than two packets' worth of bytes is kept.
\<close>

theorem ts_refines_frames:
  "case frames False (concat ps) of (fs, s, r) \<Rightarrow>
     buf (foldl (\<lambda>c p. Write p c) newCounter ps) = r \<and>
     synced (foldl (\<lambda>c p. Write p c) newCounter ps) = s \<and>
     pids (foldl (\<lambda>c p. Write p c) newCounter ps) = pids (absorb newCounter fs) \<and>
     (\<forall>p \<in> set fs. length p = 188 \<and> hd p = syncByte) \<and> length r \<le> 376 \<and>
     188 * length fs + length r \<le> length (concat ps)"
proof (cases "frames False (concat ps)")
  case (fields fs s r)
  from written_frames [OF fields] frames_sound [OF fields] fields show ?thesis by simp
qed

theorem ts_refines_frames_witness:
  "case frames False (concat [[1, 2 :: byte], [3]]) of (fs, s, r) \<Rightarrow>
     buf (foldl (\<lambda>c p. Write p c) newCounter [[1, 2], [3]]) = r \<and> r = [1, 2, 3] \<and> length r \<le> 376"
  using ts_refines_frames [of "[[1, 2], [3]]"] by (simp add: frames.simps firstLock_def)

text \<open>
  A stream of three or more packets that is in sync from its first byte, however it is
  cut: no sync loss is counted, every packet is counted once, in order, and no byte is left
  over.
\<close>

theorem in_sync_counts_all:
  assumes "3 \<le> length gs" "\<forall>g \<in> set gs. length g = 188 \<and> hd g = syncByte" "concat ps = concat gs"
  shows "syncLoss (foldl (\<lambda>c p. Write p c) newCounter ps) = 0 \<and>
    buf (foldl (\<lambda>c p. Write p c) newCounter ps) = [] \<and>
    pids (foldl (\<lambda>c p. Write p c) newCounter ps) = pids (fold packet gs newCounter)"
proof -
  have f: "frames False (concat ps) = (gs, True, [])" using frames_in_sync assms by simp
  have "syncLoss (written ps) = syncLoss newCounter"
    by (rule writes_in_sync [of gs]) (use assms in \<open>auto simp: newCounter_def\<close>)
  with written_frames [OF f] show ?thesis by (simp add: absorb_def newCounter_def)
qed


definition mk :: "byte \<Rightarrow> bytes" where
  "mk n = 0x47 # 0x01 # 0x00 # (0x10 OR n) # replicate 184 0"

definition gap_stream :: "bytes list" where
  "gap_stream = [mk 0, mk 1, mk 3]"

lemma gap_frames: "frames False (concat gap_stream) = (gap_stream, True, [])"
  by (rule frames_in_sync) (auto simp: gap_stream_def mk_def)

lemma mk_facts:
  "n \<in> {0, 1, 3} \<Longrightarrow> pktPid (mk n) = 0x100 \<and> plain (mk n) \<and> payload (mk n) \<and> \<not> damaged (mk n) \<and> counter_of (mk n) = unat n"
  by (auto simp: mk_def pktPid_def plain_def payload_def disc_def afc_def damaged_def counter_of_def)


text \<open>
  C9. The totals agree with the PIDs, and lost time needs lost packets: after any writes the
  total of continuity errors is the sum over the PIDs, every stored counter has four bits, and
  while no continuity error was seen no PID reports a gap or lost time, whatever its clock
  says.
\<close>

theorem ts_totals:
  assumes "c = foldl (\<lambda>c p. Write p c) newCounter ps"
  shows "finite (dom (pids c)) \<and> ccErrs c = (\<Sum>pid\<in>dom (pids c). ccErr (the (pids c pid))) \<and>
    (\<forall>pid st. pids c pid = Some st \<longrightarrow> cc st < 16 \<and> ccErr st \<le> packets st \<and> gaps st \<le> pcrs st \<and>
       (ccErrs c = 0 \<longrightarrow> gaps st = 0 \<and> lost st = 0))"
proof -
  obtain fs s r where f: "frames False (concat ps) = (fs, s, r)" by (cases "frames False (concat ps)") auto
  have ok: "counter_ok (absorb newCounter fs)" by (simp add: absorb_ok newCounter_ok)
  have "pids c = pids (absorb newCounter fs)" "ccErrs c = ccErrs (absorb newCounter fs)"
    using written_frames [OF f] assms by auto
  then show ?thesis using ok unfolding counter_ok_def stat_ok_def by simp
qed

theorem ts_totals_witness:
  "let c = foldl (\<lambda>c p. Write p c) newCounter gap_stream in
     ccErrs c = (\<Sum>pid\<in>dom (pids c). ccErr (the (pids c pid))) \<and> dom (pids c) \<noteq> {}"
proof -
  have "pids (absorb newCounter gap_stream) 0x100 \<noteq> None"
    using absorb_alone [of gap_stream "0x100"] by (simp add: gap_stream_def mk_facts)
  then have "dom (pids (written gap_stream)) \<noteq> {}" using written_frames(3) [OF gap_frames] by auto
  with ts_totals [of "written gap_stream" gap_stream, OF refl] show ?thesis unfolding Let_def by blast
qed

text \<open>
  The summary does not depend on the order in which the map is visited: for every order
  it is the same, its totals are the sums over the PIDs, the worst PID is the one dirty PID
  that beats every other (more continuity errors, then more transport errors, then the lower
  PID), and gaps and lost time are those of the PID whose clock ticked most.
\<close>

theorem summary_order_free:
  assumes "distinct order" "set order = dom (pids c)"
  shows "(let s = summaryOf order c; f = \<lambda>pid. the (pids c pid) in
     Packets s = (\<Sum>a\<in>dom (pids c). packets (f a)) \<and> ContinuityErrors s = (\<Sum>a\<in>dom (pids c). ccErr (f a)) \<and>
     TransportErrors s = (\<Sum>a\<in>dom (pids c). tei (f a)) \<and> SyncLosses s = syncLoss c \<and>
     (\<forall>w. worst_of f (dom (pids c)) w \<longrightarrow> WorstPID s = w \<and> WorstContinuity s = ccErr (f w) \<and> WorstTransport s = tei (f w)) \<and>
     ((\<forall>a \<in> dom (pids c). \<not> dirty (f a)) \<longrightarrow> WorstContinuity s = 0 \<and> WorstTransport s = 0) \<and>
     (\<forall>k. clock_of f (dom (pids c)) k \<longrightarrow> Gaps s = gaps (f k) \<and> LostSeconds s = of_nat (unat (lost (f k))) / 90000)) \<and>
     (\<forall>order'. distinct order' \<and> set order' = dom (pids c) \<longrightarrow> summaryOf order' c = summaryOf order c)"
proof -
  let ?f = "\<lambda>pid. the (pids c pid)" and ?A = "dom (pids c)"
  have run: "\<exists>t tp. Packets (summaryOf L c) = (\<Sum>a\<in>?A. packets (?f a)) \<and>
      ContinuityErrors (summaryOf L c) = (\<Sum>a\<in>?A. ccErr (?f a)) \<and>
      TransportErrors (summaryOf L c) = (\<Sum>a\<in>?A. tei (?f a)) \<and> SyncLosses (summaryOf L c) = syncLoss c \<and>
      worst_ok ?f ?A (summaryOf L c) \<and> clock_sum_ok ?f ?A (summaryOf L c) t tp"
    if "distinct L" "set L = ?A" for L
  proof -
    obtain s t tp where f: "fold (\<lambda>pid. summaryStep (pid, ?f pid)) L (noSummary\<lparr>SyncLosses := syncLoss c\<rparr>, 0, 0) = (s, t, tp)"
      by (cases "fold (\<lambda>pid. summaryStep (pid, ?f pid)) L (noSummary\<lparr>SyncLosses := syncLoss c\<rparr>, 0, 0)") auto
    then have "summaryOf L c = s" by (simp add: summaryOf_def)
    with summary_fold [OF that(1) f] that(2) show ?thesis by auto
  qed
  from run [OF assms] obtain t tp where o: "Packets (summaryOf order c) = (\<Sum>a\<in>?A. packets (?f a))"
      "ContinuityErrors (summaryOf order c) = (\<Sum>a\<in>?A. ccErr (?f a))"
      "TransportErrors (summaryOf order c) = (\<Sum>a\<in>?A. tei (?f a))" "SyncLosses (summaryOf order c) = syncLoss c"
      "worst_ok ?f ?A (summaryOf order c)" "clock_sum_ok ?f ?A (summaryOf order c) t tp" by auto
  have same: "summaryOf L c = summaryOf order c" if "distinct L" "set L = ?A" for L
    using run [OF that] o summary_unique [of ?f ?A "summaryOf L c" "summaryOf order c"] by metis
  have w: "WorstPID (summaryOf order c) = w \<and> WorstContinuity (summaryOf order c) = ccErr (?f w) \<and>
      WorstTransport (summaryOf order c) = tei (?f w)" if "worst_of ?f ?A w" for w
    using that o(5) worst_of_unique [OF that] unfolding worst_ok_def worst_of_def by blast
  have k: "Gaps (summaryOf order c) = gaps (?f k) \<and> LostSeconds (summaryOf order c) = of_nat (unat (lost (?f k))) / 90000"
    if "clock_of ?f ?A k" for k
  proof -
    have "\<not> (\<forall>a \<in> ?A. pcrs (?f a) = 0)" using that unfolding clock_of_def by (metis less_numeral_extra(3))
    with o(6) clock_of_unique [OF that, of tp] show ?thesis unfolding clock_sum_ok_def by blast
  qed
  have z: "WorstContinuity (summaryOf order c) = 0 \<and> WorstTransport (summaryOf order c) = 0" if "\<forall>a \<in> ?A. \<not> dirty (?f a)"
    using that o(5) unfolding worst_ok_def worst_of_def by blast
  show ?thesis unfolding Let_def using o(1-4) w k z same by blast
qed

definition two_pids :: Counter where
  "two_pids = newCounter\<lparr>pids := [1 \<mapsto> noStat\<lparr>packets := 5, ccErr := 2\<rparr>, 2 \<mapsto> noStat\<lparr>packets := 3, ccErr := 2, tei := 1\<rparr>]\<rparr>"

lemma drain_two_packets:
  assumes "synced c" "length (buf c) = 377" "buf c ! 0 = syncByte" "buf c ! 188 = syncByte"
  shows "syncLoss (drain c) = syncLoss c"
proof -
  have ne: "buf c \<noteq> []" using assms(2) by auto
  let ?d = "(packet (take 188 (buf c)) c)\<lparr>buf := drop 188 (buf c), notedLoss := False\<rparr>"
  have 1: "drain c = drain ?d" using assms ne by (subst drain.simps) (simp add: hd_conv_nth)
  let ?e = "(packet (take 188 (buf ?d)) ?d)\<lparr>buf := drop 188 (buf ?d), notedLoss := False\<rparr>"
  have 2: "drain ?d = drain ?e" using assms by (subst drain.simps) (simp add: hd_drop_conv_nth)
  have 3: "drain ?e = ?e" using assms by (subst drain.simps) simp
  show ?thesis unfolding 1 2 3 by simp
qed

text \<open>
  C10. Where the counter falls short of its own comment. \<^verbatim>\<open>acquire\<close> is documented to take the
  bytes before a lock as one lost sync. For one byte \<open>x\<close> of garbage before a lock that holds
  when both arrive in one write; when the write ends before the third sync byte, \<^verbatim>\<open>acquire\<close>
  drops the garbage without counting it, and the lock that follows, now at the first byte of
  what is left, counts nothing. The same stream gives one loss or none.
\<close>

theorem sync_loss_depends_on_cut:
  assumes x: "x \<noteq> syncByte" and t: "length t = 377" "locks t 0"
  shows "syncLoss (Write (x # t) newCounter) = 1 \<and>
    syncLoss (Write [last t] (Write (x # butlast t) newCounter)) = 0"
proof
  have lk: "t ! 0 = syncByte" "t ! 188 = syncByte" "t ! 376 = syncByte" using t(2) by (auto simp: locks_def)
  have "locks (x # t) 1" "\<not> locks (x # t) 0" using x lk by (auto simp: locks_def)
  then have f: "find (locks (x # t)) [0..<2] = Some 1" by (auto simp: find_upt_Some less_Suc_eq numeral_2_eq_2)
  let ?c = "newCounter\<lparr>buf := t, synced := True, syncLoss := 1\<rparr>"
  have a: "acquire (newCounter\<lparr>buf := x # t\<rparr>) = (True, ?c)"
    using t f by (simp add: acquire_def Let_def newCounter_def)
  have "drain (newCounter\<lparr>buf := x # t\<rparr>) = drain ?c"
    using t lk a by (subst (1 2) drain.simps) (simp add: newCounter_def)
  then show "syncLoss (Write (x # t) newCounter) = 1"
    using drain_two_packets [of ?c] t lk by (simp add: Write_def newCounter_def)
  have "t \<noteq> []" using t by auto
  then have tb: "butlast t @ [last t] = t" by simp
  have "\<not> locks (x # butlast t) 0" using x by (simp add: locks_def)
  then have "acquire (newCounter\<lparr>buf := x # butlast t\<rparr>) = (False, newCounter\<lparr>buf := butlast t\<rparr>)"
    using t by (simp add: acquire_def Let_def)
  then have d1: "Write (x # butlast t) newCounter = newCounter\<lparr>buf := butlast t\<rparr>"
    by (simp add: Write_def drain.simps newCounter_def)
  let ?e = "newCounter\<lparr>buf := t, synced := True\<rparr>"
  have "find (locks t) [0..<1] = Some 0" using t by simp
  then have "acquire (newCounter\<lparr>buf := t\<rparr>) = (True, ?e)" using t by (simp add: acquire_def Let_def newCounter_def)
  then have "drain (newCounter\<lparr>buf := t\<rparr>) = drain ?e"
    by (subst (1 2) drain.simps) (simp add: newCounter_def)
  then show "syncLoss (Write [last t] (Write (x # butlast t) newCounter)) = 0"
    using drain_two_packets [of ?e] t lk tb d1 by (simp add: Write_def newCounter_def)
qed

theorem sync_loss_depends_on_cut_witness:
  "syncLoss (Write (0 # replicate 377 0x47) newCounter) = 1 \<and>
   syncLoss (Write [0x47] (Write (0 # replicate 376 0x47) newCounter)) = 0"
proof -
  have "locks (replicate 377 syncByte) 0" by (simp add: locks_def)
  moreover have "butlast (replicate 377 syncByte) = replicate 376 syncByte" by (simp add: butlast_conv_take)
  moreover have "last (replicate 377 syncByte) = syncByte" by simp
  ultimately show ?thesis using sync_loss_depends_on_cut [of 0 "replicate 377 syncByte"] by simp
qed

end
