(* ===== verification/Captions.thy ===== *)
theory Captions
  imports Prelude
begin

text \<open>
  The caption reader of \<^verbatim>\<open>server/internal/captions\<close>: \<^verbatim>\<open>cc.go\<close> (caption bytes in MPEG-2 user data
  and H.264 SEI messages) and \<^verbatim>\<open>ts.go\<close> (the transport-stream reader with its reorder buffer).

  Where the code indexes or slices a byte slice the model does so in the option monad, and
  None is the panic of an index out of range. The callback \<^verbatim>\<open>fn\<close> is the list \<open>emitted\<close> of the
  pictures it was given, in order. Lengths and offsets are naturals; PIDs are integers since
  the code uses -1 for "not known yet".
\<close>

subsection \<open>Searching\<close>

text \<open>\<^verbatim>\<open>bytes.Index\<close>: where a pattern that is not empty first occurs.\<close>

fun bytes_Index :: "'a list \<Rightarrow> 'a list \<Rightarrow> nat option" where
  "bytes_Index [] pat = None"
| "bytes_Index (x # xs) pat =
     (if take (length pat) (x # xs) = pat then Some 0 else map_option Suc (bytes_Index xs pat))"

lemma bytes_Index_len: "bytes_Index es pat = Some i \<Longrightarrow> i + length pat \<le> length es \<and> i < length es"
proof (induction es arbitrary: i)
  case (Cons x xs)
  show ?case
  proof (cases "take (length pat) (x # xs) = pat")
    case True
    then have "length pat \<le> length (x # xs)" by (metis length_take min.cobounded1)
    with True Cons.prems show ?thesis by auto
  next
    case False
    with Cons show ?thesis by fastforce
  qed
qed simp

subsection \<open>cc.go\<close>

definition ga94 :: bytes where
  "ga94 = [0x47, 0x41, 0x39, 0x34]"

fun ccLoop :: "nat \<Rightarrow> bytes \<Rightarrow> bytes \<Rightarrow> bytes" where
  "ccLoop (Suc n) (x # y # z # rest) out =
     ccLoop n rest (if x AND 0x04 \<noteq> 0 \<and> x AND 0x03 = 0 then out @ [y AND 0x7f, z AND 0x7f] else out)"
| "ccLoop _ _ out = out"

fun ccData :: "bytes \<Rightarrow> bytes \<Rightarrow> bytes" where
  "ccData (h # _ # b) out = (if h AND 0x40 = 0 then out else ccLoop (unat (h AND 0x1f)) b out)"
| "ccData _ out = out"

function fromMPEG2_from :: "bytes \<Rightarrow> bytes \<Rightarrow> bytes" where
  "fromMPEG2_from es out =
     (case bytes_Index es [0, 0, 1, 0xb2] of
        None \<Rightarrow> out
      | Some i \<Rightarrow>
          let es' = drop (i + 4) es
          in fromMPEG2_from es'
               (if length es' > 5 \<and> take 4 es' = ga94 \<and> es' ! 4 = 0x03 then ccData (drop 5 es') out else out))"
  by pat_completeness auto
termination
  by (relation "measure (\<lambda>(es, out). length es)") (auto dest!: bytes_Index_len)

definition fromMPEG2 :: "bytes \<Rightarrow> bytes" where
  "fromMPEG2 es = fromMPEG2_from es []"

text \<open>A number of an SEI message: a run of 0xff, each worth 255, and one more byte. None at the end of the data.\<close>

fun seiNumber :: "bytes \<Rightarrow> nat \<Rightarrow> (nat \<times> bytes) option" where
  "seiNumber [] acc = None"
| "seiNumber (x # b) acc = (if x = 0xff then seiNumber b (acc + 255) else Some (acc + unat x, b))"

lemma seiNumber_len: "seiNumber b acc = Some (n, r) \<Longrightarrow> length r < length b"
  by (induction b acc rule: seiNumber.induct) (auto split: if_splits)

definition seiMessage :: "nat \<Rightarrow> bytes \<Rightarrow> bytes \<Rightarrow> bytes" where
  "seiMessage kind msg out =
     (if kind = 4 \<and> length msg > 8 \<and> msg ! 0 = 0xb5 \<and> msg ! 1 = 0x00 \<and> msg ! 2 = 0x31
         \<and> take 4 (drop 3 msg) = ga94 \<and> msg ! 7 = 0x03
      then ccData (drop 8 msg) out else out)"

function seiCaptions :: "bytes \<Rightarrow> bytes \<Rightarrow> bytes" where
  "seiCaptions b out =
     (if length b > 2 then
        case seiNumber b 0 of
          None \<Rightarrow> out
        | Some (kind, b1) \<Rightarrow>
            (case seiNumber b1 0 of
               None \<Rightarrow> out
             | Some (sz, b2) \<Rightarrow>
                 if sz > length b2 then out
                 else seiCaptions (drop sz b2) (seiMessage kind (take sz b2) out))
      else out)"
  by pat_completeness auto
termination
  by (relation "measure (\<lambda>(b, out). length b)") (auto dest!: seiNumber_len)

fun unescapeLoop :: "nat \<Rightarrow> bytes \<Rightarrow> bytes" where
  "unescapeLoop zeros [] = []"
| "unescapeLoop zeros (c # b) =
     (if zeros \<ge> 2 \<and> c = 3 then unescapeLoop 0 b
      else c # unescapeLoop (if c = 0 then zeros + 1 else 0) b)"

definition unescape :: "bytes \<Rightarrow> bytes" where
  "unescape b = (if bytes_Index b [0, 0, 3] = None then b else unescapeLoop 0 b)"

function fromH264_from :: "bytes \<Rightarrow> bytes \<Rightarrow> bytes" where
  "fromH264_from es out =
     (case bytes_Index es [0, 0, 1] of
        None \<Rightarrow> out
      | Some i \<Rightarrow>
          if i + 3 \<ge> length es then out
          else
            let es' = drop (i + 3) es
            in if hd es' AND 0x1f \<noteq> 6 then fromH264_from es' out
               else
                 let n = (case bytes_Index es' [0, 0, 1] of None \<Rightarrow> length es' | Some n \<Rightarrow> n)
                 in fromH264_from es' (seiCaptions (unescape (take (n - 1) (drop 1 es'))) out))"
  by pat_completeness auto
termination
  by (relation "measure (\<lambda>(es, out). length es)") (auto dest!: bytes_Index_len)

declare fromMPEG2_from.simps [simp del] seiCaptions.simps [simp del] fromH264_from.simps [simp del]

definition fromH264 :: "bytes \<Rightarrow> bytes" where
  "fromH264 es = fromH264_from es []"

subsection \<open>ts.go: state\<close>

record picture =
  pts :: int
  ccb :: bytes

record Reader =
  program :: nat
  carry :: bytes
  pmtPID :: int
  video :: int
  kind :: nat
  pes :: bytes
  held :: "picture list"
  emitted :: "picture list"

abbreviation (input) streamMPEG2 :: nat where "streamMPEG2 \<equiv> 0x02"
abbreviation (input) streamH264 :: nat where "streamH264 \<equiv> 0x1b"
abbreviation (input) reorderDepth :: nat where "reorderDepth \<equiv> 8"
abbreviation (input) breakBack :: int where "breakBack \<equiv> 90000"
abbreviation (input) breakAhead :: int where "breakAhead \<equiv> 10 * 90000"
abbreviation (input) maxPES :: nat where "maxPES \<equiv> 4 * 2 ^ 20"

definition NewReader :: "nat \<Rightarrow> Reader" where
  "NewReader p = \<lparr>program = p, carry = [], pmtPID = - 1, video = - 1, kind = 0, pes = [], held = [], emitted = []\<rparr>"

text \<open>\<^verbatim>\<open>a - b\<close> on the 33-bit clock.\<close>

definition ptsDelta :: "int \<Rightarrow> int \<Rightarrow> int" where
  "ptsDelta a b = (let d = (a - b) AND (push_bit 33 1 - 1) in if d \<ge> push_bit 32 1 then d - push_bit 33 1 else d)"

subsection \<open>The reorder buffer\<close>

definition firstShown :: "picture list \<Rightarrow> nat" where
  "firstShown ps = fold (\<lambda>i first. if ptsDelta (pts (ps ! i)) (pts (ps ! first)) < 0 then i else first) [1..<length ps] 0"

definition emit :: "Reader \<Rightarrow> Reader option" where
  "emit r = do {
     let first = firstShown (held r);
     pic \<leftarrow> idx (held r) first;
     Some (r\<lparr>held := take first (held r) @ drop (first + 1) (held r), emitted := emitted r @ [pic]\<rparr>)
   }"

lemma firstShown_less: "ps \<noteq> [] \<Longrightarrow> firstShown ps < length ps"
proof -
  assume "ps \<noteq> []"
  have "fold (\<lambda>i first. if Q i first then i else first) xs a < n" if "\<forall>i \<in> set xs. i < n" "a < n" for Q xs n and a :: nat
    using that by (induction xs arbitrary: a) auto
  then show ?thesis unfolding firstShown_def using \<open>ps \<noteq> []\<close> by auto
qed

lemma emit_shorter: "emit r = Some r' \<Longrightarrow> length (held r') < length (held r)"
  by (auto simp: emit_def idx_def Let_def split: if_splits)

function emitAll :: "Reader \<Rightarrow> Reader option" where
  "emitAll r = (if held r = [] then Some r else (case emit r of None \<Rightarrow> None | Some r' \<Rightarrow> emitAll r'))"
  by pat_completeness auto
termination
  by (relation "measure (\<lambda>r. length (held r))") (auto dest: emit_shorter)

declare emitAll.simps [simp del]

text \<open>The end of \<^verbatim>\<open>endPES\<close>: a new picture goes into the reorder buffer.\<close>

definition hold :: "picture \<Rightarrow> Reader \<Rightarrow> Reader option" where
  "hold pic r = do {
     r1 \<leftarrow> (if held r \<noteq> [] \<and> (let d = ptsDelta (pts pic) (pts (last (held r))) in d < - breakBack \<or> d > breakAhead)
           then emitAll r else Some r);
     let r2 = r1\<lparr>held := held r1 @ [pic]\<rparr>;
     (if length (held r2) > reorderDepth then emit r2 else Some r2)
   }"

definition readPTS :: "byte \<Rightarrow> byte \<Rightarrow> byte \<Rightarrow> byte \<Rightarrow> byte \<Rightarrow> int" where
  "readPTS a b c d e =
     push_bit 30 (uint (drop_bit 1 a AND 0x07)) OR push_bit 22 (uint b) OR push_bit 15 (uint (drop_bit 1 c))
     OR push_bit 7 (uint d) OR uint (drop_bit 1 e)"

definition endPES :: "Reader \<Rightarrow> Reader option" where
  "endPES r =
     (let b = pes r; r0 = r\<lparr>pes := []\<rparr> in
      if length b < 14 then Some r0
      else do {
        b0 \<leftarrow> idx b 0; b1 \<leftarrow> idx b 1; b2 \<leftarrow> idx b 2; b7 \<leftarrow> idx b 7;
        if b0 \<noteq> 0 \<or> b1 \<noteq> 0 \<or> b2 \<noteq> 1 \<or> b7 AND 0x80 = 0 then Some r0
        else do {
          b8 \<leftarrow> idx b 8;
          let payload = 9 + unat b8;
          if payload > length b then Some r0
          else do {
            b9 \<leftarrow> idx b 9; b10 \<leftarrow> idx b 10; b11 \<leftarrow> idx b 11; b12 \<leftarrow> idx b 12; b13 \<leftarrow> idx b 13;
            es \<leftarrow> slice_from b payload;
            hold \<lparr>pts = readPTS b9 b10 b11 b12 b13,
                  ccb = (if kind r = streamH264 then fromH264 es else fromMPEG2 es)\<rparr> r0
          }
        }
      })"

subsection \<open>Tables and packets\<close>

text \<open>None inside is the nil slice the code returns; None outside is a panic.\<close>

definition section_of :: "bytes \<Rightarrow> bytes option option" where
  "section_of body =
     (if body = [] then Some None
      else do {
        b0 \<leftarrow> idx body 0;
        if unat b0 + 1 > length body then Some None
        else do {
          sec \<leftarrow> slice_from body (1 + unat b0);
          if length sec < 12 then Some None
          else do {
            s1 \<leftarrow> idx sec 1; s2 \<leftarrow> idx sec 2;
            let n = 3 + int (be16 (s1 AND 0x0f) s2) - 4;
            if n > int (length sec) \<or> n < 12 then Some None
            else do { t \<leftarrow> slice_to sec (nat n); Some (Some t) }
          }
        }
      })"

function patLoop :: "bytes \<Rightarrow> nat \<Rightarrow> Reader \<Rightarrow> Reader option" where
  "patLoop sec off r =
     (if off + 4 \<le> length sec then do {
        a \<leftarrow> idx sec off; b \<leftarrow> idx sec (off + 1);
        let prog = be16 a b;
        if prog = 0 \<or> (program r \<noteq> 0 \<and> prog \<noteq> program r) then patLoop sec (off + 4) r
        else do {
          c \<leftarrow> idx sec (off + 2); d \<leftarrow> idx sec (off + 3);
          Some (r\<lparr>pmtPID := int (be16 (c AND 0x1f) d)\<rparr>)
        }
      } else Some r)"
  by pat_completeness auto
termination
  by (relation "measure (\<lambda>(sec, off, r). length sec - off)") auto

definition pat :: "bytes \<Rightarrow> Reader \<Rightarrow> Reader option" where
  "pat body r = do {
     sec \<leftarrow> section_of body;
     (case sec of
        None \<Rightarrow> Some r
      | Some s \<Rightarrow> do { t \<leftarrow> idx s 0; if t \<noteq> 0x00 then Some r else patLoop s 8 r })
   }"

function pmtLoop :: "bytes \<Rightarrow> nat \<Rightarrow> Reader \<Rightarrow> Reader option" where
  "pmtLoop sec off r =
     (if off + 5 \<le> length sec then do {
        k \<leftarrow> idx sec off; a \<leftarrow> idx sec (off + 1); b \<leftarrow> idx sec (off + 2);
        c \<leftarrow> idx sec (off + 3); d \<leftarrow> idx sec (off + 4);
        let pid = int (be16 (a AND 0x1f) b);
        let off' = off + 5 + be16 (c AND 0x0f) d;
        if unat k \<noteq> streamMPEG2 \<and> unat k \<noteq> streamH264 then pmtLoop sec off' r
        else Some (r\<lparr>pes := (if pid \<noteq> video r then [] else pes r), video := pid, kind := unat k\<rparr>)
      } else Some r)"
  by pat_completeness auto
termination
  by (relation "measure (\<lambda>(sec, off, r). length sec - off)") auto

declare patLoop.simps [simp del] pmtLoop.simps [simp del]

definition pmt :: "bytes \<Rightarrow> Reader \<Rightarrow> Reader option" where
  "pmt body r = do {
     sec \<leftarrow> section_of body;
     (case sec of
        None \<Rightarrow> Some r
      | Some s \<Rightarrow> do {
          t \<leftarrow> idx s 0;
          if t \<noteq> 0x02 then Some r
          else do { a \<leftarrow> idx s 10; b \<leftarrow> idx s 11; pmtLoop s (12 + be16 (a AND 0x0f) b) r }
        })
   }"

text \<open>The body of a packet: None inside when the packet carries none.\<close>

definition packetBody :: "bytes \<Rightarrow> bytes option option" where
  "packetBody pkt = do {
     p3 \<leftarrow> idx pkt 3;
     let afc = drop_bit 4 p3 AND 0x3;
     if afc = 0 \<or> afc = 2 then Some None
     else do {
       body \<leftarrow> slice_from pkt 4;
       if afc = 3 then do {
         p4 \<leftarrow> idx pkt 4;
         if 1 + unat p4 > length body then Some None
         else do { b \<leftarrow> slice_from body (1 + unat p4); Some (Some b) }
       } else Some (Some body)
     }
   }"

definition packet :: "bytes \<Rightarrow> Reader \<Rightarrow> Reader option" where
  "packet pkt r = do {
     p1 \<leftarrow> idx pkt 1; p2 \<leftarrow> idx pkt 2;
     let pid = int (be16 (p1 AND 0x1f) p2);
     let start = (p1 AND 0x40 \<noteq> 0);
     bo \<leftarrow> packetBody pkt;
     (case bo of
        None \<Rightarrow> Some r
      | Some body \<Rightarrow>
          if pid = 0 \<and> start then pat body r
          else if pid = pmtPID r \<and> start then pmt body r
          else if pid = video r then
            (if start then do { r1 \<leftarrow> endPES r; Some (r1\<lparr>pes := body\<rparr>) }
             else if length (pes r) > 0 \<and> length (pes r) < maxPES then Some (r\<lparr>pes := pes r @ body\<rparr>)
             else Some r)
          else Some r)
   }"

function scan :: "bytes \<Rightarrow> Reader \<Rightarrow> Reader option" where
  "scan data r =
     (if 188 \<le> length data then
        (if hd data \<noteq> 0x47 then scan (tl data) r
         else (case packet (take 188 data) r of None \<Rightarrow> None | Some r' \<Rightarrow> scan (drop 188 data) r'))
      else Some (r\<lparr>carry := data\<rparr>))"
  by pat_completeness auto
termination
  by (relation "measure (\<lambda>(data, r). length data)") auto

declare scan.simps [simp del]

text \<open>\<^verbatim>\<open>off\<close> of the source is how much of \<open>data\<close> has been taken off its front.\<close>

definition Write :: "bytes \<Rightarrow> Reader \<Rightarrow> Reader option" where
  "Write p r = scan (carry r @ p) (r\<lparr>carry := []\<rparr>)"

definition Flush :: "Reader \<Rightarrow> Reader option" where
  "Flush r = do { r1 \<leftarrow> endPES r; emitAll r1 }"

end
