(* ===== verification/CaptionDecoder.thy ===== *)
theory CaptionDecoder
  imports Captions
begin

text \<open>
  The CEA-608 decoder of \<^verbatim>\<open>server/internal/captions/decoder.go\<close> and the WebVTT writer of
  \<^verbatim>\<open>vtt.go\<close>. A rune is its code point, a string the list of its runes (Go's strings are the
  UTF-8 bytes of it). The two screens are lists of rows; an index out of range, which would
  panic, sets \<open>panicked\<close>.
\<close>

subsection \<open>State\<close>

type_synonym rune = nat
type_synonym screen = "rune list list"

abbreviation (input) rows :: nat where "rows \<equiv> 15"
abbreviation (input) cols :: nat where "cols \<equiv> 32"
abbreviation (input) shownEvery :: int where "shownEvery \<equiv> 18000"

datatype mode = popOn | rollUp | paintOn

record Cue =
  Start :: int
  End :: int
  Text :: "rune list"
  Top :: bool

record Decoder =
  shown :: screen
  hidden :: screen
  dmode :: mode
  depth :: nat
  row :: nat
  col :: nat
  channel :: nat
  textSvc :: bool
  lastPair :: "byte \<times> byte"
  open_cue :: bool
  cue :: Cue
  done_cues :: "Cue list"
  typedAt :: int
  typed :: bool
  waiting :: bool
  panicked :: bool

definition blankRow :: "rune list" where
  "blankRow = replicate cols 0"

definition blank :: screen where
  "blank = replicate rows blankRow"

definition NewDecoder :: Decoder where
  "NewDecoder = \<lparr>shown = blank, hidden = blank, dmode = popOn, depth = 3, row = rows - 1, col = 0, channel = 1,
     textSvc = False, lastPair = (0, 0), open_cue = False, cue = \<lparr>Start = 0, End = 0, Text = [], Top = False\<rparr>,
     done_cues = [], typedAt = 0, typed = False, waiting = False, panicked = False\<rparr>"

subsection \<open>Characters\<close>

definition basic :: "byte \<Rightarrow> rune" where
  "basic b =
     (if b = 0x27 then 0x2019 else if b = 0x2a then 0xe1 else if b = 0x5c then 0xe9 else if b = 0x5e then 0xed
      else if b = 0x5f then 0xf3 else if b = 0x60 then 0xfa else if b = 0x7b then 0xe7 else if b = 0x7c then 0xf7
      else if b = 0x7d then 0xd1 else if b = 0x7e then 0xf1 else if b = 0x7f then 0x2588 else unat b)"

definition special :: "rune list" where
  "special = [0xae, 0xb0, 0xbd, 0xbf, 0x2122, 0xa2, 0xa3, 0x266a, 0xe0, 0x20, 0xe8, 0xe2, 0xea, 0xee, 0xf4, 0xfb]"

definition extended12 :: "rune list" where
  "extended12 =
    [0xc1, 0xc9, 0xd3, 0xda, 0xdc, 0xfc, 0x2018, 0xa1, 0x2a, 0x27, 0x2014, 0xa9, 0x2120, 0x2022, 0x201c, 0x201d,
     0xc0, 0xc2, 0xc7, 0xc8, 0xca, 0xcb, 0xeb, 0xce, 0xcf, 0xef, 0xd4, 0xd9, 0xf9, 0xdb, 0xab, 0xbb]"

definition extended13 :: "rune list" where
  "extended13 =
    [0xc3, 0xe3, 0xcd, 0xcc, 0xec, 0xd2, 0xf2, 0xd5, 0xf5, 0x7b, 0x7d, 0x5c, 0x5e, 0x5f, 0x7c, 0x7e,
     0xc4, 0xe4, 0xd6, 0xf6, 0xdf, 0xa5, 0xa4, 0xa6, 0xc5, 0xe5, 0xd8, 0xf8, 0x250c, 0x2510, 0x2514, 0x2518]"

definition isSpace :: "rune \<Rightarrow> bool" where
  "isSpace c \<longleftrightarrow> (9 \<le> c \<and> c \<le> 13) \<or> (0x2000 \<le> c \<and> c \<le> 0x200a) \<or>
     c \<in> {0x20, 0x85, 0xa0, 0x1680, 0x2028, 0x2029, 0x202f, 0x205f, 0x3000}"

definition trimRunes :: "rune list \<Rightarrow> rune list" where
  "trimRunes s = rev (dropWhile isSpace (rev (dropWhile isSpace s)))"

subsection \<open>Cues\<close>

definition lineOf :: "rune list \<Rightarrow> rune list" where
  "lineOf r = trimRunes (map (\<lambda>c. if c = 0 then 0x20 else c) r)"

fun join_nl :: "rune list list \<Rightarrow> rune list" where
  "join_nl [] = []"
| "join_nl [l] = l"
| "join_nl (l # m # ls) = l @ 0x0a # join_nl (m # ls)"

definition render :: "screen \<Rightarrow> rune list \<times> bool" where
  "render s =
     (let used = filter (\<lambda>(r, l). l \<noteq> []) (enumerate 0 (map lineOf s))
      in (join_nl (map snd used), case used of [] \<Rightarrow> False | (first, _) # _ \<Rightarrow> first < rows div 2))"

definition endCue :: "int \<Rightarrow> Decoder \<Rightarrow> Decoder" where
  "endCue t d =
     (if \<not> open_cue d then d
      else
        let d1 = d\<lparr>open_cue := False\<rparr> in
        if ptsDelta t (Start (cue d1)) \<le> 0 then d1
        else let c = (cue d1)\<lparr>End := t\<rparr> in d1\<lparr>cue := c, done_cues := done_cues d1 @ [c]\<rparr>)"

definition show_now :: "int \<Rightarrow> Decoder \<Rightarrow> Decoder" where
  "show_now t d =
     (let d1 = d\<lparr>waiting := False\<rparr>; (txt, top) = render (shown d1) in
      if open_cue d1 \<and> txt = Text (cue d1) then d1
      else
        let d2 = endCue t d1 in
        if txt = [] then d2
        else d2\<lparr>open_cue := True, cue := \<lparr>Start = t, End = 0, Text = txt, Top = top\<rparr>\<rparr>)"

definition soon :: "int \<Rightarrow> Decoder \<Rightarrow> bool" where
  "soon t d \<longleftrightarrow> (let delta = ptsDelta t (typedAt d) in delta \<ge> 0 \<and> delta < shownEvery)"

definition touch :: "int \<Rightarrow> Decoder \<Rightarrow> Decoder" where
  "touch t d =
     (if dmode d = popOn \<or> waiting d then d
      else if typed d \<and> soon t d then d\<lparr>waiting := True\<rparr>
      else show_now t (d\<lparr>typed := True, typedAt := t\<rparr>))"

definition due :: "int \<Rightarrow> Decoder \<Rightarrow> Decoder" where
  "due t d = (if waiting d \<and> \<not> soon t d then show_now t (d\<lparr>typedAt := t\<rparr>) else d)"

subsection \<open>Screen memory\<close>

definition target :: "(screen \<Rightarrow> screen) \<Rightarrow> Decoder \<Rightarrow> Decoder" where
  "target f d = (if dmode d = popOn then d\<lparr>hidden := f (hidden d)\<rparr> else d\<lparr>shown := f (shown d)\<rparr>)"

definition setCell :: "nat \<Rightarrow> nat \<Rightarrow> rune \<Rightarrow> screen \<Rightarrow> screen" where
  "setCell r c v s = s[r := (s ! r)[c := v]]"

definition put :: "rune \<Rightarrow> Decoder \<Rightarrow> Decoder" where
  "put v d =
     (if row d < rows \<and> col d < cols then
        let d1 = target (setCell (row d) (col d) v) d
        in if col d1 < cols - 1 then d1\<lparr>col := col d1 + 1\<rparr> else d1
      else d\<lparr>panicked := True\<rparr>)"

definition pacRows :: "byte \<Rightarrow> (nat \<times> nat) option" where
  "pacRows b =
     map_of [(0x11, (0, 1)), (0x12, (2, 3)), (0x15, (4, 5)), (0x16, (6, 7)), (0x17, (8, 9)),
             (0x10, (10, 10)), (0x13, (11, 12)), (0x14, (13, 14))] b"

definition moveWindow :: "nat \<Rightarrow> Decoder \<Rightarrow> Decoder" where
  "moveWindow new d =
     (if row d < rows \<and> new < rows then
        d\<lparr>shown := fold (\<lambda>i moved. if i \<le> row d \<and> i \<le> new then moved[new - i := shown d ! (row d - i)] else moved)
                    [0..<depth d] blank\<rparr>
      else d\<lparr>panicked := True\<rparr>)"

definition pac :: "byte \<Rightarrow> byte \<Rightarrow> Decoder \<Rightarrow> Decoder" where
  "pac b1 b2 d =
     (case pacRows b1 of
        None \<Rightarrow> d
      | Some (p, q) \<Rightarrow>
          let new = (if b2 AND 0x20 \<noteq> 0 then q else p);
              d1 = (if dmode d = rollUp \<and> new \<noteq> row d then moveWindow new d else d)
          in d1\<lparr>row := new, col := (if b2 AND 0x10 \<noteq> 0 then drop_bit 1 (unat (b2 AND 0x0e)) * 4 else 0)\<rparr>)"

subsection \<open>Commands\<close>

definition backspace :: "int \<Rightarrow> Decoder \<Rightarrow> Decoder" where
  "backspace t d =
     (if col d > 0 then
        let d1 = d\<lparr>col := col d - 1\<rparr>
        in if row d1 < rows \<and> col d1 < cols then touch t (target (setCell (row d1) (col d1) 0) d1)
           else d1\<lparr>panicked := True\<rparr>
      else d)"

definition deleteToEnd :: "int \<Rightarrow> Decoder \<Rightarrow> Decoder" where
  "deleteToEnd t d =
     (if row d < rows \<or> col d \<ge> cols then
        touch t (target (\<lambda>s. fold (\<lambda>c. setCell (row d) c 0) [col d..<cols] s) d)
      else d\<lparr>panicked := True\<rparr>)"

definition rollUpMode :: "int \<Rightarrow> byte \<Rightarrow> Decoder \<Rightarrow> Decoder" where
  "rollUpMode t b2 d =
     (let d1 = (if dmode d \<noteq> rollUp then show_now t (d\<lparr>shown := blank, hidden := blank, row := rows - 1\<rparr>) else d)
      in d1\<lparr>dmode := rollUp, textSvc := False, depth := unat (b2 - 0x25) + 2, col := 0, typed := False\<rparr>)"

definition carriageReturn :: "int \<Rightarrow> Decoder \<Rightarrow> Decoder" where
  "carriageReturn t d =
     (if dmode d \<noteq> rollUp then d
      else
        let d1 = show_now t d in
        if row d1 < rows then
          let top = row d1 + 1 - depth d1;
              s1 = fold (\<lambda>r s. s[r := s ! (r + 1)]) [top..<row d1] (shown d1);
              s2 = s1[row d1 := blankRow];
              s3 = fold (\<lambda>r s. s[r := blankRow]) [0..<top] s2
          in (show_now t (d1\<lparr>shown := s3, col := 0\<rparr>))\<lparr>typed := False\<rparr>
        else d1\<lparr>panicked := True\<rparr>)"

definition misc :: "int \<Rightarrow> byte \<Rightarrow> Decoder \<Rightarrow> Decoder" where
  "misc t b2 d =
     (if b2 = 0x20 then d\<lparr>dmode := popOn, textSvc := False\<rparr>
      else if b2 = 0x21 then backspace t d
      else if b2 = 0x24 then deleteToEnd t d
      else if b2 = 0x25 \<or> b2 = 0x26 \<or> b2 = 0x27 then rollUpMode t b2 d
      else if b2 = 0x29 then d\<lparr>dmode := paintOn, textSvc := False, typed := False\<rparr>
      else if b2 = 0x2a \<or> b2 = 0x2b then d\<lparr>textSvc := True\<rparr>
      else if b2 = 0x2c then show_now t (d\<lparr>shown := blank\<rparr>)
      else if b2 = 0x2d then carriageReturn t d
      else if b2 = 0x2e then d\<lparr>hidden := blank\<rparr>
      else if b2 = 0x2f then show_now t (d\<lparr>shown := hidden d, hidden := shown d, dmode := popOn, textSvc := False\<rparr>)
      else d)"

text \<open>A character of one of the tables; an index past its end would panic.\<close>

definition putFrom :: "rune list \<Rightarrow> nat \<Rightarrow> Decoder \<Rightarrow> Decoder" where
  "putFrom tbl i d = (if i < length tbl then put (tbl ! i) d else d\<lparr>panicked := True\<rparr>)"

definition control :: "int \<Rightarrow> byte \<Rightarrow> byte \<Rightarrow> Decoder \<Rightarrow> Decoder" where
  "control t b1 b2 d =
     (if (b1 = 0x14 \<or> b1 = 0x15) \<and> b2 \<ge> 0x20 \<and> b2 \<le> 0x2f then misc t b2 d
      else if b1 = 0x17 \<and> b2 \<ge> 0x21 \<and> b2 \<le> 0x23 then d\<lparr>col := min (col d + unat (b2 - 0x20)) (cols - 1)\<rparr>
      else if b2 \<ge> 0x40 \<and> b2 \<le> 0x7f then pac b1 b2 d
      else if textSvc d then d
      else if b1 = 0x11 \<and> b2 \<ge> 0x20 \<and> b2 \<le> 0x2f then touch t (put 0x20 d)
      else if b1 = 0x11 \<and> b2 \<ge> 0x30 \<and> b2 \<le> 0x3f then touch t (putFrom special (unat (b2 - 0x30)) d)
      else if (b1 = 0x12 \<or> b1 = 0x13) \<and> b2 \<ge> 0x20 \<and> b2 \<le> 0x3f then
        let d1 = d\<lparr>col := col d - 1\<rparr>
        in touch t (if b1 = 0x12 then putFrom extended12 (unat (b2 - 0x20)) d1 else putFrom extended13 (unat (b2 - 0x20)) d1)
      else d)"

definition pair :: "int \<Rightarrow> byte \<Rightarrow> byte \<Rightarrow> Decoder \<Rightarrow> Decoder" where
  "pair t b1 b2 d =
     (if b1 = 0 \<and> b2 = 0 then d
      else if b1 \<ge> 0x10 \<and> b1 \<le> 0x1f then
        let d1 = (if waiting d then show_now t d else d) in
        if lastPair d1 = (b1, b2) then d1\<lparr>lastPair := (0, 0)\<rparr>
        else
          let d2 = d1\<lparr>lastPair := (b1, b2), channel := (if b1 AND 0x08 \<noteq> 0 then 2 else 1)\<rparr>
          in if channel d2 = 1 then control t (b1 AND NOT 0x08) b2 d2 else d2
      else
        let d1 = d\<lparr>lastPair := (0, 0)\<rparr> in
        if channel d1 \<noteq> 1 \<or> textSvc d1 \<or> b1 < 0x20 then d1
        else
          let d2 = put (basic b1) d1;
              d3 = (if b2 \<ge> 0x20 then put (basic b2) d2 else d2)
          in touch t d3)"

fun feedPairs :: "int \<Rightarrow> bytes \<Rightarrow> Decoder \<Rightarrow> Decoder" where
  "feedPairs t (b1 # b2 # rest) d = feedPairs t rest (pair t b1 b2 d)"
| "feedPairs t _ d = d"

definition Feed :: "int \<Rightarrow> bytes \<Rightarrow> Decoder \<Rightarrow> Decoder" where
  "Feed t pairs d = feedPairs t pairs (due t d)"

definition Take :: "Decoder \<Rightarrow> Cue list \<times> Decoder" where
  "Take d = (done_cues d, d\<lparr>done_cues := []\<rparr>)"

definition Showing :: "Decoder \<Rightarrow> Cue \<times> bool" where
  "Showing d = (cue d, open_cue d)"

definition Close :: "int \<Rightarrow> Decoder \<Rightarrow> Decoder" where
  "Close t d = endCue t d"

subsection \<open>vtt.go\<close>

text \<open>\<^verbatim>\<open>strings\<close> of ASCII letters as runes, and the decimal printing of \<^verbatim>\<open>fmt\<close>.\<close>

definition ascii :: "string \<Rightarrow> rune list" where
  "ascii s = map of_char s"

fun dec :: "nat \<Rightarrow> rune list" where
  "dec n = (if n < 10 then [48 + n] else dec (n div 10) @ [48 + n mod 10])"

declare dec.simps [simp del]

definition pad :: "nat \<Rightarrow> nat \<Rightarrow> rune list" where
  "pad w n = replicate (w - length (dec n)) 48 @ dec n"

definition stamp :: "int \<Rightarrow> rune list" where
  "stamp ticks =
     (let ms = nat (quot ticks 90)
      in pad 2 (ms div 3600000) @ ascii '':'' @ pad 2 (ms div 60000 mod 60) @ ascii '':'' @
         pad 2 (ms div 1000 mod 60) @ ascii ''.'' @ pad 3 (ms mod 1000))"

definition escape :: "rune list \<Rightarrow> rune list" where
  "escape s = concat (map (\<lambda>c. if c = 0x26 then ascii ''&amp;'' else if c = 0x3c then ascii ''&lt;''
                             else if c = 0x3e then ascii ''&gt;'' else [c]) s)"

text \<open>Where a cue lies in a segment, clipped to it.\<close>

definition clip :: "int \<Rightarrow> int \<Rightarrow> Cue \<Rightarrow> int \<times> int" where
  "clip start dur c = (max (ptsDelta (Start c) start) 0, min (ptsDelta (End c) start) dur)"

definition block :: "int \<Rightarrow> int \<Rightarrow> Cue \<Rightarrow> rune list" where
  "block start dur c =
     (let (from, to) = clip start dur c in
      if to \<le> from then []
      else [0x0a] @ stamp from @ ascii '' --> '' @ stamp to @ (if Top c then ascii '' line:10%'' else []) @
           [0x0a] @ escape (Text c) @ [0x0a])"

definition Segment :: "int \<Rightarrow> int \<Rightarrow> Cue list \<Rightarrow> rune list" where
  "Segment start dur cues =
     ascii ''WEBVTT'' @ [0x0a] @ ascii ''X-TIMESTAMP-MAP=LOCAL:00:00:00.000,MPEGTS:'' @
     dec (nat (start AND (push_bit 33 1 - 1))) @ [0x0a] @ concat (map (block start dur) cues)"

end
