(* ===== verification/CaptionsProps.thy ===== *)
theory CaptionsProps
  imports Captions
begin

text \<open>
  Correctness of the caption reader: no input makes it panic, the cuts between writes do not
  matter, its buffers are bounded, and the reorder buffer puts pictures into display order.
\<close>

subsection \<open>No index is out of range\<close>

lemma emit_Some: "held r \<noteq> [] \<Longrightarrow> \<exists>r'. emit r = Some r'"
  by (simp add: emit_def Let_def idx_in firstShown_less)

lemma emitAll_Some: "\<exists>r'. emitAll r = Some r'"
proof (induction r rule: emitAll.induct)
  case (1 r)
  show ?case
  proof (cases "held r = []")
    case False
    then obtain r' where "emit r = Some r'" using emit_Some by blast
    with 1 False show ?thesis by (simp add: emitAll.simps [of r])
  qed (simp add: emitAll.simps)
qed

definition breaks :: "picture \<Rightarrow> Reader \<Rightarrow> bool" where
  "breaks pic r \<longleftrightarrow> held r \<noteq> [] \<and>
     (ptsDelta (pts pic) (pts (last (held r))) < - breakBack \<or> ptsDelta (pts pic) (pts (last (held r))) > breakAhead)"

lemma hold_form:
  "hold pic r = (case (if breaks pic r then emitAll r else Some r) of
     None \<Rightarrow> None
   | Some r1 \<Rightarrow> let r2 = r1\<lparr>held := held r1 @ [pic]\<rparr> in if length (held r2) > 8 then emit r2 else Some r2)"
  by (cases "if breaks pic r then emitAll r else Some r") (simp_all add: hold_def breaks_def Let_def split: if_splits)

lemma hold_Some: "\<exists>r'. hold pic r = Some r'"
proof -
  obtain r1 where "(if breaks pic r then emitAll r else Some r) = Some r1"
    using emitAll_Some [of r] by (cases "breaks pic r") auto
  moreover obtain r2 where "emit (r1\<lparr>held := held r1 @ [pic]\<rparr>) = Some r2" using emit_Some by fastforce
  ultimately show ?thesis by (simp add: hold_form Let_def)
qed

text \<open>When \<^verbatim>\<open>endPES\<close> has a picture, and which.\<close>

definition pesWhole :: "bytes \<Rightarrow> bool" where
  "pesWhole b \<longleftrightarrow> 14 \<le> length b \<and> b ! 0 = 0 \<and> b ! 1 = 0 \<and> b ! 2 = 1 \<and> b ! 7 AND 0x80 \<noteq> 0 \<and> 9 + unat (b ! 8) \<le> length b"

definition pesPicture :: "nat \<Rightarrow> bytes \<Rightarrow> picture" where
  "pesPicture k b = \<lparr>pts = readPTS (b ! 9) (b ! 10) (b ! 11) (b ! 12) (b ! 13),
     ccb = (let es = drop (9 + unat (b ! 8)) b in if k = streamH264 then fromH264 es else fromMPEG2 es)\<rparr>"

lemma endPES_form:
  "endPES r = (if pesWhole (pes r) then hold (pesPicture (kind r) (pes r)) (r\<lparr>pes := []\<rparr>) else Some (r\<lparr>pes := []\<rparr>))"
proof (cases "length (pes r) < 14")
  case False
  then have "pes r \<noteq> []" by auto
  with False show ?thesis
    by (simp add: endPES_def pesWhole_def pesPicture_def Let_def panic_simps)
qed (simp add: endPES_def pesWhole_def)

lemma endPES_Some: "\<exists>r'. endPES r = Some r'"
  using hold_Some by (simp add: endPES_form)

lemma section_Some: "\<exists>s. section_of b = Some s \<and> (\<forall>t. s = Some t \<longrightarrow> 12 \<le> length t)"
proof (cases b)
  case (Cons x xs)
  show ?thesis
  proof (cases "unat x + 1 > length b \<or> length (drop (1 + unat x) b) < 12")
    case True
    then show ?thesis using Cons by (auto simp: section_of_def panic_simps)
  next
    case False
    define sec where "sec = drop (1 + unat x) b"
    define n where "n = 3 + int (be16 (sec ! 1 AND 0x0f) (sec ! 2)) - 4"
    have "slice_from b (1 + unat x) = Some sec" "idx b 0 = Some x" "idx sec 1 = Some (sec ! 1)" "idx sec 2 = Some (sec ! 2)"
      using False Cons by (auto simp: sec_def panic_simps)
    then have "section_of b = (if n > int (length sec) \<or> n < 12 then Some None else Some (Some (take (nat n) sec)))"
      using False Cons by (simp add: section_of_def Let_def) (auto simp: n_def slice_to_def)
    then show ?thesis by auto
  qed
qed (simp add: section_of_def)

lemma patLoop_Some: "\<exists>r'. patLoop sec off r = Some r'"
proof (induction sec off r rule: patLoop.induct)
  case (1 sec off r)
  show ?case
  proof (cases "off + 4 \<le> length sec")
    case True
    with 1 show ?thesis
      by (subst patLoop.simps) (auto simp: panic_simps Let_def)
  qed (simp add: patLoop.simps [of sec off r])
qed

lemma pmtLoop_Some: "\<exists>r'. pmtLoop sec off r = Some r'"
proof (induction sec off r rule: pmtLoop.induct)
  case (1 sec off r)
  show ?case
  proof (cases "off + 5 \<le> length sec")
    case True
    with 1 show ?thesis
      by (subst pmtLoop.simps) (auto simp: panic_simps Let_def)
  qed (simp add: pmtLoop.simps [of sec off r])
qed

lemma pat_Some: "\<exists>r'. pat b r = Some r'"
proof -
  obtain s where "section_of b = Some s" "\<forall>t. s = Some t \<longrightarrow> 12 \<le> length t" using section_Some by blast
  then show ?thesis using patLoop_Some by (cases s) (auto simp: pat_def idx_def)
qed

lemma pmt_Some: "\<exists>r'. pmt b r = Some r'"
proof -
  obtain s where "section_of b = Some s" "\<forall>t. s = Some t \<longrightarrow> 12 \<le> length t" using section_Some by blast
  then show ?thesis using pmtLoop_Some by (cases s) (auto simp: pmt_def idx_def)
qed

lemma packetBody_Some: "length pkt = 188 \<Longrightarrow> \<exists>b. packetBody pkt = Some b \<and> (\<forall>t. b = Some t \<longrightarrow> length t \<le> 184)"
  by (auto simp: packetBody_def panic_simps Let_def)

lemma packet_Some: "length pkt = 188 \<Longrightarrow> \<exists>r'. packet pkt r = Some r'"
proof -
  assume len: "length pkt = 188"
  then obtain bo where bo: "packetBody pkt = Some bo" using packetBody_Some by blast
  show ?thesis
  proof (cases bo)
    case None
    then show ?thesis using len bo by (simp add: packet_def panic_simps)
  next
    case (Some body)
    obtain e where "endPES r = Some e" using endPES_Some by blast
    then show ?thesis using len bo Some pat_Some [of body r] pmt_Some [of body r] by (simp add: packet_def panic_simps Let_def)
  qed
qed

lemma scan_Some: "\<exists>r'. scan d r = Some r'"
proof (induction d r rule: scan.induct)
  case (1 d r)
  show ?case
  proof (cases "188 \<le> length d \<and> hd d = 0x47")
    case True
    then obtain r' where "packet (take 188 d) r = Some r'" using packet_Some [of "take 188 d" r] by auto
    with 1 True show ?thesis by (simp add: scan.simps [of d r])
  next
    case False
    with 1 show ?thesis by (cases "188 \<le> length d") (simp_all add: scan.simps [of d r])
  qed
qed

subsection \<open>The state between packets\<close>

lemma emit_frame: "emit r = Some r' \<Longrightarrow> carry r' = carry r \<and> pes r' = pes r \<and> video r' = video r \<and> kind r' = kind r"
  by (auto simp: emit_def Let_def idx_def split: if_splits)

lemma emitAll_frame: "emitAll r = Some r' \<Longrightarrow> carry r' = carry r \<and> pes r' = pes r \<and> held r' = []"
proof (induction r rule: emitAll.induct)
  case (1 r)
  show ?case
  proof (cases "held r = []")
    case False
    then obtain r1 where "emit r = Some r1" using emit_Some by blast
    with 1 False emit_frame [of r r1] show ?thesis by (simp add: emitAll.simps [of r])
  qed (use 1 in \<open>simp add: emitAll.simps\<close>)
qed

lemma hold_elim:
  assumes "hold p r = Some r'"
  obtains r1 where "if breaks p r then emitAll r = Some r1 else r1 = r"
    "if length (held r1) < 8 then r' = r1\<lparr>held := held r1 @ [p]\<rparr> else emit (r1\<lparr>held := held r1 @ [p]\<rparr>) = Some r'"
proof -
  obtain r1 where r1: "(if breaks p r then emitAll r else Some r) = Some r1"
    using emitAll_Some [of r] by (cases "breaks p r") auto
  show thesis
  proof (rule that [of r1])
    show "if breaks p r then emitAll r = Some r1 else r1 = r" using r1 by (cases "breaks p r") simp_all
    show "if length (held r1) < 8 then r' = r1\<lparr>held := held r1 @ [p]\<rparr> else emit (r1\<lparr>held := held r1 @ [p]\<rparr>) = Some r'"
      using assms unfolding hold_form r1 by (cases "length (held r1) < 8") (simp_all add: Let_def)
  qed
qed

lemma hold_frame: "hold p r = Some r' \<Longrightarrow> carry r' = carry r \<and> pes r' = pes r"
proof (erule hold_elim)
  fix r1
  assume a: "if breaks p r then emitAll r = Some r1 else r1 = r"
    and b: "if length (held r1) < 8 then r' = r1\<lparr>held := held r1 @ [p]\<rparr> else emit (r1\<lparr>held := held r1 @ [p]\<rparr>) = Some r'"
  have "carry r1 = carry r \<and> pes r1 = pes r" using a emitAll_frame [of r r1] by (cases "breaks p r") simp_all
  moreover have "carry r' = carry r1 \<and> pes r' = pes r1"
    using b emit_frame [of "r1\<lparr>held := held r1 @ [p]\<rparr>" r'] by (cases "length (held r1) < 8") simp_all
  ultimately show ?thesis by simp
qed

lemma endPES_frame: "endPES r = Some r' \<Longrightarrow> carry r' = carry r \<and> pes r' = []"
  using hold_frame [of _ "r\<lparr>pes := []\<rparr>" r'] by (auto simp: endPES_form split: if_splits)

lemma patLoop_step:
  assumes len: "off + 4 \<le> length sec"
  shows "patLoop sec off r =
     (if be16 (sec ! off) (sec ! (off + 1)) = 0 \<or> (program r \<noteq> 0 \<and> be16 (sec ! off) (sec ! (off + 1)) \<noteq> program r)
      then patLoop sec (off + 4) r
      else Some (r\<lparr>pmtPID := int (be16 (sec ! (off + 2) AND 0x1f) (sec ! (off + 3)))\<rparr>))"
proof -
  have "idx sec off = Some (sec ! off)" "idx sec (off + 1) = Some (sec ! (off + 1))"
    "idx sec (off + 2) = Some (sec ! (off + 2))" "idx sec (off + 3) = Some (sec ! (off + 3))"
    using len by (simp_all add: idx_def)
  then show ?thesis by (subst patLoop.simps) (simp only: len if_True Option.bind_lunit Let_def)
qed

lemma patLoop_frame: "patLoop sec off r = Some r' \<Longrightarrow> \<exists>p. r' = r\<lparr>pmtPID := p\<rparr>"
proof (induction sec off r rule: patLoop.induct)
  case (1 sec off r)
  show ?case
  proof (cases "off + 4 \<le> length sec")
    case True
    show ?thesis
    proof (cases "be16 (sec ! off) (sec ! (off + 1)) = 0 \<or> (program r \<noteq> 0 \<and> be16 (sec ! off) (sec ! (off + 1)) \<noteq> program r)")
      case skip: True
      have "patLoop sec (off + 4) r = Some r'" using "1.prems" skip patLoop_step [OF True] by simp
      with "1.IH" [OF True _ _ refl skip] True show ?thesis by (simp add: panic_simps)
    next
      case False
      then have "r' = r\<lparr>pmtPID := int (be16 (sec ! (off + 2) AND 0x1f) (sec ! (off + 3)))\<rparr>"
        using "1.prems" patLoop_step [OF True] by (simp only: if_False option.inject)
      then show ?thesis by blast
    qed
  next
    case False
    with 1 have "r' = r\<lparr>pmtPID := pmtPID r\<rparr>" by (simp add: patLoop.simps [of sec off r])
    then show ?thesis by blast
  qed
qed

lemma pmtLoop_step:
  assumes len: "off + 5 \<le> length sec"
  shows "pmtLoop sec off r =
     (if unat (sec ! off) \<noteq> 2 \<and> unat (sec ! off) \<noteq> 0x1b
      then pmtLoop sec (off + 5 + be16 (sec ! (off + 3) AND 0x0f) (sec ! (off + 4))) r
      else Some (r\<lparr>pes := (if int (be16 (sec ! (off + 1) AND 0x1f) (sec ! (off + 2))) \<noteq> video r then [] else pes r),
             video := int (be16 (sec ! (off + 1) AND 0x1f) (sec ! (off + 2))), kind := unat (sec ! off)\<rparr>))"
proof -
  have "idx sec off = Some (sec ! off)" "idx sec (off + 1) = Some (sec ! (off + 1))"
    "idx sec (off + 2) = Some (sec ! (off + 2))" "idx sec (off + 3) = Some (sec ! (off + 3))"
    "idx sec (off + 4) = Some (sec ! (off + 4))"
    using len by (simp_all add: idx_def)
  then show ?thesis by (subst pmtLoop.simps) (simp only: len if_True Option.bind_lunit Let_def)
qed

lemma pmtLoop_frame:
  "pmtLoop sec off r = Some r' \<Longrightarrow> \<exists>v k p. r' = r\<lparr>pes := p, video := v, kind := k\<rparr> \<and> (p = [] \<or> p = pes r)"
proof (induction sec off r rule: pmtLoop.induct)
  case (1 sec off r)
  show ?case
  proof (cases "off + 5 \<le> length sec")
    case True
    show ?thesis
    proof (cases "unat (sec ! off) \<noteq> 2 \<and> unat (sec ! off) \<noteq> 0x1b")
      case skip: True
      have "pmtLoop sec (off + 5 + be16 (sec ! (off + 3) AND 0x0f) (sec ! (off + 4))) r = Some r'"
        using "1.prems" skip pmtLoop_step [OF True] by simp
      with "1.IH" [OF True _ _ _ _ _ refl refl skip] True show ?thesis by (simp add: panic_simps)
    next
      case False
      then have "r' = r\<lparr>pes := (if int (be16 (sec ! (off + 1) AND 0x1f) (sec ! (off + 2))) \<noteq> video r then [] else pes r),
             video := int (be16 (sec ! (off + 1) AND 0x1f) (sec ! (off + 2))), kind := unat (sec ! off)\<rparr>"
        using "1.prems" pmtLoop_step [OF True] by (simp only: if_False option.inject)
      then show ?thesis by (intro exI conjI) (assumption, simp)
    qed
  next
    case False
    with 1 have "r' = r\<lparr>pes := pes r, video := video r, kind := kind r\<rparr>" by (simp add: pmtLoop.simps [of sec off r])
    then show ?thesis by blast
  qed
qed

lemma pat_frame: "pat b r = Some r' \<Longrightarrow> \<exists>p. r' = r\<lparr>pmtPID := p\<rparr>"
proof -
  assume p: "pat b r = Some r'"
  obtain s where s: "section_of b = Some s" "\<forall>t. s = Some t \<longrightarrow> 12 \<le> length t" using section_Some by blast
  have "r' = r \<or> (\<exists>t. patLoop t 8 r = Some r')"
    using p s by (cases s) (auto simp: pat_def idx_def split: if_splits)
  moreover have "r = r\<lparr>pmtPID := pmtPID r\<rparr>" by simp
  ultimately show ?thesis using patLoop_frame by blast
qed

lemma pmt_frame: "pmt b r = Some r' \<Longrightarrow> \<exists>v k p. r' = r\<lparr>pes := p, video := v, kind := k\<rparr> \<and> (p = [] \<or> p = pes r)"
proof -
  assume p: "pmt b r = Some r'"
  obtain s where s: "section_of b = Some s" "\<forall>t. s = Some t \<longrightarrow> 12 \<le> length t" using section_Some by blast
  have "r' = r \<or> (\<exists>t n. pmtLoop t n r = Some r')"
    using p s by (cases s) (auto simp: pmt_def idx_def split: if_splits)
  moreover have "r = r\<lparr>pes := pes r, video := video r, kind := kind r\<rparr>" by simp
  ultimately show ?thesis using pmtLoop_frame by blast
qed

text \<open>What one packet does, in cases: a table, a new PES with the picture of the last one, more of a PES, or nothing.\<close>

lemma packet_elim:
  assumes "packet pkt r = Some r'" "length pkt = 188"
  obtains (same) "r' = r"
  | (table) p q v k where "r' = r\<lparr>pmtPID := p, pes := q, video := v, kind := k\<rparr>" "q = [] \<or> q = pes r"
  | (start) r1 body where "endPES r = Some r1" "r' = r1\<lparr>pes := body\<rparr>" "length body \<le> 184"
  | (more) body where "r' = r\<lparr>pes := pes r @ body\<rparr>" "length body \<le> 184" "length (pes r) < maxPES"
proof -
  obtain bo where bo: "packetBody pkt = Some bo" "\<forall>t. bo = Some t \<longrightarrow> length t \<le> 184"
    using packetBody_Some [OF assms(2)] by blast
  define pid where "pid = int (be16 (pkt ! 1 AND 0x1f) (pkt ! 2))"
  define start where "start \<longleftrightarrow> pkt ! 1 AND 0x40 \<noteq> 0"
  have idx: "idx pkt 1 = Some (pkt ! 1)" "idx pkt 2 = Some (pkt ! 2)" using assms(2) by (auto simp: idx_def)
  have form: "packet pkt r = (case bo of None \<Rightarrow> Some r | Some body \<Rightarrow>
       if pid = 0 \<and> start then pat body r else if pid = pmtPID r \<and> start then pmt body r
       else if pid = video r then
         (if start then endPES r \<bind> (\<lambda>r1. Some (r1\<lparr>pes := body\<rparr>))
          else if length (pes r) > 0 \<and> length (pes r) < maxPES then Some (r\<lparr>pes := pes r @ body\<rparr>) else Some r)
       else Some r)"
    unfolding packet_def idx bo(1) Option.bind_lunit Let_def pid_def start_def ..
  show thesis
  proof (cases bo)
    case None
    then show thesis using form assms(1) same by simp
  next
    case (Some body)
    note len = bo(2) [rule_format, OF Some]
    consider "pid = 0 \<and> start" | "\<not> (pid = 0 \<and> start)" "pid = pmtPID r \<and> start"
      | "\<not> (pid = 0 \<and> start)" "\<not> (pid = pmtPID r \<and> start)" "pid = video r" "start"
      | "\<not> (pid = 0 \<and> start)" "\<not> (pid = pmtPID r \<and> start)" "pid = video r" "\<not> start"
      | "\<not> (pid = 0 \<and> start)" "\<not> (pid = pmtPID r \<and> start)" "pid \<noteq> video r" by blast
    then show thesis
    proof cases
      case 1
      with form Some assms(1) have "pat body r = Some r'" by simp
      then obtain p where "r' = r\<lparr>pmtPID := p\<rparr>" using pat_frame by blast
      then show thesis using table [where p = p and q = "pes r" and v = "video r" and k = "kind r"] by simp
    next
      case 2
      with form Some assms(1) have "pmt body r = Some r'" by simp
      then obtain v k p where "r' = r\<lparr>pes := p, video := v, kind := k\<rparr>" "p = [] \<or> p = pes r" using pmt_frame by blast
      then show thesis using table [where p = "pmtPID r" and q = p and v = v and k = k] by simp
    next
      case 3
      with form Some assms(1) have "endPES r \<bind> (\<lambda>r1. Some (r1\<lparr>pes := body\<rparr>)) = Some r'" by simp
      then obtain r1 where "endPES r = Some r1" "r' = r1\<lparr>pes := body\<rparr>" by (auto simp: bind_eq_Some_conv)
      then show thesis using start len by blast
    next
      case 4
      show thesis
      proof (cases "length (pes r) > 0 \<and> length (pes r) < maxPES")
        case True
        with 4 form Some assms(1) have "r' = r\<lparr>pes := pes r @ body\<rparr>" by simp
        with True len show thesis using more by blast
      next
        case False
        with 4 form Some assms(1) have "Some r' = Some r" by (simp only: option.case if_False) simp
        then show thesis using same by simp
      qed
    next
      case 5
      then have "packet pkt r = Some r" unfolding form Some by auto
      then show thesis using assms(1) same by simp
    qed
  qed
qed

subsection \<open>Cuts between writes\<close>




definition feed :: "Reader \<Rightarrow> bytes \<Rightarrow> Reader" where
  "feed r p = the (Write p r)"

lemma Write_feed: "Write p r = Some (feed r p)"
  using scan_Some [of "carry r @ p" "r\<lparr>carry := []\<rparr>"] by (auto simp: feed_def Write_def)


subsection \<open>Bounds of the state\<close>

lemma ccLoop_pairs:
  "\<lbrakk>even (length out); \<forall>b \<in> set out. b < 0x80\<rbrakk> \<Longrightarrow> even (length (ccLoop n b out)) \<and> (\<forall>b \<in> set (ccLoop n b out). b < 0x80)"
proof (induction n b out rule: ccLoop.induct)
  case (1 n x y z rest out)
  have "w AND 0x7f < (0x80 :: byte)" for w
  proof -
    have "w AND 0x7f \<le> 0x7f" by (rule word_and_le1)
    also have "(0x7f :: byte) < 0x80" by simp
    finally show ?thesis .
  qed
  then have "even (length (if x AND 0x04 \<noteq> 0 \<and> x AND 0x03 = 0 then out @ [y AND 0x7f, z AND 0x7f] else out)) \<and>
      (\<forall>b \<in> set (if x AND 0x04 \<noteq> 0 \<and> x AND 0x03 = 0 then out @ [y AND 0x7f, z AND 0x7f] else out). b < 0x80)"
    using "1.prems" by auto
  with "1.IH" show ?case by simp
qed simp_all

definition pairs_ok :: "bytes \<Rightarrow> bool" where
  "pairs_ok out \<longleftrightarrow> even (length out) \<and> (\<forall>b \<in> set out. b < 0x80)"

lemma ccData_pairs: "pairs_ok out \<Longrightarrow> pairs_ok (ccData b out)"
  by (cases "(b, out)" rule: ccData.cases) (auto simp: pairs_ok_def dest: ccLoop_pairs)

lemma seiMessage_pairs: "pairs_ok out \<Longrightarrow> pairs_ok (seiMessage k m out)"
  by (simp add: seiMessage_def ccData_pairs)

lemma seiCaptions_pairs: "pairs_ok out \<Longrightarrow> pairs_ok (seiCaptions b out)"
proof (induction b out rule: seiCaptions.induct)
  case (1 b out)
  show ?case
    by (subst seiCaptions.simps)
       (use 1 seiMessage_pairs in \<open>auto split: option.splits\<close>)
qed

lemma fromMPEG2_pairs: "pairs_ok out \<Longrightarrow> pairs_ok (fromMPEG2_from es out)"
proof (induction es out rule: fromMPEG2_from.induct)
  case (1 es out)
  show ?case
  proof (cases "bytes_Index es [0, 0, 1, 0xb2]")
    case (Some i)
    then show ?thesis
      using "1.IH" [OF Some refl] "1.prems" ccData_pairs by (subst fromMPEG2_from.simps) (simp add: Let_def)
  qed (use "1.prems" in \<open>simp add: fromMPEG2_from.simps [of es out]\<close>)
qed

lemma fromH264_pairs: "pairs_ok out \<Longrightarrow> pairs_ok (fromH264_from es out)"
proof (induction es out rule: fromH264_from.induct)
  case (1 es out)
  show ?case
    by (subst fromH264_from.simps)
       (use 1 seiCaptions_pairs in \<open>auto simp: Let_def split: option.splits\<close>)
qed

definition clock33 :: "int \<Rightarrow> bool" where
  "clock33 x \<longleftrightarrow> 0 \<le> x \<and> x < 2 ^ 33"

lemma clock33_or: "clock33 a \<Longrightarrow> clock33 b \<Longrightarrow> clock33 (a OR b)"
  using OR_upper [of a 33 b] by (simp add: clock33_def)

lemma readPTS_range: "clock33 (readPTS a b c d e)"
proof -
  have u: "uint (x :: byte) < 256" for x using uint_bounded [of x] by simp
  have "drop_bit 1 a AND 7 \<le> (7 :: byte)" by (rule word_and_le1)
  then have 1: "uint (drop_bit 1 a AND 7 :: byte) \<le> 7" by (simp only: word_le_def) simp
  have 2: "uint (drop_bit 1 x :: byte) < 128" for x
    unfolding unsigned_drop_bit_eq using u [of x] by (simp add: drop_bit_eq_div take_bit_eq_mod)
  show ?thesis
    unfolding readPTS_def
    by (intro clock33_or) (use 1 2 [of c] 2 [of e] u [of b] u [of d] in \<open>auto simp: clock33_def push_bit_eq_mult\<close>)
qed

definition pic_ok :: "picture \<Rightarrow> bool" where
  "pic_ok p \<longleftrightarrow> clock33 (pts p) \<and> pairs_ok (ccb p)"

lemma pesPicture_ok: "pic_ok (pesPicture k b)"
proof -
  have "pairs_ok []" by (simp add: pairs_ok_def)
  then show ?thesis
    by (simp add: pic_ok_def pesPicture_def Let_def readPTS_range fromH264_def fromMPEG2_def fromH264_pairs fromMPEG2_pairs)
qed

lemma emit_form:
  assumes "held r \<noteq> []"
  defines "i \<equiv> firstShown (held r)"
  shows "emit r = Some (r\<lparr>held := take i (held r) @ drop (i + 1) (held r), emitted := emitted r @ [held r ! i]\<rparr>)"
  using firstShown_less [OF assms(1)] by (simp add: emit_def Let_def i_def idx_def)

lemma emit_mset:
  assumes "held r \<noteq> []" "emit r = Some r'"
  shows "mset (held r') + mset (emitted r') = mset (held r) + mset (emitted r)" "length (held r') = length (held r) - 1"
proof -
  let ?i = "firstShown (held r)"
  have i: "?i < length (held r)" by (rule firstShown_less [OF assms(1)])
  have r': "r' = r\<lparr>held := take ?i (held r) @ drop (?i + 1) (held r), emitted := emitted r @ [held r ! ?i]\<rparr>"
    using emit_form [OF assms(1)] assms(2) by simp
  have "mset (held r) = mset (take ?i (held r) @ held r ! ?i # drop (Suc ?i) (held r))"
    by (simp only: id_take_nth_drop [OF i, symmetric])
  with r' i show "mset (held r') + mset (emitted r') = mset (held r) + mset (emitted r)" "length (held r') = length (held r) - 1"
    by simp_all
qed

lemma emitAll_mset: "emitAll r = Some r' \<Longrightarrow> mset (emitted r') = mset (held r) + mset (emitted r) \<and> held r' = []"
proof (induction r rule: emitAll.induct)
  case (1 r)
  show ?case
  proof (cases "held r = []")
    case False
    then obtain r1 where "emit r = Some r1" using emit_Some by blast
    with 1 False emit_mset [of r r1] show ?thesis by (simp add: emitAll.simps [of r])
  qed (use "1.prems" in \<open>simp add: emitAll.simps [of r]\<close>)
qed

text \<open>Everything given to \<^verbatim>\<open>hold\<close> is held or was handed over, and no more than eight pictures are held.\<close>

lemma hold_mset:
  assumes "hold p r = Some r'" "length (held r) \<le> 8"
  shows "mset (held r') + mset (emitted r') = add_mset p (mset (held r) + mset (emitted r)) \<and> length (held r') \<le> 8"
  using assms(1)
proof (rule hold_elim)
  fix r1
  assume a: "if breaks p r then emitAll r = Some r1 else r1 = r"
    and b: "if length (held r1) < 8 then r' = r1\<lparr>held := held r1 @ [p]\<rparr> else emit (r1\<lparr>held := held r1 @ [p]\<rparr>) = Some r'"
  have r1: "mset (held r1) + mset (emitted r1) = mset (held r) + mset (emitted r)" "length (held r1) \<le> 8"
    using a emitAll_mset [of r r1] assms(2) by (cases "breaks p r"; simp)+
  show ?thesis
  proof (cases "length (held r1) < 8")
    case True
    with b r1 show ?thesis by simp
  next
    case False
    with b have "emit (r1\<lparr>held := held r1 @ [p]\<rparr>) = Some r'" by simp
    from emit_mset [OF _ this] r1 show ?thesis by simp
  qed
qed

definition reader_ok :: "Reader \<Rightarrow> bool" where
  "reader_ok r \<longleftrightarrow> length (carry r) < 188 \<and> length (pes r) < maxPES + 184 \<and> length (held r) \<le> 8 \<and>
     (\<forall>p \<in> set (held r) \<union> set (emitted r). pic_ok p)"

lemma endPES_ok:
  assumes "endPES r = Some r'" "length (held r) \<le> 8" "\<forall>p \<in> set (held r) \<union> set (emitted r). pic_ok p"
  shows "length (held r') \<le> 8 \<and> (\<forall>p \<in> set (held r') \<union> set (emitted r'). pic_ok p)"
proof (cases "pesWhole (pes r)")
  case True
  let ?p = "pesPicture (kind r) (pes r)"
  have h: "hold ?p (r\<lparr>pes := []\<rparr>) = Some r'" using assms(1) True by (simp add: endPES_form)
  have m: "mset (held r') + mset (emitted r') = add_mset ?p (mset (held r) + mset (emitted r))" "length (held r') \<le> 8"
    using hold_mset [OF h] assms(2) by auto
  then have "set (held r') \<union> set (emitted r') = insert ?p (set (held r) \<union> set (emitted r))"
    by (metis set_mset_add_mset_insert set_mset_mset set_mset_union)
  with m(2) assms(3) pesPicture_ok show ?thesis by auto
next
  case False
  with assms show ?thesis by (auto simp: endPES_form)
qed

lemma packet_reader_ok:
  assumes "packet pkt r = Some r'" "length pkt = 188" "reader_ok r"
  shows "reader_ok r'"
  using assms(1,2)
proof (cases rule: packet_elim)
  case same
  with assms(3) show ?thesis by simp
next
  case (table p q v k)
  with assms(3) show ?thesis by (auto simp: reader_ok_def)
next
  case (start r1 body)
  have ok: "length (held r) \<le> 8" "\<forall>p \<in> set (held r) \<union> set (emitted r). pic_ok p" "length (carry r) < 188"
    using assms(3) unfolding reader_ok_def by blast+
  from endPES_ok [OF start(1) ok(1,2)] endPES_frame [OF start(1)] start ok(3) show ?thesis by (simp add: reader_ok_def)
next
  case (more body)
  then have "length (pes r @ body) < maxPES + 184" by simp
  with more(1) assms(3) show ?thesis by (simp add: reader_ok_def)
qed

lemma scan_ok: "scan d r = Some r' \<Longrightarrow> reader_ok r \<Longrightarrow> reader_ok r'"
proof (induction d r rule: scan.induct)
  case (1 d r)
  show ?case
  proof (cases "188 \<le> length d")
    case False
    then have "r' = r\<lparr>carry := d\<rparr>" using "1.prems"(1) by (simp add: scan.simps [of d r])
    with False "1.prems"(2) show ?thesis by (simp add: reader_ok_def)
  next
    case long: True
    then have l: "length (take 188 d) = 188" by simp
    obtain r1 where r1: "packet (take 188 d) r = Some r1" using packet_Some [OF l, of r] by auto
    have eq: "scan d r = (if hd d = 0x47 then scan (drop 188 d) r1 else scan (tl d) r)"
      using long r1 by (simp add: scan.simps [of d r])
    show ?thesis
    proof (cases "hd d = 0x47")
      case True
      with eq "1.prems" "1.IH"(2) [OF long _ r1] packet_reader_ok [OF r1 l] show ?thesis by simp
    next
      case False
      with eq "1.prems" "1.IH"(1) [OF long] show ?thesis by simp
    qed
  qed
qed

lemma feed_ok: "reader_ok r \<Longrightarrow> reader_ok (feed r p)"
  using Write_feed [of p r] scan_ok [of "carry r @ p" "r\<lparr>carry := []\<rparr>"] by (simp add: Write_def reader_ok_def)

subsection \<open>The reorder buffer sorts\<close>

lemma ptsDelta_mod: "ptsDelta a b = (let d = (a - b) mod 2 ^ 33 in if d \<ge> 2 ^ 32 then d - 2 ^ 33 else d)"
proof -
  have m: "(push_bit 33 1 - 1 :: int) = mask 33" by (simp add: mask_eq_exp_minus_1 push_bit_eq_mult)
  have "(a - b) AND mask 33 = (a - b) mod 2 ^ 33" by (simp add: take_bit_eq_mask [symmetric] take_bit_eq_mod)
  then show ?thesis by (simp only: ptsDelta_def m) (simp add: Let_def push_bit_eq_mult)
qed

lemma ptsDelta_range: "- (2 ^ 32) \<le> ptsDelta a b \<and> ptsDelta a b < 2 ^ 32"
proof -
  have "0 \<le> (a - b) mod 2 ^ 33" "(a - b) mod 2 ^ 33 < 2 ^ 33" by simp_all
  then show ?thesis unfolding ptsDelta_mod Let_def by (simp split: if_splits) linarith
qed

text \<open>Across a wrap: instants less than half the clock's range apart are told apart rightly.\<close>

lemma ptsDelta_unwrapped:
  assumes "\<bar>x - y\<bar> < 2 ^ 32"
  shows "ptsDelta (x mod 2 ^ 33) (y mod 2 ^ 33) = x - y"
proof -
  have "(x mod 2 ^ 33 - y mod 2 ^ 33) mod 2 ^ 33 = (x - y) mod 2 ^ 33" by (simp add: mod_diff_eq)
  moreover have "(x - y) mod 2 ^ 33 = (if 0 \<le> x - y then x - y else x - y + 2 ^ 33)"
  proof (cases "0 \<le> x - y")
    case True
    then show ?thesis using assms by (simp add: mod_pos_pos_trivial)
  next
    case False
    have "(x - y) mod 2 ^ 33 = (x - y + 2 ^ 33) mod 2 ^ 33" by simp
    also have "\<dots> = x - y + 2 ^ 33" using False assms by (intro mod_pos_pos_trivial) auto
    finally show ?thesis using False by simp
  qed
  ultimately show ?thesis using assms by (simp add: ptsDelta_mod Let_def split: if_splits)
qed

definition near :: "(picture \<Rightarrow> int) \<Rightarrow> picture set \<Rightarrow> bool" where
  "near T A \<longleftrightarrow> (\<forall>p \<in> A. pts p = T p mod 2 ^ 33) \<and> (\<forall>p \<in> A. \<forall>q \<in> A. \<bar>T p - T q\<bar> < 2 ^ 32)"

lemma near_delta: "near T A \<Longrightarrow> p \<in> A \<Longrightarrow> q \<in> A \<Longrightarrow> ptsDelta (pts p) (pts q) = T p - T q"
  using ptsDelta_unwrapped [of "T p" "T q"] by (simp add: near_def)

lemma fold_argmin:
  assumes "\<forall>i < n. \<forall>j < n. Q i j \<longleftrightarrow> f i < (f j :: int)" "\<forall>i \<in> set xs. i < n" "a < n"
  shows "f (fold (\<lambda>i first. if Q i first then i else first) xs a) \<le> f a \<and>
    (\<forall>i \<in> set xs. f (fold (\<lambda>i first. if Q i first then i else first) xs a) \<le> f i)"
  using assms
proof (induction xs arbitrary: a)
  case (Cons x xs)
  let ?b = "if Q x a then x else a"
  have "?b < n" "f ?b \<le> f a" "f ?b \<le> f x" using Cons.prems by auto
  with Cons.IH [of ?b] Cons.prems show ?case by fastforce
qed simp

lemma firstShown_least:
  assumes "near T (set ps)" "ps \<noteq> []" "p \<in> set ps"
  shows "T (ps ! firstShown ps) \<le> T p"
proof -
  let ?Q = "\<lambda>i first. ptsDelta (pts (ps ! i)) (pts (ps ! first)) < 0"
  have q: "\<forall>i < length ps. \<forall>j < length ps. ?Q i j \<longleftrightarrow> T (ps ! i) < T (ps ! j)"
    using near_delta [OF assms(1)] by simp
  have z: "0 < length ps" using assms(2) by simp
  note m = fold_argmin [OF q, of "[1..<length ps]" 0, OF _ z, folded firstShown_def]
  obtain i where i: "i < length ps" "p = ps ! i" using assms(3) by (auto simp: in_set_conv_nth)
  show ?thesis using m i by (cases i) auto
qed

text \<open>What the buffer keeps: what came out is in order, and not after anything still held.\<close>

definition ordered :: "(picture \<Rightarrow> int) \<Rightarrow> Reader \<Rightarrow> bool" where
  "ordered T r \<longleftrightarrow> sorted (map T (emitted r)) \<and> (\<forall>e \<in> set (emitted r). \<forall>h \<in> set (held r). T e \<le> T h)"

lemma emit_ordered:
  assumes "emit r = Some r'" "held r \<noteq> []" "ordered T r" "near T (set (held r))"
  shows "ordered T r' \<and> set (held r') \<subseteq> set (held r) \<and> emitted r' = emitted r @ [held r ! firstShown (held r)] \<and>
    (\<forall>h \<in> set (held r). T (held r ! firstShown (held r)) \<le> T h)"
proof -
  let ?i = "firstShown (held r)"
  have i: "?i < length (held r)" by (rule firstShown_less [OF assms(2)])
  have r': "held r' = take ?i (held r) @ drop (?i + 1) (held r)" "emitted r' = emitted r @ [held r ! ?i]"
    using emit_form [OF assms(2)] assms(1) by auto
  have sub: "set (held r') \<subseteq> set (held r)" using r'(1) set_take_subset set_drop_subset by fastforce
  have min: "\<forall>h \<in> set (held r). T (held r ! ?i) \<le> T h" using firstShown_least [OF assms(4,2)] by blast
  have "\<forall>e \<in> set (emitted r). T e \<le> T (held r ! ?i)" using assms(3) i by (simp add: ordered_def)
  then have "sorted (map T (emitted r'))" using assms(3) r'(2) by (auto simp: ordered_def sorted_append)
  moreover have "\<forall>e \<in> set (emitted r'). \<forall>h \<in> set (held r'). T e \<le> T h"
    using assms(3) sub min r'(2) by (auto simp: ordered_def)
  ultimately show ?thesis using sub min r'(2) by (simp add: ordered_def)
qed

lemma emitAll_ordered:
  "emitAll r = Some r' \<Longrightarrow> ordered T r \<Longrightarrow> near T (set (held r)) \<Longrightarrow> sorted (map T (emitted r'))"
proof (induction r rule: emitAll.induct)
  case (1 r)
  show ?case
  proof (cases "held r = []")
    case True
    with 1 show ?thesis by (simp add: emitAll.simps [of r] ordered_def)
  next
    case False
    then obtain r1 where r1: "emit r = Some r1" using emit_Some by blast
    note e = emit_ordered [OF r1 False "1.prems"(2,3)]
    have "near T (set (held r1))" using e "1.prems"(3) by (auto simp: near_def)
    moreover have "emitAll r1 = Some r'" using "1.prems"(1) False r1 by (simp add: emitAll.simps [of r])
    ultimately show ?thesis using "1.IH" [OF False r1] e by blast
  qed
qed

text \<open>Pictures given to the buffer one by one.\<close>

fun holdAll :: "picture list \<Rightarrow> Reader \<Rightarrow> Reader option" where
  "holdAll [] r = Some r"
| "holdAll (p # ps) r = (case hold p r of None \<Rightarrow> None | Some r' \<Rightarrow> holdAll ps r')"

lemma holdAll_snoc: "holdAll (ps @ [p]) r = (case holdAll ps r of None \<Rightarrow> None | Some r' \<Rightarrow> hold p r')"
  by (induction ps arbitrary: r) (auto split: option.splits)

text \<open>
  A stretch of pictures on one timeline: within the break limits of each other, and no
  picture before another that was sent more than eight pictures earlier.
\<close>

definition shuffled :: "(picture \<Rightarrow> int) \<Rightarrow> picture list \<Rightarrow> bool" where
  "shuffled T ps \<longleftrightarrow> (\<forall>p \<in> set ps. pts p = T p mod 2 ^ 33) \<and>
     (\<forall>j < length ps. \<forall>i < j. - breakBack \<le> T (ps ! j) - T (ps ! i) \<and> T (ps ! j) - T (ps ! i) \<le> breakAhead) \<and>
     (\<forall>j < length ps. \<forall>i. i + 8 < j \<longrightarrow> T (ps ! i) \<le> T (ps ! j))"

lemma shuffled_near: "shuffled T ps \<Longrightarrow> near T (set ps)"
proof -
  assume s: "shuffled T ps"
  have lim: "\<bar>T (ps ! b) - T (ps ! a)\<bar> < 2 ^ 32" if "a < b" "b < length ps" for a b
  proof -
    have "- 90000 \<le> T (ps ! b) - T (ps ! a)" "T (ps ! b) - T (ps ! a) \<le> 10 * 90000"
      using s that unfolding shuffled_def by blast+
    then show ?thesis by simp
  qed
  have "\<bar>T (ps ! j) - T (ps ! i)\<bar> < 2 ^ 32" if "j < length ps" "i < length ps" for i j
  proof (cases rule: linorder_cases [of i j])
    case less
    then show ?thesis using lim that by blast
  next
    case greater
    then show ?thesis using lim [of j i] that by (simp only: abs_minus_commute)
  qed simp
  then have "\<bar>T p - T q\<bar> < 2 ^ 32" if "p \<in> set ps" "q \<in> set ps" for p q
    using that by (auto simp: in_set_conv_nth)
  with s show ?thesis unfolding near_def shuffled_def by blast
qed

lemma oldest_held:
  assumes "mset hs \<subseteq># mset ps" "length hs = 9"
  shows "\<exists>h \<in> set hs. \<exists>i. i + 8 < length ps \<and> h = ps ! i"
proof (rule ccontr)
  assume no: "\<not> ?thesis"
  let ?k = "length ps - 8"
  have none: "h \<notin> set (take ?k ps)" if "h \<in> set hs" for h
  proof
    assume "h \<in> set (take ?k ps)"
    then obtain i where "i < ?k" "h = ps ! i" by (auto simp: in_set_conv_nth)
    then have "i + 8 < length ps" by simp
    with \<open>h = ps ! i\<close> that no show False by blast
  qed
  have "mset hs \<subseteq># mset (drop ?k ps)"
  proof (rule mset_subset_eqI)
    fix h
    have "count (mset ps) h = count (mset (take ?k ps)) h + count (mset (drop ?k ps)) h"
      by (metis append_take_drop_id count_union mset_append)
    then show "count (mset hs) h \<le> count (mset (drop ?k ps)) h"
      using none [of h] mset_subset_eq_count [OF assms(1), of h]
      by (cases "h \<in> set hs") (simp_all add: count_mset_0_iff [THEN iffD2])
  qed
  then have "size (mset hs) \<le> size (mset (drop ?k ps))" by (rule size_mset_mono)
  with assms(2) show False by simp
qed

lemma shuffled_limits:
  assumes "shuffled T ps" "i < j" "j < length ps"
  shows "- breakBack \<le> T (ps ! j) - T (ps ! i)" "T (ps ! j) - T (ps ! i) \<le> breakAhead"
  using assms unfolding shuffled_def by blast+

lemma holdAll_ordered:
  assumes s: "shuffled T ps" and "k \<le> length ps"
  shows "\<exists>r. holdAll (take k ps) (NewReader n) = Some r \<and> ordered T r \<and> length (held r) \<le> 8 \<and>
    mset (held r) + mset (emitted r) = mset (take k ps) \<and>
    (\<forall>j. k \<le> j \<and> j < length ps \<longrightarrow> (\<forall>e \<in> set (emitted r). T e \<le> T (ps ! j)))"
  using assms(2)
proof (induction k)
  case 0
  then show ?case by (simp add: NewReader_def ordered_def)
next
  case (Suc k)
  then obtain r where r: "holdAll (take k ps) (NewReader n) = Some r" "ordered T r"
    "length (held r) \<le> 8" "mset (held r) + mset (emitted r) = mset (take k ps)"
    "\<And>j. k \<le> j \<Longrightarrow> j < length ps \<Longrightarrow> \<forall>e \<in> set (emitted r). T e \<le> T (ps ! j)" by (auto simp: Suc_le_eq)
  let ?p = "ps ! k"
  have k: "k < length ps" "take (Suc k) ps = take k ps @ [?p]" using Suc.prems by (auto simp: take_Suc_conv_app_nth)
  have sub: "set (held r) \<subseteq> set (take k ps)" by (metis r(4) set_mset_mset set_mset_union sup_ge1)
  have near: "near T (set ps)" by (rule shuffled_near [OF s])
  have old: "\<exists>i < k. h = ps ! i" if "h \<in> set (take k ps)" for h
    using that k(1) by (auto simp: in_set_conv_nth)
  have "\<not> breaks ?p r"
  proof
    assume b: "breaks ?p r"
    then have "last (held r) \<in> set (take k ps)" using sub by (auto simp: breaks_def)
    then obtain i where i: "i < k" "last (held r) = ps ! i" using old by blast
    have "ptsDelta (pts ?p) (pts (ps ! i)) = T ?p - T (ps ! i)" using near_delta [OF near] i k by simp
    with shuffled_limits [OF s i(1) k(1)] b i(2) show False by (auto simp: breaks_def)
  qed
  obtain r' where r': "hold ?p r = Some r'" using hold_Some by blast
  let ?r = "r\<lparr>held := held r @ [?p]\<rparr>"
  have st: "if length (held r) < 8 then r' = ?r else emit ?r = Some r'"
    using r' \<open>\<not> breaks ?p r\<close> by (auto elim!: hold_elim)
  have run: "holdAll (take (Suc k) ps) (NewReader n) = Some r'" using r(1) r' k(2) by (simp add: holdAll_snoc)
  have m: "mset (held r') + mset (emitted r') = mset (take (Suc k) ps)" "length (held r') \<le> 8"
    using hold_mset [OF r' r(3)] r(4) k(2) by auto
  have o: "ordered T ?r" using r(2) r(5) [of k] k(1) by (simp add: ordered_def)
  have subp: "set (held ?r) \<subseteq> set (take (Suc k) ps)" using sub k(2) by auto
  have "near T (set (held ?r))" using near subp set_take_subset [of "Suc k" ps] unfolding near_def by blast
  note e = emit_ordered [OF _ _ o this]
  show ?case
  proof (cases "length (held r) < 8")
    case True
    with st have "r' = ?r" by simp
    with run m o r(5) show ?thesis by auto
  next
    case False
    then have em: "emit ?r = Some r'" "length (held ?r) = 9" using st r(3) by auto
    note e = e [OF em(1), simplified]
    have "mset (held ?r) \<subseteq># mset (take (Suc k) ps)" 
      using r(4) [symmetric] k(2) by simp
    then obtain h i where h: "h \<in> set (held ?r)" "i + 8 < length (take (Suc k) ps)" "h = take (Suc k) ps ! i"
      using oldest_held [OF _ em(2)] by blast
    have "T (held ?r ! firstShown (held ?r)) \<le> T (ps ! j)" if "Suc k \<le> j" "j < length ps" for j
    proof -
      have "T h \<le> T (ps ! j)" using s h(2,3) that k(1) unfolding shuffled_def by auto
      moreover have "T (held ?r ! firstShown (held ?r)) \<le> T h" using e h(1) by auto
      ultimately show ?thesis by simp
    qed
    then have "\<forall>x \<in> set (emitted r'). T x \<le> T (ps ! j)" if "Suc k \<le> j" "j < length ps" for j
      using that e r(5) [of j] by auto
    with run m e show ?thesis by blast
  qed
qed

subsection \<open>Emulation prevention\<close>

text \<open>
  What an H.264 encoder does to a payload: after two zero bytes it puts a 3 before any byte up
  to 3.
\<close>

fun escapeLoop :: "nat \<Rightarrow> bytes \<Rightarrow> bytes" where
  "escapeLoop zeros [] = []"
| "escapeLoop zeros (c # b) =
     (if zeros \<ge> 2 \<and> c \<le> 3 then 3 # c # escapeLoop (if c = 0 then 1 else 0) b
      else c # escapeLoop (if c = 0 then zeros + 1 else 0) b)"

lemma unescape_escapeLoop: "unescapeLoop z (escapeLoop z b) = b"
  by (induction z b rule: escapeLoop.induct) auto

lemma unescapeLoop_id:
  "bytes_Index (replicate (min z 2) 0 @ b) [0, 0, 3] = None \<Longrightarrow> unescapeLoop z b = b"
proof (induction z b rule: unescapeLoop.induct)
  case (2 z c b)
  have z: "min z 2 = 0 \<or> min z 2 = 1 \<or> min z 2 = 2" by linarith
  show ?case
  proof (cases "c = 0")
    case True
    then have "bytes_Index (replicate (min (z + 1) 2) 0 @ b) [0, 0, 3] = None"
      using "2.prems" z by (auto simp: numeral_2_eq_2 min_def split: if_splits)
    with "2.IH"(2) True show ?thesis by simp
  next
    case False
    then have "bytes_Index (replicate (min 0 2) 0 @ b) [0, 0, 3] = None" "\<not> (z \<ge> 2 \<and> c = 3)"
      using "2.prems" z by (auto simp: numeral_2_eq_2 min_def split: if_splits)
    with "2.IH"(2) False show ?thesis by simp
  qed
qed simp

subsection \<open>Properties\<close>

lemma writes_feed: "foldl (\<lambda>m p. Option.bind m (Write p)) (Some r) ps = Some (foldl feed r ps)"
  by (induction ps arbitrary: r) (simp_all add: Write_feed)


text \<open>
  C12. The reader's memory is bounded whatever it reads: less than a packet is carried between
  writes, a picture under assembly stays under \<^verbatim>\<open>maxPES\<close> and one packet, and at most eight
  pictures wait. Every picture it holds or hands over has a 33-bit time and its caption bytes
  are whole pairs of 7-bit values.
\<close>

theorem reader_bounds:
  assumes "foldl (\<lambda>m p. Option.bind m (Write p)) (Some (NewReader n)) ps = Some r"
  shows "length (carry r) < 188 \<and> length (pes r) < 4 * 2 ^ 20 + 184 \<and> length (held r) \<le> 8 \<and>
    (\<forall>p \<in> set (held r) \<union> set (emitted r). 0 \<le> pts p \<and> pts p < 2 ^ 33 \<and> even (length (ccb p)) \<and> (\<forall>b \<in> set (ccb p). b < 0x80))"
proof -
  have "reader_ok (NewReader n)" by (simp add: reader_ok_def NewReader_def)
  then have "reader_ok (foldl feed (NewReader n) ps)"
    by (induction ps arbitrary: n rule: rev_induct) (simp_all add: feed_ok)
  with assms have "reader_ok r" by (simp add: writes_feed)
  then show ?thesis unfolding reader_ok_def pic_ok_def clock33_def pairs_ok_def by blast
qed

theorem reader_bounds_witness:
  "\<exists>r. foldl (\<lambda>m p. Option.bind m (Write p)) (Some (NewReader 0)) [[1, 2], [3]] = Some r \<and> length (held r) \<le> 8 \<and> carry r = [1, 2, 3]"
proof -
  obtain r where r: "foldl (\<lambda>m p. Option.bind m (Write p)) (Some (NewReader 0)) [[1, 2], [3]] = Some r"
    using writes_feed by blast
  then have "carry r = [1, 2, 3]" by (auto simp: Write_def scan.simps NewReader_def)
  with r reader_bounds [OF r] show ?thesis by blast
qed

text \<open>
  C13. The reorder buffer sorts. Take pictures of one stretch of the timeline (\<open>T\<close> gives each
  its unwrapped time; the 33-bit clock may wrap inside the stretch), where each is sent at most
  eight places away from its turn. Then every picture comes out exactly once, in display
  order, once \<^verbatim>\<open>Flush\<close> has emptied the buffer.
\<close>

theorem reorder_sorts:
  assumes "\<forall>p \<in> set ps. pts p = T p mod 2 ^ 33"
    "\<forall>j < length ps. \<forall>i < j. - 90000 \<le> T (ps ! j) - T (ps ! i) \<and> T (ps ! j) - T (ps ! i) \<le> 10 * 90000"
    "\<forall>j < length ps. \<forall>i. i + 8 < j \<longrightarrow> T (ps ! i) \<le> T (ps ! j)"
  shows "\<exists>r. Option.bind (holdAll ps (NewReader n)) emitAll = Some r \<and> mset (emitted r) = mset ps \<and> sorted (map T (emitted r))"
proof -
  have s: "shuffled T ps" using assms unfolding shuffled_def by blast
  obtain r where r: "holdAll ps (NewReader n) = Some r" "ordered T r" "mset (held r) + mset (emitted r) = mset ps"
    using holdAll_ordered [OF s order_refl, of n] by auto
  obtain r' where r': "emitAll r = Some r'" using emitAll_Some by blast
  have "set (held r) \<subseteq> set ps" by (metis r(3) set_mset_mset set_mset_union sup_ge1)
  then have "near T (set (held r))" using shuffled_near [OF s] unfolding near_def by blast
  from emitAll_ordered [OF r' r(2) this] emitAll_mset [OF r'] r r' show ?thesis by simp
qed

definition late :: "picture list" where
  "late = [\<lparr>pts = 2 ^ 33 - 3000, ccb = []\<rparr>, \<lparr>pts = 3000, ccb = []\<rparr>, \<lparr>pts = 0, ccb = []\<rparr>]"

definition late_time :: "picture \<Rightarrow> int" where
  "late_time p = (if pts p < 2 ^ 32 then pts p + 2 ^ 33 else pts p)"

theorem reorder_sorts_witness:
  "\<exists>r. Option.bind (holdAll late (NewReader 0)) emitAll = Some r \<and> mset (emitted r) = mset late \<and>
     sorted (map late_time (emitted r))"
proof (rule reorder_sorts)
  have j: "j < length late \<Longrightarrow> j = 0 \<or> j = 1 \<or> j = 2" for j by (auto simp: late_def)
  show "\<forall>p \<in> set late. pts p = late_time p mod 2 ^ 33" by (simp add: late_def late_time_def)
  show "\<forall>j < length late. \<forall>i < j. - 90000 \<le> late_time (late ! j) - late_time (late ! i) \<and>
      late_time (late ! j) - late_time (late ! i) \<le> 10 * 90000"
    using j by (auto simp: late_def late_time_def less_Suc_eq numeral_2_eq_2)
  show "\<forall>j < length late. \<forall>i. i + 8 < j \<longrightarrow> late_time (late ! i) \<le> late_time (late ! j)"
    using j by fastforce
qed

text \<open>
  C14. \<^verbatim>\<open>unescape\<close> undoes H.264's emulation prevention, for every payload, and its short cut for
  data without the sequence 00 00 03 returns what the loop would have built.
\<close>

theorem unescape_inverts:
  "unescape (escapeLoop 0 b) = b \<and> unescape b = unescapeLoop 0 b"
proof -
  have "unescape x = unescapeLoop 0 x" for x using unescapeLoop_id [of 0 x] by (simp add: unescape_def)
  then show ?thesis by (simp add: unescape_escapeLoop)
qed

end
