(* ===== verification/CaptionDecoderProps.thy ===== *)
theory CaptionDecoderProps
  imports CaptionDecoder CaptionsProps
begin

text \<open>
  Correctness of the caption decoder and of the WebVTT writer: no pair of bytes moves the
  cursor off the screen, every cue has text and lasts, a repeated command acts once, and a
  segment's cues are clipped to it and cannot break its syntax.
\<close>

subsection \<open>The cursor stays on the screen\<close>

definition dims :: "screen \<Rightarrow> bool" where
  "dims s \<longleftrightarrow> length s = 15 \<and> (\<forall>r \<in> set s. length r = 32)"

definition geo :: "Decoder \<Rightarrow> bool" where
  "geo d \<longleftrightarrow> row d < 15 \<and> col d < 32 \<and> 2 \<le> depth d \<and> depth d \<le> 4 \<and> dims (shown d) \<and> dims (hidden d) \<and> \<not> panicked d"

definition cues_ok :: "Decoder \<Rightarrow> bool" where
  "cues_ok d \<longleftrightarrow> (open_cue d \<longrightarrow> Text (cue d) \<noteq> []) \<and>
     (\<forall>c \<in> set (done_cues d). Text c \<noteq> [] \<and> 0 < ptsDelta (End c) (Start c))"

lemma dims_blank [simp]: "dims blank"
  by (simp add: dims_def blank_def blankRow_def)

lemma blankRow_len [simp]: "length blankRow = 32"
  by (simp add: blankRow_def)

lemma dims_nth: "dims s \<Longrightarrow> r < 15 \<Longrightarrow> length (s ! r) = 32"
  by (simp add: dims_def)

lemma dims_update: "dims s \<Longrightarrow> length v = 32 \<Longrightarrow> dims (s[r := v])"
  by (auto simp: dims_def dest: set_update_subset_insert [THEN subsetD])

lemma dims_setCell: "dims s \<Longrightarrow> r < 15 \<Longrightarrow> dims (setCell r c v s)"
  by (simp add: setCell_def dims_update dims_nth)

lemma dims_fold: "(\<And>x s. x \<in> set xs \<Longrightarrow> dims s \<Longrightarrow> dims (f x s)) \<Longrightarrow> dims s \<Longrightarrow> dims (fold f xs s)"
  by (induction xs arbitrary: s) auto

lemma endCue_frame [simp]:
  "shown (endCue t d) = shown d" "hidden (endCue t d) = hidden d" "dmode (endCue t d) = dmode d"
  "depth (endCue t d) = depth d" "row (endCue t d) = row d" "col (endCue t d) = col d"
  "channel (endCue t d) = channel d" "textSvc (endCue t d) = textSvc d" "lastPair (endCue t d) = lastPair d"
  "panicked (endCue t d) = panicked d" "open_cue (endCue t d) = False" "waiting (endCue t d) = waiting d"
  "typed (endCue t d) = typed d" "typedAt (endCue t d) = typedAt d"
  by (simp_all add: endCue_def Let_def)

lemma show_frame [simp]:
  "shown (show_now t d) = shown d" "hidden (show_now t d) = hidden d" "dmode (show_now t d) = dmode d"
  "depth (show_now t d) = depth d" "row (show_now t d) = row d" "col (show_now t d) = col d"
  "channel (show_now t d) = channel d" "textSvc (show_now t d) = textSvc d" "lastPair (show_now t d) = lastPair d"
  "panicked (show_now t d) = panicked d" "waiting (show_now t d) = False"
  "typed (show_now t d) = typed d" "typedAt (show_now t d) = typedAt d"
  by (simp_all add: show_now_def Let_def split: prod.splits)

lemma touch_frame [simp]:
  "shown (touch t d) = shown d" "hidden (touch t d) = hidden d" "dmode (touch t d) = dmode d"
  "depth (touch t d) = depth d" "row (touch t d) = row d" "col (touch t d) = col d"
  "channel (touch t d) = channel d" "textSvc (touch t d) = textSvc d" "lastPair (touch t d) = lastPair d"
  "panicked (touch t d) = panicked d"
  by (simp_all add: touch_def)

lemma geo_cues_show [simp]: "geo (show_now t d) = geo d" "geo (touch t d) = geo d" "geo (endCue t d) = geo d"
  by (simp_all add: geo_def)

lemma cues_endCue: "cues_ok d \<Longrightarrow> cues_ok (endCue t d)"
  by (auto simp: cues_ok_def endCue_def Let_def)

lemma cues_show: "cues_ok d \<Longrightarrow> cues_ok (show_now t d)"
proof -
  assume ok: "cues_ok d"
  obtain tx tp where r: "render (shown d) = (tx, tp)" by force
  have "cues_ok (d\<lparr>waiting := False\<rparr>)" using ok by (simp add: cues_ok_def)
  from cues_endCue [OF this, of t] ok r show ?thesis
    by (simp add: show_now_def Let_def) (auto simp: cues_ok_def)
qed

lemma cues_touch: "cues_ok d \<Longrightarrow> cues_ok (touch t d)"
proof -
  assume ok: "cues_ok d"
  then have "cues_ok (d\<lparr>typed := True, typedAt := t\<rparr>)" "cues_ok (d\<lparr>waiting := True\<rparr>)" by (simp_all add: cues_ok_def)
  with ok cues_show show ?thesis by (simp add: touch_def)
qed

lemma cues_cong:
  "open_cue d' = open_cue d \<Longrightarrow> cue d' = cue d \<Longrightarrow> done_cues d' = done_cues d \<Longrightarrow> cues_ok d' = cues_ok d"
  by (simp add: cues_ok_def)

lemma target_frame [simp]:
  "open_cue (target f d) = open_cue d" "cue (target f d) = cue d" "done_cues (target f d) = done_cues d"
  "row (target f d) = row d" "col (target f d) = col d" "depth (target f d) = depth d"
  "panicked (target f d) = panicked d" "dmode (target f d) = dmode d"
  by (simp_all add: target_def)

lemma geo_target: "geo d \<Longrightarrow> (\<And>s. dims s \<Longrightarrow> dims (f s)) \<Longrightarrow> geo (target f d)"
  by (simp add: geo_def target_def)

definition decoder_ok :: "Decoder \<Rightarrow> bool" where
  "decoder_ok d \<longleftrightarrow> geo d \<and> cues_ok d"

lemma put_ok: "decoder_ok d \<Longrightarrow> decoder_ok (put v d)"
proof -
  assume ok: "decoder_ok d"
  then have rc: "row d < 15" "col d < 32" by (auto simp: decoder_ok_def geo_def)
  have "geo (target (setCell (row d) (col d) v) d)" using ok rc by (intro geo_target) (auto simp: decoder_ok_def dims_setCell)
  moreover have "cues_ok (target (setCell (row d) (col d) v) d)" using ok by (simp add: decoder_ok_def cues_ok_def)
  ultimately show ?thesis using rc by (auto simp: put_def Let_def decoder_ok_def geo_def cues_ok_def)
qed

lemma show_ok: "decoder_ok d \<Longrightarrow> decoder_ok (show_now t d)"
  by (simp add: decoder_ok_def cues_show)

lemma touch_ok: "decoder_ok d \<Longrightarrow> decoder_ok (touch t d)"
  by (simp add: decoder_ok_def cues_touch)

lemma endCue_ok: "decoder_ok d \<Longrightarrow> decoder_ok (endCue t d)"
  by (simp add: decoder_ok_def cues_endCue)

lemma moveWindow_ok:
  assumes "decoder_ok d" "new < 15"
  shows "decoder_ok (moveWindow new d)"
proof -
  have r: "row d < 15" "dims (shown d)" using assms by (auto simp: decoder_ok_def geo_def)
  have "dims (fold (\<lambda>i moved. if i \<le> row d \<and> i \<le> new then moved[new - i := shown d ! (row d - i)] else moved) [0..<depth d] blank)"
    by (rule dims_fold) (use r in \<open>auto intro!: dims_update dims_nth\<close>)
  with assms r show ?thesis by (simp add: moveWindow_def decoder_ok_def geo_def cues_ok_def)
qed

lemma pacRows_range: "pacRows b = Some (p, q) \<Longrightarrow> p < 15 \<and> q < 15"
  by (auto simp: pacRows_def split: if_splits)

lemma pacCol: "drop_bit 1 (unat (b2 AND 0x0e :: byte)) * 4 < 32"
proof -
  have "unat (b2 AND 0x0e) \<le> 14" using unat_and_le [of b2 "0x0e"] by simp
  then show ?thesis by (simp add: drop_bit_eq_div)
qed

lemma decoder_ok_fields:
  "decoder_ok d \<Longrightarrow> r < 15 \<Longrightarrow> c < 32 \<Longrightarrow> decoder_ok (d\<lparr>row := r, col := c\<rparr>)"
  "decoder_ok d \<Longrightarrow> c < 32 \<Longrightarrow> decoder_ok (d\<lparr>col := c\<rparr>)"
  "decoder_ok d \<Longrightarrow> decoder_ok (d\<lparr>dmode := m\<rparr>)" "decoder_ok d \<Longrightarrow> decoder_ok (d\<lparr>textSvc := x\<rparr>)"
  "decoder_ok d \<Longrightarrow> decoder_ok (d\<lparr>typed := x\<rparr>)" "decoder_ok d \<Longrightarrow> decoder_ok (d\<lparr>lastPair := p\<rparr>)"
  "decoder_ok d \<Longrightarrow> decoder_ok (d\<lparr>channel := n\<rparr>)" "decoder_ok d \<Longrightarrow> decoder_ok (d\<lparr>typedAt := t\<rparr>)"
  "decoder_ok d \<Longrightarrow> dims s \<Longrightarrow> decoder_ok (d\<lparr>shown := s\<rparr>)" "decoder_ok d \<Longrightarrow> dims s \<Longrightarrow> decoder_ok (d\<lparr>hidden := s\<rparr>)"
  "decoder_ok d \<Longrightarrow> r < 15 \<Longrightarrow> decoder_ok (d\<lparr>row := r\<rparr>)"
  "decoder_ok d \<Longrightarrow> 2 \<le> n \<Longrightarrow> n \<le> 4 \<Longrightarrow> decoder_ok (d\<lparr>depth := n\<rparr>)"
  by (auto simp: decoder_ok_def geo_def cues_ok_def)

lemma decoder_okD: "decoder_ok d \<Longrightarrow> row d < 15 \<and> col d < 32 \<and> dims (shown d) \<and> dims (hidden d) \<and> \<not> panicked d"
  by (simp add: decoder_ok_def geo_def)

lemma pac_ok: "decoder_ok d \<Longrightarrow> decoder_ok (pac b1 b2 d)"
proof (cases "pacRows b1")
  case (Some pq)
  assume ok: "decoder_ok d"
  obtain p q where pq: "pq = (p, q)" by force
  define new where "new = (if b2 AND 0x20 \<noteq> 0 then q else p)"
  have n: "new < 15" using pacRows_range [of b1 p q] Some pq by (simp add: new_def)
  define d1 where "d1 = (if dmode d = rollUp \<and> new \<noteq> row d then moveWindow new d else d)"
  have "decoder_ok d1" using ok n by (simp add: d1_def moveWindow_ok)
  moreover have "pac b1 b2 d = d1\<lparr>row := new, col := (if b2 AND 0x10 \<noteq> 0 then drop_bit 1 (unat (b2 AND 0x0e)) * 4 else 0)\<rparr>"
    unfolding pac_def Some pq by (simp only: option.case prod.case Let_def new_def d1_def)
  ultimately show ?thesis using n pacCol by (auto intro!: decoder_ok_fields(1))
qed (simp add: pac_def)

lemma backspace_ok: "decoder_ok d \<Longrightarrow> decoder_ok (backspace t d)"
proof -
  assume ok: "decoder_ok d"
  let ?d = "d\<lparr>col := col d - 1\<rparr>"
  have d: "decoder_ok ?d" using ok decoder_okD [OF ok] by (intro decoder_ok_fields) auto
  have "decoder_ok (target (setCell (row ?d) (col ?d) 0) ?d)"
    using d geo_target [of ?d "setCell (row ?d) (col ?d) 0"] dims_setCell by (auto simp: decoder_ok_def cues_ok_def geo_def)
  with ok decoder_okD [OF d] touch_ok show ?thesis by (auto simp: backspace_def Let_def)
qed

lemma deleteToEnd_ok: "decoder_ok d \<Longrightarrow> decoder_ok (deleteToEnd t d)"
proof -
  assume ok: "decoder_ok d"
  then have r: "row d < 15" by (simp add: decoder_okD)
  have "dims (fold (\<lambda>c. setCell (row d) c 0) [col d..<32] s)" if "dims s" for s
    by (rule dims_fold) (use r that dims_setCell in auto)
  then have "decoder_ok (target (\<lambda>s. fold (\<lambda>c. setCell (row d) c 0) [col d..<32] s) d)"
    using ok geo_target [of d] by (simp add: decoder_ok_def cues_ok_def)
  with r touch_ok show ?thesis by (simp add: deleteToEnd_def)
qed

lemma rollUp_depth: "b2 = 0x25 \<or> b2 = 0x26 \<or> b2 = 0x27 \<Longrightarrow> unat (b2 - 0x25 :: byte) \<le> 2"
  by auto

lemma rollUpMode_ok:
  assumes ok: "decoder_ok d" and b: "b2 = 0x25 \<or> b2 = 0x26 \<or> b2 = 0x27"
  shows "decoder_ok (rollUpMode t b2 d)"
proof -
  have "decoder_ok (d\<lparr>shown := blank, hidden := blank, row := 14\<rparr>)" using ok by (intro decoder_ok_fields) auto
  then have "decoder_ok (if dmode d \<noteq> rollUp then show_now t (d\<lparr>shown := blank, hidden := blank, row := 14\<rparr>) else d)"
    using ok show_ok by simp
  with rollUp_depth [OF b] show ?thesis unfolding rollUpMode_def Let_def by (intro decoder_ok_fields) auto
qed

lemma carriageReturn_ok: "decoder_ok d \<Longrightarrow> decoder_ok (carriageReturn t d)"
proof -
  assume ok: "decoder_ok d"
  define d1 where "d1 = show_now t d"
  have d1: "decoder_ok d1" using ok show_ok by (simp add: d1_def)
  define top where "top = row d1 + 1 - depth d1"
  define s3 where "s3 = fold (\<lambda>r s. s[r := blankRow]) [0..<top] ((fold (\<lambda>r s. s[r := s ! (r + 1)]) [top..<row d1] (shown d1))[row d1 := blankRow])"
  have "dims (fold (\<lambda>r s. s[r := s ! (r + 1)]) [top..<row d1] (shown d1))"
    by (rule dims_fold) (use decoder_okD [OF d1] in \<open>auto intro!: dims_update dims_nth\<close>)
  then have b: "dims ((fold (\<lambda>r s. s[r := s ! (r + 1)]) [top..<row d1] (shown d1))[row d1 := blankRow])"
    by (simp add: dims_update)
  have "dims s3" unfolding s3_def by (rule dims_fold [OF _ b]) (simp add: dims_update)
  then have "decoder_ok (d1\<lparr>shown := s3, col := 0\<rparr>)" using d1 by (intro decoder_ok_fields) auto
  then have "decoder_ok ((show_now t (d1\<lparr>shown := s3, col := 0\<rparr>))\<lparr>typed := False\<rparr>)" by (rule decoder_ok_fields(5) [OF show_ok])
  moreover have "carriageReturn t d = (if dmode d \<noteq> rollUp then d else (show_now t (d1\<lparr>shown := s3, col := 0\<rparr>))\<lparr>typed := False\<rparr>)"
    using decoder_okD [OF d1] by (simp add: carriageReturn_def d1_def [symmetric] Let_def top_def s3_def)
  ultimately show ?thesis using ok by simp
qed

lemma misc_ok: "decoder_ok d \<Longrightarrow> decoder_ok (misc t b2 d)"
  using decoder_okD [of d]
  by (auto simp: misc_def intro!: decoder_ok_fields show_ok backspace_ok deleteToEnd_ok rollUpMode_ok carriageReturn_ok)

lemma tables_len: "length special = 16" "length extended12 = 32" "length extended13 = 32"
  by (simp_all add: special_def extended12_def extended13_def)

lemma unat_sub_le: "lo \<le> b \<Longrightarrow> b \<le> hi \<Longrightarrow> unat (b - lo :: byte) \<le> unat hi - unat lo"
  by (simp add: unat_sub word_le_nat_alt)

lemma putFrom_ok: "decoder_ok d \<Longrightarrow> i < length tbl \<Longrightarrow> decoder_ok (putFrom tbl i d)"
  by (simp add: putFrom_def put_ok)

lemma control_ok: "decoder_ok d \<Longrightarrow> decoder_ok (control t b1 b2 d)"
proof -
  assume ok: "decoder_ok d"
  have c: "col d - 1 < 32" using decoder_okD [OF ok] by linarith
  have "unat (b2 - 0x30) < length special" if "0x30 \<le> b2" "b2 \<le> 0x3f" using unat_sub_le [OF that] by (simp add: tables_len)
  moreover have "unat (b2 - 0x20) < length extended12 \<and> unat (b2 - 0x20) < length extended13" if "0x20 \<le> b2" "b2 \<le> 0x3f"
    using unat_sub_le [OF that] by (simp add: tables_len)
  ultimately show ?thesis using ok c
    by (auto simp: control_def Let_def intro!: misc_ok decoder_ok_fields pac_ok touch_ok put_ok putFrom_ok)
qed

lemma pair_ok: "decoder_ok d \<Longrightarrow> decoder_ok (pair t b1 b2 d)"
  by (auto simp: pair_def Let_def intro!: control_ok decoder_ok_fields show_ok touch_ok put_ok)

lemma feedPairs_ok: "decoder_ok d \<Longrightarrow> decoder_ok (feedPairs t ps d)"
  by (induction t ps d rule: feedPairs.induct) (auto simp: pair_ok)

lemma due_ok: "decoder_ok d \<Longrightarrow> decoder_ok (due t d)"
  by (auto simp: due_def intro!: show_ok decoder_ok_fields)

lemma Feed_ok: "decoder_ok d \<Longrightarrow> decoder_ok (Feed t ps d)"
  by (simp add: Feed_def feedPairs_ok due_ok)

lemma NewDecoder_ok: "decoder_ok NewDecoder"
  by (simp add: decoder_ok_def geo_def cues_ok_def NewDecoder_def)

subsection \<open>Numbers and entities\<close>

text \<open>Reading a number and the three entities back.\<close>

definition num :: "rune list \<Rightarrow> nat" where
  "num s = fold (\<lambda>c n. n * 10 + (c - 48)) s 0"

lemma num_snoc: "num (s @ [c]) = num s * 10 + (c - 48)"
  by (simp add: num_def)

lemma num_dec: "num (dec n) = n"
proof (induction n rule: dec.induct)
  case (1 n)
  show ?case
  proof (cases "n < 10")
    case True
    then show ?thesis by (simp add: dec.simps [of n] num_def)
  next
    case False
    with 1 show ?thesis by (subst dec.simps) (simp add: num_snoc)
  qed
qed

lemma num_zeros: "num (replicate k 48 @ s) = num s"
  by (induction k) (simp_all add: num_def)

lemma num_pad [simp]: "num (pad w n) = n"
  by (simp add: pad_def num_zeros num_dec)

lemma dec_len: "n < 10 ^ k \<Longrightarrow> 0 < k \<Longrightarrow> length (dec n) \<le> k"
proof (induction n arbitrary: k rule: dec.induct)
  case (1 n)
  show ?case
  proof (cases "n < 10")
    case True
    with 1 show ?thesis by (simp add: dec.simps [of n])
  next
    case False
    then obtain m where k: "k = Suc m" "0 < m" using "1.prems" by (cases k; cases "k - 1") auto
    have "n div 10 < 10 ^ m" using "1.prems"(1) k(1) by (simp add: less_mult_imp_div_less mult.commute)
    from "1.IH" [OF False this k(2)] k(1) show ?thesis by (subst dec.simps) simp
  qed
qed

lemma pad_len: "n < 10 ^ w \<Longrightarrow> 0 < w \<Longrightarrow> length (pad w n) = w"
  using dec_len [of n w] by (simp add: pad_def)

fun unhtml :: "rune list \<Rightarrow> rune list" where
  "unhtml (c # s) =
     (if c = 0x26 then
        (if take 4 s = ascii ''amp;'' then 0x26 # unhtml (drop 4 s)
         else if take 3 s = ascii ''lt;'' then 0x3c # unhtml (drop 3 s)
         else if take 3 s = ascii ''gt;'' then 0x3e # unhtml (drop 3 s)
         else c # unhtml s)
      else c # unhtml s)"
| "unhtml [] = []"

lemma ascii_entities:
  "ascii ''&amp;'' = 0x26 # ascii ''amp;''" "ascii ''&lt;'' = 0x26 # ascii ''lt;''" "ascii ''&gt;'' = 0x26 # ascii ''gt;''"
  "ascii ''amp;'' = [97, 109, 112, 59]" "ascii ''lt;'' = [108, 116, 59]" "ascii ''gt;'' = [103, 116, 59]"
  by (simp_all add: ascii_def)

lemma unhtml_escape: "unhtml (escape s) = s"
  by (induction s) (auto simp: escape_def ascii_entities)

lemma escape_plain: "0x3c \<notin> set (escape s) \<and> 0x3e \<notin> set (escape s)"
  by (induction s) (auto simp: escape_def ascii_entities)

subsection \<open>A command sent twice\<close>

lemma put_last [simp]: "lastPair (put v d) = lastPair d"
  by (simp add: put_def Let_def target_def)

lemma putFrom_last [simp]: "lastPair (putFrom tbl i d) = lastPair d"
  by (simp add: putFrom_def)

lemma target_last [simp]: "lastPair (target f d) = lastPair d"
  by (simp add: target_def)

lemma pac_last [simp]: "lastPair (pac b1 b2 d) = lastPair d"
  by (simp add: pac_def Let_def moveWindow_def split: option.splits prod.splits)

lemma misc_last [simp]: "lastPair (misc t b2 d) = lastPair d"
  by (simp add: misc_def backspace_def deleteToEnd_def rollUpMode_def carriageReturn_def Let_def)

lemma control_last [simp]: "lastPair (control t b1 b2 d) = lastPair d"
  by (simp add: control_def Let_def)

subsection \<open>Properties\<close>

text \<open>
  C15. The decoder is safe on any input: for every sequence of pictures with any times and any
  caption bytes, no table or screen index is out of range, the cursor and the roll-up depth
  stay in their ranges, the open cue has text, and every finished cue has text and ends after
  it starts on the 33-bit clock.
\<close>

theorem decoder_safe:
  "let d = Close t (fold (\<lambda>(t, ps). Feed t ps) pics NewDecoder) in
     \<not> panicked d \<and> row d < 15 \<and> col d < 32 \<and> 2 \<le> depth d \<and> depth d \<le> 4 \<and>
     (\<forall>c \<in> set (fst (Take d)). Text c \<noteq> [] \<and> 0 < ptsDelta (End c) (Start c))"
proof -
  have "decoder_ok (fold (\<lambda>(t, ps). Feed t ps) pics d)" if "decoder_ok d" for d
    using that by (induction pics arbitrary: d) (auto simp: Feed_ok)
  then have "decoder_ok (Close t (fold (\<lambda>(t, ps). Feed t ps) pics NewDecoder))"
    by (simp add: Close_def endCue_ok NewDecoder_ok)
  then show ?thesis by (simp add: Let_def decoder_ok_def geo_def cues_ok_def Take_def)
qed

text \<open>A pop-on caption: RCL, "Hi", EOC at 90000, closed at 180000.\<close>

definition hi :: "(int \<times> bytes) list" where
  "hi = [(90000, [0x14, 0x20, 0x48, 0x69, 0x14, 0x2f])]"

lemma line_blank: "lineOf blankRow = []"
  by (simp add: lineOf_def blankRow_def trimRunes_def isSpace_def)

lemma hi_line: "lineOf ((blankRow[0 := 72])[Suc 0 := 105]) = [72, 105]"
proof -
  have b: "blankRow = 0 # 0 # replicate 30 0" by (simp add: blankRow_def) (simp flip: replicate_Suc)
  have "(blankRow[0 := 72])[Suc 0 := 105] = 72 # 105 # replicate 30 0"
    unfolding b by simp
  moreover have "dropWhile isSpace (replicate 30 32 @ [105, 72]) = [105, 72]"
    by (subst dropWhile_append2) (simp_all add: isSpace_def)
  ultimately show ?thesis by (simp add: lineOf_def trimRunes_def isSpace_def [of 72])
qed

lemma empty_lines: "filter (\<lambda>(r, l). l \<noteq> []) (enumerate n (replicate k [])) = []"
  by (induction k arbitrary: n) auto

lemma hi_render: "render (setCell 14 (Suc 0) 105 (setCell 14 0 72 blank)) = ([72, 105], False)"
proof -
  have b: "blank = replicate 14 blankRow @ [blankRow]"
    by (simp add: blank_def replicate_append_same)
       (simp flip: replicate_Suc)
  have "setCell 14 (Suc 0) 105 (setCell 14 0 72 blank) = replicate 14 blankRow @ [(blankRow[0 := 72])[Suc 0 := 105]]"
    by (simp add: setCell_def b list_update_append nth_append)
  then show ?thesis
    by (simp add: render_def hi_line line_blank enumerate_append_eq empty_lines)
qed

lemma hi_run: "fst (Take (Close 180000 (fold (\<lambda>(t, ps). Feed t ps) hi NewDecoder))) =
     [\<lparr>Start = 90000, End = 180000, Text = [0x48, 0x69], Top = False\<rparr>]"
  by (simp add: hi_def Feed_def due_def NewDecoder_def pair_def control_def misc_def put_def target_def touch_def
     show_now_def endCue_def Take_def Close_def basic_def hi_render Let_def ptsDelta_def)

theorem decoder_safe_witness:
  "fst (Take (Close 180000 (fold (\<lambda>(t, ps). Feed t ps) hi NewDecoder))) =
     [\<lparr>Start = 90000, End = 180000, Text = [0x48, 0x69], Top = False\<rparr>] \<and>
   0 < ptsDelta 180000 90000"
proof -
  have v: "fst (Take (Close 180000 (fold (\<lambda>(t, ps). Feed t ps) hi NewDecoder))) =
     [\<lparr>Start = 90000, End = 180000, Text = [0x48, 0x69], Top = False\<rparr>]"
    by (rule hi_run)
  with decoder_safe [of 180000 hi] show ?thesis by (simp add: Let_def)
qed

text \<open>
  Commands are sent twice so that one lost pair does not lose the command, and they act
  once: after a control pair that is not itself a repeat, the same pair again changes neither
  screen, nor the mode, the depth, the cursor, the channel or the text flag, and a third copy
  would be a new command.
\<close>

theorem control_twice_acts_once:
  assumes "0x10 \<le> b1" "b1 \<le> 0x1f" "lastPair d \<noteq> (b1, b2)"
  shows "let d1 = pair t b1 b2 d; d2 = pair t' b1 b2 d1 in
     shown d2 = shown d1 \<and> hidden d2 = hidden d1 \<and> dmode d2 = dmode d1 \<and> depth d2 = depth d1 \<and>
     row d2 = row d1 \<and> col d2 = col d1 \<and> channel d2 = channel d1 \<and> textSvc d2 = textSvc d1 \<and>
     lastPair d1 = (b1, b2) \<and> lastPair d2 = (0, 0)"
proof -
  have nz: "\<not> (b1 = 0 \<and> b2 = 0)" using assms(1) by auto
  define e where "e = (if waiting d then show_now t d else d)"
  have "lastPair e \<noteq> (b1, b2)" using assms(3) by (simp add: e_def)
  then have l: "lastPair (pair t b1 b2 d) = (b1, b2)"
    unfolding pair_def Let_def e_def [symmetric] using nz assms(1,2) by auto
  define d1 where "d1 = pair t b1 b2 d"
  have "pair t' b1 b2 d1 = (if waiting d1 then show_now t' d1 else d1)\<lparr>lastPair := (0, 0)\<rparr>"
    unfolding pair_def Let_def using nz assms(1,2) l by (auto simp: d1_def)
  with l show ?thesis by (simp add: Let_def d1_def [symmetric])
qed

theorem control_twice_acts_once_witness:
  "let d1 = pair 0 0x14 0x25 NewDecoder; d2 = pair 0 0x14 0x25 d1 in dmode d2 = dmode d1 \<and> lastPair d2 = (0, 0)"
  using control_twice_acts_once [of "0x14" NewDecoder "0x25" 0 0] by (simp add: Let_def NewDecoder_def)

text \<open>
  A segment's cues are exactly those on screen during it, clipped to it, also across a
  wrap of the 33-bit clock: for unwrapped times \<open>S\<close> of the segment's start and \<open>a\<close>, \<open>b\<close> of the
  cue, all within half the clock's range of each other, the cue is written if and only if it
  overlaps the segment, with its times relative to the segment's start and inside it.
\<close>

theorem segment_clips:
  assumes "start = S mod 2 ^ 33" "Start c = a mod 2 ^ 33" "End c = b mod 2 ^ 33"
    "\<bar>a - S\<bar> < 2 ^ 32" "\<bar>b - S\<bar> < 2 ^ 32"
  shows "block start dur c =
     (if max a S < min b (S + dur)
      then [0x0a] @ stamp (max a S - S) @ ascii '' --> '' @ stamp (min b (S + dur) - S) @
           (if Top c then ascii '' line:10%'' else []) @ [0x0a] @ escape (Text c) @ [0x0a]
      else [])"
proof -
  have "ptsDelta (Start c) start = a - S" "ptsDelta (End c) start = b - S"
    using ptsDelta_unwrapped [OF assms(4)] ptsDelta_unwrapped [OF assms(5)] assms(1-3) by simp_all
  then have "clip start dur c = (max a S - S, min b (S + dur) - S)" by (auto simp: clip_def)
  then show ?thesis by (auto simp: block_def)
qed

text \<open>
  C16. What is written can be read back. A time stamp under a hundred hours is the fixed-width
  \<^verbatim>\<open>hh:mm:ss.mmm\<close> whose fields add up to the time in milliseconds; a cue's text has no angle
  bracket, so it can neither open a tag nor look like the arrow of a timing line, and decoding
  its entities gives the text back.
\<close>

theorem vtt_reads_back:
  assumes "0 \<le> t" "t < 100 * 3600 * 90000"
  shows "length (stamp t) = 12 \<and>
    int (num (take 2 (stamp t)) * 3600000 + num (take 2 (drop 3 (stamp t))) * 60000 +
         num (take 2 (drop 6 (stamp t))) * 1000 + num (drop 9 (stamp t))) = t div 90 \<and>
    num (take 2 (drop 3 (stamp t))) < 60 \<and> num (take 2 (drop 6 (stamp t))) < 60 \<and>
    unhtml (escape s) = s \<and> 0x3c \<notin> set (escape s) \<and> 0x3e \<notin> set (escape s)"
proof -
  define ms where "ms = nat (t div 90)"
  have q: "nat (quot t 90) = ms" using assms(1) by (simp add: ms_def)
  have lt: "ms < 360000000" using assms by (simp add: ms_def)
  let ?h = "pad 2 (ms div 3600000)" and ?m = "pad 2 (ms div 60000 mod 60)" and ?s = "pad 2 (ms div 1000 mod 60)"
    and ?z = "pad 3 (ms mod 1000)"
  have st: "stamp t = ?h @ [58] @ ?m @ [58] @ ?s @ [46] @ ?z" by (simp add: stamp_def Let_def q ascii_def)
  have "ms div 3600000 < 10 ^ 2" using lt by simp
  then have len: "length ?h = 2" "length ?m = 2" "length ?s = 2" "length ?z = 3"
    by (simp_all add: pad_len less_trans [OF mod_less_divisor])
  have p: "take 2 (stamp t) = ?h" "take 2 (drop 3 (stamp t)) = ?m" "take 2 (drop 6 (stamp t)) = ?s" "drop 9 (stamp t) = ?z"
    using len by (simp_all add: st)
  have "ms div 3600000 * 3600000 + ms div 60000 mod 60 * 60000 + ms div 1000 mod 60 * 1000 + ms mod 1000 = ms"
  proof -
    have "ms div 3600000 = ms div 60000 div 60" "ms div 60000 = ms div 1000 div 60"
      by (simp_all add: div_mult2_eq [symmetric])
    then show ?thesis using div_mult_mod_eq [of ms 1000] div_mult_mod_eq [of "ms div 1000" 60] div_mult_mod_eq [of "ms div 60000" 60]
      by linarith
  qed
  then have "int (num ?h * 3600000 + num ?m * 60000 + num ?s * 1000 + num ?z) = t div 90"
    using assms(1) by (simp add: ms_def pos_imp_zdiv_nonneg_iff)
  then show ?thesis unfolding p using len by (simp add: st unhtml_escape escape_plain)
qed

lemma dec_small: "n < 10 \<Longrightarrow> dec n = [48 + n]"
  by (simp add: dec.simps)

lemma dec_big: "\<not> n < 10 \<Longrightarrow> dec n = dec (n div 10) @ [48 + n mod 10]"
  by (subst dec.simps) simp

lemma replicate_two: "replicate 2 x = [x, x]" by (simp add: numeral_2_eq_2)

theorem vtt_reads_back_witness:
  "stamp (90 * 3723004) = ascii ''01:02:03.004'' \<and> length (stamp (90 * 3723004)) = 12 \<and> unhtml (escape [0x3c, 0x61]) = [0x3c, 0x61]"
proof -
  have "stamp (90 * 3723004) = ascii ''01:02:03.004''" 
    by (simp add: stamp_def pad_def dec_small dec_big ascii_def replicate_two)
  with vtt_reads_back [of "90 * 3723004" "[0x3c, 0x61]"] show ?thesis by simp
qed

end
