(* ===== verification/Rooms.thy ===== *)
theory Rooms
  imports Prelude Complex_Main "HOL-Library.List_Lexorder" "HOL-Library.Char_ord"
begin

text \<open>
  The sync rooms of \<^verbatim>\<open>server/internal/realtime/rooms.go\<close>: the contract by which every screen
  of a room shows the same frame, and the operations that move it. Milliseconds and rates
  are \<^verbatim>\<open>float64\<close> in the code and exact rationals here (0.975 is 39/40); instants are Go times.
  A map range takes its order as an argument. Each operation runs under the mutex; \<open>now\<close> is
  what it reads from the clock.
\<close>

subsection \<open>State\<close>

definition latencies :: "string \<rightharpoonup> duration" where
  "latencies = [''lowest'' \<mapsto> 6 * Second, ''balanced'' \<mapsto> 16 * Second, ''stable'' \<mapsto> 20 * Second]"

record RoomState =
  Room :: string
  ChannelID :: int
  Mode :: string
  AnchorServer :: rat
  AnchorMedia :: rat
  Rate :: rat
  Latency :: string
  LatencyMS :: rat
  Version :: int
  Members :: int
  Synced :: bool
  People :: "(string \<times> string) list"

definition Target :: "RoomState \<Rightarrow> rat \<Rightarrow> rat" where
  "Target s now = AnchorMedia s + (now - AnchorServer s) * Rate s"

record Command =
  Action :: string
  MediaTime :: rat
  CLatency :: string

datatype room_error = NotInRoom | BadLatency | ErrFollowRoom | UnknownAction

record Rooms =
  rooms :: "string \<rightharpoonup> RoomState"
  stepped :: "string \<rightharpoonup> gotime"
  born :: "string \<rightharpoonup> gotime"
  measured :: "string set"

definition NewRooms :: Rooms where
  "NewRooms = \<lparr>rooms = Map.empty, stepped = Map.empty, born = Map.empty, measured = {}\<rparr>"

abbreviation (input) stallStep :: duration where "stallStep \<equiv> 2 * Second"
abbreviation (input) stallQuiet :: duration where "stallQuiet \<equiv> 3 * Second"
abbreviation (input) startCushion :: duration where "startCushion \<equiv> 1500 * Millisecond"
abbreviation (input) youngTune :: duration where "youngTune \<equiv> 4 * Second"
abbreviation (input) tileCushion :: duration where "tileCushion \<equiv> startCushion + stallStep"
abbreviation (input) settleRate :: rat where "settleRate \<equiv> 39 / 40"
abbreviation (input) youngRoom :: duration where "youngRoom \<equiv> 30 * Second"
abbreviation (input) aheadMin :: duration where "aheadMin \<equiv> 3000 * Millisecond"
abbreviation (input) behindMin :: duration where "behindMin \<equiv> 300 * Millisecond"
abbreviation (input) measureMargin :: duration where "measureMargin \<equiv> 2500 * Millisecond"
abbreviation (input) soloMargin :: duration where "soloMargin \<equiv> 500 * Millisecond"

subsection \<open>Clocks\<close>

text \<open>The Unix epoch in nanoseconds since the zero time.\<close>

abbreviation (input) unixEpoch :: gotime where "unixEpoch \<equiv> 62135596800 * Second"

definition unixMS :: "gotime \<Rightarrow> rat" where
  "unixMS t = of_int (t - unixEpoch) / 1000000"

text \<open>\<^verbatim>\<open>float64(d / time.Millisecond)\<close>.\<close>

definition millis :: "duration \<Rightarrow> rat" where
  "millis d = of_int (quot d Millisecond)"

text \<open>\<^verbatim>\<open>time.Duration(x)\<close> of a float drops the fraction.\<close>

definition trunc :: "rat \<Rightarrow> int" where
  "trunc x = (if 0 \<le> x then \<lfloor>x\<rfloor> else - \<lfloor>- x\<rfloor>)"

definition latencyOf :: "string \<Rightarrow> duration" where
  "latencyOf l = (case latencies l of Some d \<Rightarrow> d | None \<Rightarrow> 16 * Second)"

definition latencyMS :: "string \<Rightarrow> rat" where
  "latencyMS l = millis (latencyOf l)"

definition liveAnchor :: "gotime \<Rightarrow> string \<Rightarrow> rat" where
  "liveAnchor now l = unixMS (now - latencyOf l)"

definition HasPrefix :: "string \<Rightarrow> string \<Rightarrow> bool" where
  "HasPrefix s p \<longleftrightarrow> take (length p) s = p"

subsection \<open>Joining and leaving\<close>

definition newRoom :: "gotime \<Rightarrow> string \<Rightarrow> int \<Rightarrow> rat \<Rightarrow> string \<Rightarrow> RoomState" where
  "newRoom now room ch earliest latency0 =
     (let latency = (if latencies latency0 = None then ''balanced'' else latency0);
          mode = (if HasPrefix room ''group:'' \<or> HasPrefix room ''multiview:'' then ''group'' else ''follow'');
          media0 = liveAnchor now latency;
          server0 = unixMS now;
          (media, server) =
            (if earliest > media0 then
               let cushion = (if HasPrefix room ''multiview:'' then tileCushion else startCushion);
                   age = trunc ((server0 - earliest) * of_int Millisecond);
                   wait = max 0 (cushion - max 0 (age - youngTune))
               in (earliest, server0 + millis wait)
             else (media0, server0))
      in \<lparr>Room = room, ChannelID = ch, Mode = mode, AnchorServer = server, AnchorMedia = media, Rate = 1,
          Latency = latency, LatencyMS = latencyMS latency, Version = 1, Members = 0, Synced = False, People = []\<rparr>)"

definition JoinAt :: "gotime \<Rightarrow> string \<Rightarrow> int \<Rightarrow> rat \<Rightarrow> string \<Rightarrow> Rooms \<Rightarrow> RoomState \<times> Rooms" where
  "JoinAt now room ch earliest latency r =
     (let (st, r1) =
            (case rooms r room of
               Some st \<Rightarrow> (st, r)
             | None \<Rightarrow> (newRoom now room ch earliest latency, r\<lparr>born := (born r)(room \<mapsto> now)\<rparr>));
          st' = st\<lparr>Members := Members st + 1\<rparr>
      in (st', r1\<lparr>rooms := (rooms r1)(room \<mapsto> st')\<rparr>))"

definition Join :: "gotime \<Rightarrow> string \<Rightarrow> int \<Rightarrow> rat \<Rightarrow> Rooms \<Rightarrow> RoomState \<times> Rooms" where
  "Join now room ch earliest r = JoinAt now room ch earliest ''balanced'' r"

definition Leave :: "string \<Rightarrow> Rooms \<Rightarrow> Rooms" where
  "Leave room r =
     (case rooms r room of
        None \<Rightarrow> r
      | Some st \<Rightarrow>
          let st' = st\<lparr>Members := Members st - 1\<rparr> in
          if Members st' \<le> 0 then
            \<lparr>rooms = (rooms r)(room := None), stepped = (stepped r)(room := None),
             born = (born r)(room := None), measured = measured r - {room}\<rparr>
          else r\<lparr>rooms := (rooms r)(room \<mapsto> st')\<rparr>)"

subsection \<open>Steps of one room\<close>

text \<open>These return the room's state and the table; the callers store the state back.\<close>

definition stepBackLocked :: "gotime \<Rightarrow> string \<Rightarrow> RoomState \<Rightarrow> Rooms \<Rightarrow> RoomState \<times> Rooms" where
  "stepBackLocked now room st r =
     (let solo = (Mode st = ''follow'' \<and> Members st = 1);
          nowMS = unixMS now;
          floor = liveAnchor now (Latency st);
          current = Target st nowMS
      in if (\<not> solo \<and> \<not> HasPrefix room ''multiview:'') \<or> Rate st = 0 then (st, r)
         else if time_sub now (case stepped r room of Some t \<Rightarrow> t | None \<Rightarrow> 0) < stallQuiet then (st, r)
         else if current \<le> floor then (st, r)
         else (st\<lparr>AnchorMedia := max (current - millis stallStep) floor, AnchorServer := nowMS, Version := Version st + 1\<rparr>,
               r\<lparr>stepped := (stepped r)(room \<mapsto> now)\<rparr>))"

definition soloTile :: "string \<Rightarrow> RoomState \<Rightarrow> bool" where
  "soloTile room st \<longleftrightarrow> Members st = 1 \<and> HasPrefix room ''multiview:'' \<and> count_list room CHR '':'' = 2"

definition measureLocked :: "gotime \<Rightarrow> string \<Rightarrow> RoomState \<Rightarrow> string \<Rightarrow> rat \<Rightarrow> Rooms \<Rightarrow> RoomState \<times> Rooms" where
  "measureLocked now room st action media r =
     (let nowMS = unixMS now;
          current = Target st nowMS;
          margin = (if Members st \<le> 1 then soloMargin else measureMargin);
          to = min (media - millis margin) (unixMS (now - latencyOf ''lowest''))
      in if (Mode st \<noteq> ''follow'' \<and> \<not> soloTile room st) \<or> Rate st \<noteq> 1 \<or> media \<le> 0 then (st, r)
         else if action = ''ahead'' \<and>
                 (time_sub now (case born r room of Some t \<Rightarrow> t | None \<Rightarrow> 0) > youngRoom \<or>
                  media - current < millis aheadMin \<or> to \<le> current) then (st, r)
         else if action = ''behind'' \<and> (room \<notin> measured r \<or> current - media < millis behindMin) then (st, r)
         else (st\<lparr>AnchorMedia := to, AnchorServer := nowMS, Version := Version st + 1\<rparr>,
               r\<lparr>measured := insert room (measured r)\<rparr>))"

definition setLatencyLocked :: "gotime \<Rightarrow> string \<Rightarrow> RoomState \<Rightarrow> RoomState" where
  "setLatencyLocked now latency st =
     (let st1 = st\<lparr>Latency := latency, LatencyMS := latencyMS latency\<rparr>;
          st2 = (if Mode st1 = ''follow''
                 then st1\<lparr>AnchorServer := unixMS now, AnchorMedia := liveAnchor now latency, Rate := 1\<rparr> else st1)
      in st2\<lparr>Version := Version st2 + 1\<rparr>)"

subsection \<open>Settling\<close>

text \<open>One room in the loop of \<^verbatim>\<open>Settle\<close>: its new state and how long until it is on target, None when it stays put.\<close>

definition settleRoom :: "gotime \<Rightarrow> int \<Rightarrow> rat \<Rightarrow> bool \<Rightarrow> bool \<Rightarrow> RoomState \<Rightarrow> (RoomState \<times> duration) option" where
  "settleRoom now ch earliest ease isMeasured st =
     (if ChannelID st \<noteq> ch \<or> Mode st \<noteq> ''follow'' \<or> Rate st \<noteq> 1 \<or> isMeasured then None
      else if ease \<and> Members st < 2 then None
      else
        let nowMS = unixMS now; target = liveAnchor now (Latency st) in
        if earliest > target then None
        else
          let gap = Target st nowMS - target in
          if gap \<le> 500 then None
          else if \<not> ease then
            Some (st\<lparr>AnchorMedia := target, AnchorServer := nowMS, Version := Version st + 1\<rparr>, 0)
          else
            Some (st\<lparr>AnchorMedia := Target st nowMS, AnchorServer := nowMS, Rate := settleRate, Version := Version st + 1\<rparr>,
                  trunc (gap / (1 - settleRate) * of_int Millisecond)))"

text \<open>The loop visits the rooms in \<open>order\<close>; the clock may move between two of them.\<close>

fun settleLoop :: "(string \<Rightarrow> gotime) \<Rightarrow> int \<Rightarrow> rat \<Rightarrow> (string \<Rightarrow> bool) \<Rightarrow> string list \<Rightarrow> Rooms \<Rightarrow> (RoomState \<times> duration) list \<times> Rooms" where
  "settleLoop now ch earliest eases [] r = ([], r)"
| "settleLoop now ch earliest eases (n # ns) r =
     (case rooms r n of
        None \<Rightarrow> settleLoop now ch earliest eases ns r
      | Some st \<Rightarrow>
          (case settleRoom (now n) ch earliest (eases (Room st)) (Room st \<in> measured r) st of
             None \<Rightarrow> settleLoop now ch earliest eases ns r
           | Some (st', until) \<Rightarrow>
               let (changed, r') = settleLoop now ch earliest eases ns (r\<lparr>rooms := (rooms r)(n \<mapsto> st')\<rparr>)
               in ((st', until) # changed, r')))"

definition Settle :: "(string \<Rightarrow> gotime) \<Rightarrow> int \<Rightarrow> rat \<Rightarrow> (string \<Rightarrow> bool) \<Rightarrow> string list \<Rightarrow> Rooms \<Rightarrow> (RoomState \<times> duration) list \<times> Rooms" where
  "Settle now ch earliest eases order r =
     (if earliest \<le> 0 then ([], r) else settleLoop now ch earliest eases order r)"

definition EndEase :: "gotime \<Rightarrow> string \<Rightarrow> int \<Rightarrow> Rooms \<Rightarrow> RoomState option \<times> Rooms" where
  "EndEase now room version r =
     (case rooms r room of
        None \<Rightarrow> (None, r)
      | Some st \<Rightarrow>
          if Version st \<noteq> version \<or> Rate st \<noteq> settleRate then (None, r)
          else
            let nowMS = unixMS now;
                st' = st\<lparr>AnchorMedia := Target st nowMS, AnchorServer := nowMS, Rate := 1, Version := Version st + 1\<rparr>
            in (Some st', r\<lparr>rooms := (rooms r)(room \<mapsto> st')\<rparr>))"

subsection \<open>Reading\<close>

definition byRoom :: "RoomState \<Rightarrow> RoomState \<Rightarrow> bool" where
  "byRoom a b \<longleftrightarrow> Room a < Room b"

definition Groups :: "string list \<Rightarrow> Rooms \<Rightarrow> RoomState list" where
  "Groups order r = stable_sort byRoom (map (\<lambda>n. the (rooms r n)) (filter (\<lambda>n. HasPrefix n ''group:'') order))"

definition OnChannel :: "int \<Rightarrow> string list \<Rightarrow> Rooms \<Rightarrow> string list" where
  "OnChannel ch order r = filter (\<lambda>n. ChannelID (the (rooms r n)) = ch) order"

definition State :: "string \<Rightarrow> Rooms \<Rightarrow> RoomState option" where
  "State room r = rooms r room"

subsection \<open>Commands\<close>

text \<open>The playback commands of group rooms, given the frame shown now.\<close>

definition playback :: "gotime \<Rightarrow> Command \<Rightarrow> RoomState \<Rightarrow> room_error + RoomState" where
  "playback now c st =
     (let nowMS = unixMS now; current = Target st nowMS in
      if Action c = ''pause'' then Inr (st\<lparr>AnchorServer := nowMS, AnchorMedia := current, Rate := 0, Version := Version st + 1\<rparr>)
      else if Action c = ''play'' then Inr (st\<lparr>AnchorServer := nowMS, AnchorMedia := current, Rate := 1, Version := Version st + 1\<rparr>)
      else if Action c = ''seek'' then
        Inr (st\<lparr>AnchorServer := nowMS, Version := Version st + 1,
               AnchorMedia := (if MediaTime c > liveAnchor now (Latency st) then liveAnchor now (Latency st) else MediaTime c)\<rparr>)
      else if Action c = ''live'' then
        Inr (st\<lparr>AnchorServer := nowMS, AnchorMedia := liveAnchor now (Latency st), Rate := 1, Version := Version st + 1\<rparr>)
      else Inl UnknownAction)"

definition Apply :: "gotime \<Rightarrow> string \<Rightarrow> Command \<Rightarrow> Rooms \<Rightarrow> (room_error + RoomState) \<times> Rooms" where
  "Apply now room c r =
     (case rooms r room of
        None \<Rightarrow> (Inl NotInRoom, r)
      | Some st \<Rightarrow>
          if Action c = ''latency'' then
            (if latencies (CLatency c) = None then (Inl BadLatency, r)
             else
               let st' = setLatencyLocked now (CLatency c) st
               in (Inr st', r\<lparr>measured := measured r - {room}, rooms := (rooms r)(room \<mapsto> st')\<rparr>))
          else if Action c = ''stalled'' then
            (let (st', r') = stepBackLocked now room st r in (Inr st', r'\<lparr>rooms := (rooms r')(room \<mapsto> st')\<rparr>))
          else if Action c = ''syncall'' then
            (let st' = (if \<not> Synced st then st\<lparr>Synced := True, Version := Version st + 1\<rparr> else st)
             in (Inr st', r\<lparr>rooms := (rooms r)(room \<mapsto> st')\<rparr>))
          else if Action c = ''ahead'' \<or> Action c = ''behind'' then
            (let (st', r') = measureLocked now room st (Action c) (MediaTime c) r
             in (Inr st', r'\<lparr>rooms := (rooms r')(room \<mapsto> st')\<rparr>))
          else if Mode st \<noteq> ''group'' then (Inl ErrFollowRoom, r)
          else
            (case playback now c st of
               Inl e \<Rightarrow> (Inl e, r)
             | Inr st' \<Rightarrow> (Inr st', r\<lparr>rooms := (rooms r)(room \<mapsto> st')\<rparr>)))"

definition Floor :: "gotime \<Rightarrow> string \<Rightarrow> string \<Rightarrow> Rooms \<Rightarrow> RoomState option \<times> Rooms" where
  "Floor now room latency r =
     (case rooms r room of
        None \<Rightarrow> (None, r)
      | Some st \<Rightarrow>
          if room \<in> measured r \<or> latencyMS (Latency st) \<ge> latencyMS latency then (None, r)
          else
            let st1 = setLatencyLocked now latency st;
                floor = liveAnchor now latency;
                st2 = (if Mode st1 \<noteq> ''follow'' \<and> Target st1 (unixMS now) > floor
                       then st1\<lparr>AnchorServer := unixMS now, AnchorMedia := floor\<rparr> else st1)
            in (Some st2, r\<lparr>rooms := (rooms r)(room \<mapsto> st2)\<rparr>))"

subsection \<open>Runs\<close>

text \<open>
  What the hub does to the rooms. The one caller of \<^verbatim>\<open>Floor\<close> names a latency of the table.
\<close>

inductive room_step :: "Rooms \<Rightarrow> Rooms \<Rightarrow> bool" where
  join: "room_step r (snd (JoinAt now room ch earliest latency r))"
| leave: "room_step r (Leave room r)"
| command: "room_step r (snd (Apply now room c r))"
| settle: "room_step r (snd (Settle clk ch earliest eases order r))"
| end_ease: "room_step r (snd (EndEase now room version r))"
| floor: "latencies latency \<noteq> None \<Longrightarrow> room_step r (snd (Floor now room latency r))"

end
