(* ===== verification/RoomsProps.thy ===== *)
theory RoomsProps
  imports Rooms
begin

text \<open>
  What the sync rooms promise: an invariant of the table of rooms over every run, a version
  that moves with every change, what each command does to the frame on screen, that easing
  ends on the target, and that the listing does not depend on map order.
\<close>

named_theorems room_simps \<open>operations on the table of rooms\<close>

subsection \<open>Clocks and latencies\<close>

lemma latencies_cases: "latencies l \<noteq> None \<longleftrightarrow> l \<in> {''lowest'', ''balanced'', ''stable''}"
  by (auto simp: latencies_def)

lemma latencyOf_range: "6 * Second \<le> latencyOf l" "latencyOf l \<le> 20 * Second"
  by (auto simp: latencyOf_def latencies_def)

lemma latencyMS_ms: "of_int (latencyOf l) = latencyMS l * 1000000"
  by (simp add: latencyMS_def latencyOf_def millis_def latencies_def)

lemma unixMS_add: "unixMS (t + d) = unixMS t + of_int d / 1000000"
  by (simp add: unixMS_def field_simps)

lemma liveAnchor_ms: "liveAnchor now l = unixMS now - latencyMS l"
  using unixMS_add [of now "- latencyOf l"] latencyMS_ms [of l] by (simp add: liveAnchor_def)

lemma Target_now: "AnchorServer st = t \<Longrightarrow> Target st t = AnchorMedia st"
  by (simp add: Target_def)

subsection \<open>The invariant\<close>

definition shared_name :: "string \<Rightarrow> bool" where
  "shared_name n \<longleftrightarrow> HasPrefix n ''group:'' \<or> HasPrefix n ''multiview:''"

definition room_ok :: "string \<Rightarrow> RoomState \<Rightarrow> bool" where
  "room_ok n st \<longleftrightarrow> Room st = n \<and> 1 \<le> Members st \<and> 1 \<le> Version st \<and>
     Mode st = (if shared_name n then ''group'' else ''follow'') \<and>
     Rate st \<in> (if shared_name n then {0, 1} else {1, 39 / 40}) \<and>
     Latency st \<in> {''lowest'', ''balanced'', ''stable''} \<and> LatencyMS st = latencyMS (Latency st)"

definition rooms_ok :: "Rooms \<Rightarrow> bool" where
  "rooms_ok r \<longleftrightarrow> (\<forall>n st. rooms r n = Some st \<longrightarrow> room_ok n st) \<and>
     dom (born r) = dom (rooms r) \<and> dom (stepped r) \<subseteq> dom (rooms r) \<and> measured r \<subseteq> dom (rooms r)"

lemma rooms_okD: "rooms_ok r \<Longrightarrow> rooms r n = Some st \<Longrightarrow> room_ok n st"
  by (simp add: rooms_ok_def)

lemma rooms_ok_put:
  assumes "rooms_ok r" "rooms r n = Some st" "room_ok n st'"
  shows "rooms_ok (r\<lparr>rooms := (rooms r)(n \<mapsto> st')\<rparr>)"
  using assms by (auto simp: rooms_ok_def insert_absorb)

lemma rooms_ok_marks:
  assumes "rooms_ok r" "rooms r n = Some st"
  shows "rooms_ok (r\<lparr>stepped := (stepped r)(n \<mapsto> t)\<rparr>)" "rooms_ok (r\<lparr>measured := insert n (measured r)\<rparr>)"
    "rooms_ok (r\<lparr>measured := measured r - {m}\<rparr>)"
  using assms by (auto simp: rooms_ok_def)

lemma setLatencyLocked_ok:
  "room_ok n st \<Longrightarrow> latencies l \<noteq> None \<Longrightarrow> room_ok n (setLatencyLocked now l st)"
  using latencies_cases [of l] by (auto simp: room_ok_def setLatencyLocked_def Let_def)

lemma room_ok_anchor:
  "room_ok n st \<Longrightarrow> room_ok n (st\<lparr>AnchorMedia := a, AnchorServer := b, Version := Version st + 1\<rparr>)"
  by (simp add: room_ok_def)

lemma stepBackLocked_cases:
  obtains (stay) "stepBackLocked now n st r = (st, r)"
  | (retreat) "liveAnchor now (Latency st) < Target st (unixMS now)" "Rate st \<noteq> 0"
      "stepBackLocked now n st r =
        (st\<lparr>AnchorMedia := max (Target st (unixMS now) - 2000) (liveAnchor now (Latency st)),
            AnchorServer := unixMS now, Version := Version st + 1\<rparr>,
         r\<lparr>stepped := (stepped r)(n \<mapsto> now)\<rparr>)"
proof -
  let ?still = "(\<not> (Mode st = ''follow'' \<and> Members st = 1) \<and> \<not> HasPrefix n ''multiview:'') \<or> Rate st = 0"
  let ?quiet = "time_sub now (case stepped r n of Some t \<Rightarrow> t | None \<Rightarrow> 0) < 3 * Second"
  let ?low = "Target st (unixMS now) \<le> liveAnchor now (Latency st)"
  have ms: "millis (2 * Second) = 2000" by (simp add: millis_def)
  note eq = stepBackLocked_def [of now n st r, unfolded Let_def ms]
  show thesis
  proof (cases "?still \<or> ?quiet \<or> ?low")
    case True
    then have "stepBackLocked now n st r = (st, r)" unfolding eq by argo
    then show thesis by (rule stay)
  next
    case False
    show thesis
    proof (rule retreat)
      show "liveAnchor now (Latency st) < Target st (unixMS now)" "Rate st \<noteq> 0" using False by simp_all
    qed (unfold eq, use False in argo)
  qed
qed

lemma measureLocked_cases:
  fixes now st media
  defines "to \<equiv> min (media - millis (if Members st \<le> 1 then 500 * Millisecond else 2500 * Millisecond))
    (unixMS (now - latencyOf ''lowest''))"
  obtains (stay) "measureLocked now n st a media r = (st, r)"
  | (move) "Rate st = 1" "a = ''ahead'' \<Longrightarrow> Target st (unixMS now) < to"
      "a = ''behind'' \<Longrightarrow> n \<in> measured r \<and> media + 300 \<le> Target st (unixMS now)"
      "measureLocked now n st a media r =
        (st\<lparr>AnchorMedia := to, AnchorServer := unixMS now, Version := Version st + 1\<rparr>,
         r\<lparr>measured := insert n (measured r)\<rparr>)"
proof (cases "(Mode st \<noteq> ''follow'' \<and> \<not> soloTile n st) \<or> Rate st \<noteq> 1 \<or> media \<le> 0")
  case True
  then have "measureLocked now n st a media r = (st, r)"
    unfolding measureLocked_def Let_def by (rule if_P)
  then show thesis by (rule stay)
next
  case go: False
  let ?far = "time_sub now (case born r n of Some t \<Rightarrow> t | None \<Rightarrow> 0) > 30 * Second \<or>
    media - Target st (unixMS now) < millis (3000 * Millisecond) \<or> to \<le> Target st (unixMS now)"
  let ?near = "n \<notin> measured r \<or> Target st (unixMS now) - media < millis (300 * Millisecond)"
  have eq: "measureLocked now n st a media r =
     (if a = ''ahead'' \<and> ?far then (st, r) else if a = ''behind'' \<and> ?near then (st, r)
      else (st\<lparr>AnchorMedia := to, AnchorServer := unixMS now, Version := Version st + 1\<rparr>,
            r\<lparr>measured := insert n (measured r)\<rparr>))"
    using go unfolding measureLocked_def Let_def to_def by (simp only: if_False)
  show thesis
  proof (cases "a = ''ahead'' \<and> ?far \<or> a = ''behind'' \<and> ?near")
    case True
    with eq have "measureLocked now n st a media r = (st, r)" by argo
    then show thesis by (rule stay)
  next
    case False
    show thesis
    proof (rule move)
      show "Rate st = 1" using go by simp
      show "a = ''ahead'' \<Longrightarrow> Target st (unixMS now) < to" using False by auto
      show "a = ''behind'' \<Longrightarrow> n \<in> measured r \<and> media + 300 \<le> Target st (unixMS now)"
        using False by (auto simp: millis_def)
      show "measureLocked now n st a media r =
        (st\<lparr>AnchorMedia := to, AnchorServer := unixMS now, Version := Version st + 1\<rparr>,
         r\<lparr>measured := insert n (measured r)\<rparr>)"
        using False eq by argo
    qed
  qed
qed

lemma stepBackLocked_ok:
  assumes "rooms_ok r" "rooms r n = Some st" "stepBackLocked now n st r = (st', r')"
  shows "room_ok n st' \<and> rooms_ok r' \<and> rooms r' = rooms r"
  using assms rooms_okD [of r n st] rooms_ok_marks(1) [of r n st]
  by (cases rule: stepBackLocked_cases [of now n st r]) (auto intro: room_ok_anchor)

lemma measureLocked_ok:
  assumes "rooms_ok r" "rooms r n = Some st" "measureLocked now n st a m r = (st', r')"
  shows "room_ok n st' \<and> rooms_ok r' \<and> rooms r' = rooms r"
  using assms rooms_okD [of r n st] rooms_ok_marks(2) [of r n st]
  by (cases rule: measureLocked_cases [of now n st a m r]) (auto intro: room_ok_anchor)

lemma playback_fields:
  assumes "playback now c st = Inr st'"
  shows "Room st' = Room st" "Members st' = Members st" "Mode st' = Mode st" "Latency st' = Latency st"
    "LatencyMS st' = LatencyMS st" "Version st' = Version st + 1" "Rate st' \<in> {0, 1, Rate st}"
proof -
  define p1 p2 p3 p4 where "p1 = (Action c = ''pause'')" "p2 = (Action c = ''play'')" "p3 = (Action c = ''seek'')" "p4 = (Action c = ''live'')"
  note eq = assms [unfolded playback_def Let_def p1_p2_p3_p4_def [symmetric]]
  show "Room st' = Room st" "Members st' = Members st" "Mode st' = Mode st" "Latency st' = Latency st"
    "LatencyMS st' = LatencyMS st" "Version st' = Version st + 1" "Rate st' \<in> {0, 1, Rate st}"
    using eq by (auto split: if_split_asm)
qed

lemma playback_refused:
  "playback now c st = Inl e \<longleftrightarrow> e = UnknownAction \<and> Action c \<notin> {''pause'', ''play'', ''seek'', ''live''}"
  unfolding playback_def Let_def by (simp split: if_split) blast

lemma playback_ok:
  assumes "room_ok n st" "Mode st = ''group''" "playback now c st = Inr st'"
  shows "room_ok n st'"
proof -
  have "shared_name n" using assms(1,2) by (cases "shared_name n") (simp_all add: room_ok_def)
  with assms(1) playback_fields [OF assms(3)] show ?thesis by (auto simp: room_ok_def)
qed

lemma Apply_ok:
  assumes ok: "rooms_ok r"
  shows "rooms_ok (snd (Apply now n c r))"
proof (cases "rooms r n")
  case None
  with ok show ?thesis by (simp add: Apply_def)
next
  case (Some st)
  note st = rooms_okD [OF ok Some]
  consider (latency) "Action c = ''latency''" | (stalled) "Action c = ''stalled''" | (syncall) "Action c = ''syncall''"
    | (measure) "Action c = ''ahead'' \<or> Action c = ''behind''" | (other) "Action c \<notin> {''latency'', ''stalled'', ''syncall'', ''ahead'', ''behind''}"
    by blast
  then show ?thesis
  proof cases
    case latency
    show ?thesis
    proof (cases "latencies (CLatency c) = None")
      case False
      then have "room_ok n (setLatencyLocked now (CLatency c) st)" using st setLatencyLocked_ok by blast
      with ok Some latency False show ?thesis
        using rooms_ok_put [OF rooms_ok_marks(3) [OF ok Some, of n]] by (simp add: Apply_def Let_def)
    qed (use ok Some latency in \<open>simp add: Apply_def\<close>)
  next
    case stalled
    obtain st' r' where b: "stepBackLocked now n st r = (st', r')" by fastforce
    have "snd (Apply now n c r) = r'\<lparr>rooms := (rooms r')(n \<mapsto> st')\<rparr>"
      using Some stalled b by (simp add: Apply_def)
    with stepBackLocked_ok [OF ok Some b] Some rooms_ok_put [of r' n st st'] show ?thesis by simp
  next
    case syncall
    have "room_ok n (if \<not> Synced st then st\<lparr>Synced := True, Version := Version st + 1\<rparr> else st)"
      using st by (simp add: room_ok_def)
    with ok Some syncall show ?thesis by (simp add: Apply_def Let_def rooms_ok_put)
  next
    case measure
    obtain st' r' where b: "measureLocked now n st (Action c) (MediaTime c) r = (st', r')" by fastforce
    have "snd (Apply now n c r) = r'\<lparr>rooms := (rooms r')(n \<mapsto> st')\<rparr>"
      using Some measure b by (auto simp: Apply_def)
    with measureLocked_ok [OF ok Some b] Some rooms_ok_put [of r' n st st'] show ?thesis by simp
  next
    case other
    show ?thesis
    proof (cases "Mode st = ''group'' \<and> (\<exists>st'. playback now c st = Inr st')")
      case True
      then obtain st' where p: "Mode st = ''group''" "playback now c st = Inr st'" by blast
      with other Some have "snd (Apply now n c r) = r\<lparr>rooms := (rooms r)(n \<mapsto> st')\<rparr>" by (simp add: Apply_def)
      then show ?thesis using rooms_ok_put [OF ok Some playback_ok [OF st p]] by simp
    next
      case False
      then have "snd (Apply now n c r) = r"
        using other Some by (cases "playback now c st") (simp_all add: Apply_def)
      then show ?thesis using ok by simp
    qed
  qed
qed

lemma newRoom_simps:
  "Room (newRoom now n ch e l) = n" "Version (newRoom now n ch e l) = 1" "Rate (newRoom now n ch e l) = 1"
  "Mode (newRoom now n ch e l) = (if shared_name n then ''group'' else ''follow'')"
  "Latency (newRoom now n ch e l) = (if latencies l = None then ''balanced'' else l)"
  "LatencyMS (newRoom now n ch e l) = latencyMS (Latency (newRoom now n ch e l))"
  "Members (newRoom now n ch e l) = 0"
  unfolding newRoom_def Let_def shared_name_def by (simp_all split: prod.split)

lemma newRoom_ok: "room_ok n ((newRoom now n ch e l)\<lparr>Members := 1\<rparr>)"
  using latencies_cases [of l] by (simp add: room_ok_def newRoom_simps)

lemma JoinAt_ok:
  assumes ok: "rooms_ok r"
  shows "rooms_ok (snd (JoinAt now n ch e l r))"
proof (cases "rooms r n")
  case None
  have "JoinAt now n ch e l r = ((newRoom now n ch e l)\<lparr>Members := 1\<rparr>,
      r\<lparr>born := (born r)(n \<mapsto> now), rooms := (rooms r)(n \<mapsto> (newRoom now n ch e l)\<lparr>Members := 1\<rparr>)\<rparr>)"
    using None by (simp add: JoinAt_def Let_def newRoom_simps)
  with ok newRoom_ok [of n now ch e l] show ?thesis by (auto simp: rooms_ok_def)
next
  case (Some st)
  with rooms_okD [OF ok Some] show ?thesis
    using rooms_ok_put [OF ok Some] by (simp add: JoinAt_def Let_def room_ok_def)
qed

lemma rooms_ok_drop:
  "rooms_ok r \<Longrightarrow> rooms_ok \<lparr>rooms = (rooms r)(n := None), stepped = (stepped r)(n := None),
     born = (born r)(n := None), measured = measured r - {n}\<rparr>"
  by (auto simp: rooms_ok_def)

lemma JoinAt_dom: "dom (rooms (snd (JoinAt now n ch e l r))) = insert n (dom (rooms r))"
  by (cases "rooms r n") (auto simp: JoinAt_def Let_def)

lemma Leave_ok:
  assumes ok: "rooms_ok r"
  shows "rooms_ok (Leave n r)"
proof (cases "rooms r n")
  case (Some st)
  show ?thesis
  proof (cases "Members st \<le> 1")
    case True
    with Some show ?thesis using rooms_ok_drop [OF ok, of n] by (simp add: Leave_def Let_def)
  next
    case False
    then have "room_ok n (st\<lparr>Members := Members st - 1\<rparr>)"
      using rooms_okD [OF ok Some] by (simp add: room_ok_def)
    with Some False show ?thesis using rooms_ok_put [OF ok Some] by (simp add: Leave_def Let_def)
  qed
qed (use ok in \<open>simp add: Leave_def\<close>)

lemma settleRoom_ok: "room_ok n st \<Longrightarrow> settleRoom now ch e b m st = Some (st', u) \<Longrightarrow> room_ok n st'"
  by (auto simp: settleRoom_def Let_def room_ok_def split: if_splits)

lemma settleLoop_Cons:
  "snd (settleLoop clk ch e eases (n # ns) r) = snd (settleLoop clk ch e eases ns
     (case rooms r n of None \<Rightarrow> r | Some st \<Rightarrow>
       (case settleRoom (clk n) ch e (eases (Room st)) (Room st \<in> measured r) st of
          None \<Rightarrow> r | Some (st', u) \<Rightarrow> r\<lparr>rooms := (rooms r)(n \<mapsto> st')\<rparr>)))"
  by (simp split: option.splits prod.splits)

lemma settleLoop_ok: "rooms_ok r \<Longrightarrow> rooms_ok (snd (settleLoop clk ch e eases ns r))"
proof (induction ns arbitrary: r)
  case (Cons n ns)
  show ?case unfolding settleLoop_Cons
  proof (rule Cons.IH, cases "rooms r n")
    case n: (Some st)
    show "rooms_ok (case rooms r n of None \<Rightarrow> r | Some st \<Rightarrow>
       (case settleRoom (clk n) ch e (eases (Room st)) (Room st \<in> measured r) st of
          None \<Rightarrow> r | Some (st', u) \<Rightarrow> r\<lparr>rooms := (rooms r)(n \<mapsto> st')\<rparr>))"
    proof (cases "settleRoom (clk n) ch e (eases (Room st)) (Room st \<in> measured r) st")
      case (Some x)
      with n show ?thesis
        using rooms_ok_put [OF Cons.prems n settleRoom_ok [OF rooms_okD [OF Cons.prems n]]] by (cases x) simp
    qed (use n Cons.prems in simp)
  qed (use Cons.prems in simp)
qed simp

lemma EndEase_ok:
  assumes ok: "rooms_ok r"
  shows "rooms_ok (snd (EndEase now n v r))"
proof (cases "rooms r n")
  case (Some st)
  have "room_ok n (st\<lparr>AnchorMedia := Target st (unixMS now), AnchorServer := unixMS now, Rate := 1, Version := Version st + 1\<rparr>)"
    using rooms_okD [OF ok Some] by (simp add: room_ok_def)
  then show ?thesis using ok Some rooms_ok_put [OF ok Some]
    by (cases "Version st \<noteq> v \<or> Rate st \<noteq> 39 / 40") (auto simp: EndEase_def Let_def)
qed (use ok in \<open>simp add: EndEase_def\<close>)

lemma Floor_ok: "rooms_ok r \<Longrightarrow> latencies l \<noteq> None \<Longrightarrow> rooms_ok (snd (Floor now n l r))"
proof (cases "rooms r n")
  case (Some st)
  assume ok: "rooms_ok r" and l: "latencies l \<noteq> None"
  have "room_ok n (setLatencyLocked now l st)" using rooms_okD [OF ok Some] l setLatencyLocked_ok by blast
  then show ?thesis using ok Some rooms_ok_put [OF ok Some]
    by (simp add: Floor_def Let_def room_ok_def)
qed (simp add: Floor_def)

interpretation rms: machine "\<lambda>r. r = NewRooms" room_step rooms_ok
proof (unfold_locales, goal_cases)
  case (2 r t)
  from 2(2,1) show ?case
    by cases (auto simp: Settle_def intro: JoinAt_ok Leave_ok Apply_ok settleLoop_ok EndEase_ok Floor_ok)
qed (simp add: rooms_ok_def NewRooms_def)


subsection \<open>What the settle loop changes\<close>

text \<open>A room the loop settles does not settle again at the same instant.\<close>

lemma settleRoom_again:
  "settleRoom now ch e b m st = Some (st', u) \<Longrightarrow> settleRoom now ch e b m st' = None"
  by (auto simp: settleRoom_def Let_def Target_def split: if_splits)

lemma settleRoom_fields:
  "settleRoom now ch e b m st = Some (st', u) \<Longrightarrow>
     Room st' = Room st \<and> Version st' = Version st + 1 \<and> Members st' = Members st \<and>
     Latency st' = Latency st \<and> LatencyMS st' = LatencyMS st"
  by (auto simp: settleRoom_def Let_def split: if_splits)

lemma settleLoop_measured [simp]: "measured (snd (settleLoop clk ch e eases ns r)) = measured r"
proof (induction ns arbitrary: r)
  case (Cons n ns)
  show ?case unfolding settleLoop_Cons Cons.IH by (simp split: option.split)
qed simp

lemma settleLoop_dom [simp]: "dom (rooms (snd (settleLoop clk ch e eases ns r))) = dom (rooms r)"
proof (induction ns arbitrary: r)
  case (Cons n ns)
  show ?case unfolding settleLoop_Cons Cons.IH by (auto split: option.splits)
qed simp

text \<open>The room at \<open>n\<close> after the loop, and what the loop reports of it.\<close>

definition settled :: "(string \<Rightarrow> gotime) \<Rightarrow> int \<Rightarrow> rat \<Rightarrow> (string \<Rightarrow> bool) \<Rightarrow> Rooms \<Rightarrow> string \<Rightarrow> RoomState \<Rightarrow> (RoomState \<times> duration) option" where
  "settled clk ch e eases r n st = settleRoom (clk n) ch e (eases (Room st)) (Room st \<in> measured r) st"

lemma settleLoop_at:
  assumes "rooms r n = Some st"
  shows "rooms (snd (settleLoop clk ch e eases ns r)) n =
    Some (case settled clk ch e eases r n st of Some (st', u) \<Rightarrow> if n \<in> set ns then st' else st | None \<Rightarrow> st)"
  using assms
proof (induction clk ch e eases ns r arbitrary: st rule: settleLoop.induct)
  case (2 clk ch e eases m ns r)
  show ?case
  proof (cases "rooms r m")
    case None
    with "2.prems" "2.IH"(1) [OF None] show ?thesis by (auto simp: settled_def split: option.splits)
  next
    case m: (Some sm)
    show ?thesis
    proof (cases "settleRoom (clk m) ch e (eases (Room sm)) (Room sm \<in> measured r) sm")
      case None
      with "2.prems" "2.IH"(2) [OF m None] m show ?thesis
        by (auto simp: settled_def split: option.splits)
    next
      case (Some x)
      obtain sm' u where x: "x = (sm', u)" by fastforce
      let ?r = "r\<lparr>rooms := (rooms r)(m \<mapsto> sm')\<rparr>"
      have ih: "rooms ?r n = Some s \<Longrightarrow> rooms (snd (settleLoop clk ch e eases ns ?r)) n =
          Some (case settled clk ch e eases ?r n s of Some (st', u) \<Rightarrow> if n \<in> set ns then st' else s | None \<Rightarrow> s)" for s
        using "2.IH"(3) [OF m Some x [symmetric]] by simp
      have step: "snd (settleLoop clk ch e eases (m # ns) r) = snd (settleLoop clk ch e eases ns ?r)"
        using m Some x by (simp split: prod.splits)
      show ?thesis
      proof (cases "n = m")
        case True
        have "settled clk ch e eases ?r m sm' = None"
          using settleRoom_again Some x settleRoom_fields by (fastforce simp: settled_def)
        with ih [of sm'] True m Some x "2.prems" step show ?thesis by (simp add: settled_def)
      next
        case False
        with ih [of st] "2.prems" show ?thesis unfolding step by (simp add: settled_def split: option.split)
      qed
    qed
  qed
qed (simp split: option.splits)

lemma settleLoop_report:
  assumes "(s, u) \<in> set (fst (settleLoop clk ch e eases ns r))"
  shows "\<exists>n st. n \<in> set ns \<and> rooms r n = Some st \<and> settled clk ch e eases r n st = Some (s, u)"
  using assms
proof (induction clk ch e eases ns r rule: settleLoop.induct)
  case (2 clk ch e eases m ns r)
  show ?case
  proof (cases "rooms r m")
    case None
    with "2.prems" "2.IH"(1) [OF None] show ?thesis by auto
  next
    case m: (Some sm)
    show ?thesis
    proof (cases "settleRoom (clk m) ch e (eases (Room sm)) (Room sm \<in> measured r) sm")
      case None
      with "2.prems" "2.IH"(2) [OF m None] m show ?thesis by auto
    next
      case (Some x)
      obtain sm' v where x: "x = (sm', v)" by fastforce
      let ?r = "r\<lparr>rooms := (rooms r)(m \<mapsto> sm')\<rparr>"
      have "(s, u) = (sm', v) \<or> (s, u) \<in> set (fst (settleLoop clk ch e eases ns ?r))"
        using "2.prems" m Some x by (auto split: prod.splits)
      then show ?thesis
      proof
        assume "(s, u) = (sm', v)"
        with m Some x show ?thesis by (auto simp: settled_def)
      next
        assume "(s, u) \<in> set (fst (settleLoop clk ch e eases ns ?r))"
        from "2.IH"(3) [OF m Some x [symmetric] this] obtain n st where
          n: "n \<in> set ns" "rooms ?r n = Some st" "settled clk ch e eases ?r n st = Some (s, u)" by blast
        have "n \<noteq> m"
          using n(2,3) settleRoom_again Some x settleRoom_fields by (fastforce simp: settled_def)
        with n show ?thesis by (auto simp: settled_def)
      qed
    qed
  qed
qed simp

lemma settleLoop_quiet:
  assumes "\<And>n st. rooms r n = Some st \<Longrightarrow> n \<in> set ns \<Longrightarrow> settled clk ch e eases r n st = None"
  shows "settleLoop clk ch e eases ns r = ([], r)"
  using assms
  by (induction ns) (auto simp: settled_def split: option.splits)


subsection \<open>The table over a run\<close>

text \<open>
  C17. Whatever the hub does to the rooms, every room in the table has the name it is kept
  under, somebody in it, the mode its name asks for, and a latency of the table with the
  milliseconds that go with it. A channel room is never paused and plays at 1x or at the easing
  rate; a shared room is paused or at 1x and never eases. No step time, birth time or
  measured mark outlives its room, and every room has a birth time.
\<close>

theorem rooms_invariant:
  assumes "room_step\<^sup>*\<^sup>* NewRooms r"
  shows "(\<forall>n st. rooms r n = Some st \<longrightarrow>
      Room st = n \<and> 1 \<le> Members st \<and>
      latencies (Latency st) \<noteq> None \<and> LatencyMS st = latencyMS (Latency st) \<and>
      (if HasPrefix n ''group:'' \<or> HasPrefix n ''multiview:''
       then Mode st = ''group'' \<and> Rate st \<in> {0, 1} else Mode st = ''follow'' \<and> Rate st \<in> {1, 39 / 40})) \<and>
    dom (born r) = dom (rooms r) \<and> dom (stepped r) \<union> measured r \<subseteq> dom (rooms r)"
proof (intro conjI)
  have ok: "rooms_ok r" using assms rms.reachable_inv by (auto simp: rms.reachable_def)
  then show "dom (born r) = dom (rooms r)" "dom (stepped r) \<union> measured r \<subseteq> dom (rooms r)"
    by (simp_all add: rooms_ok_def)
  show "\<forall>n st. rooms r n = Some st \<longrightarrow>
      Room st = n \<and> 1 \<le> Members st \<and>
      latencies (Latency st) \<noteq> None \<and> LatencyMS st = latencyMS (Latency st) \<and>
      (if HasPrefix n ''group:'' \<or> HasPrefix n ''multiview:''
       then Mode st = ''group'' \<and> Rate st \<in> {0, 1} else Mode st = ''follow'' \<and> Rate st \<in> {1, 39 / 40})"
    using rooms_okD [OF ok] unfolding latencies_cases room_ok_def shared_name_def by fastforce
qed

text \<open>A channel room two screens joined on a fresh tune at 100 s after the epoch.\<close>

definition demo_now :: gotime where
  "demo_now = unixEpoch + 100 * Second"

definition demo_rooms :: Rooms where
  "demo_rooms = snd (Join demo_now ''channel:7'' 7 90000 (snd (Join demo_now ''channel:7'' 7 90000 NewRooms)))"

lemma demo_now_ms: "unixMS demo_now = 100000"
  by (simp add: demo_now_def unixMS_def)

lemma demo_room:
  "rooms demo_rooms ''channel:7'' = Some \<lparr>Room = ''channel:7'', ChannelID = 7, Mode = ''follow'', AnchorServer = 100000,
     AnchorMedia = 90000, Rate = 1, Latency = ''balanced'', LatencyMS = 16000, Version = 1, Members = 2, Synced = False, People = []\<rparr>"
  by (simp add: demo_rooms_def Join_def JoinAt_def newRoom_def NewRooms_def liveAnchor_ms demo_now_ms HasPrefix_def
      latencyMS_def latencyOf_def latencies_def millis_def trunc_def Let_def)

lemma reach_join: "room_step\<^sup>*\<^sup>* s r \<Longrightarrow> room_step\<^sup>*\<^sup>* s (snd (Join now room ch e r))"
  unfolding Join_def by (erule rtranclp.rtrancl_into_rtrancl) (rule room_step.join)

lemma demo_rooms_run: "room_step\<^sup>*\<^sup>* NewRooms demo_rooms"
  unfolding demo_rooms_def by (intro reach_join rtranclp.rtrancl_refl)

theorem rooms_invariant_witness:
  "room_step\<^sup>*\<^sup>* NewRooms demo_rooms \<and> (\<exists>st. rooms demo_rooms ''channel:7'' = Some st \<and> Members st = 2 \<and> Rate st \<in> {1, 39 / 40})"
  using rooms_invariant [OF demo_rooms_run, THEN conjunct1] demo_rooms_run demo_room by simp

subsection \<open>Versions\<close>

lemma settleLoop_version:
  assumes "rooms r n = Some st" "rooms (snd (settleLoop clk ch e eases ns r)) n = Some st'"
  shows "st' = st \<or> Version st' = Version st + 1"
  using assms settleLoop_at [OF assms(1), of clk ch e eases ns] settleRoom_fields
  by (fastforce simp: settled_def split: option.splits if_splits)

lemma Apply_outcome:
  assumes n: "rooms r n = Some st"
  obtains (refused) e where "Apply now n c r = (Inl e, r)"
  | (put) st' r' where "Apply now n c r = (Inr st', r')" "rooms r' = (rooms r)(n \<mapsto> st')"
      "st' = st \<or> Version st' = Version st + 1"
proof -
  consider (latency) "Action c = ''latency''" | (stalled) "Action c = ''stalled''" | (syncall) "Action c = ''syncall''"
    | (measure) "Action c = ''ahead'' \<or> Action c = ''behind''" | (other) "Action c \<notin> {''latency'', ''stalled'', ''syncall'', ''ahead'', ''behind''}"
    by blast
  then show thesis
  proof cases
    case latency
    show thesis
    proof (cases "latencies (CLatency c) = None")
      case True
      with n latency refused show thesis by (simp add: Apply_def)
    next
      case False
      with n latency put show thesis by (simp add: Apply_def Let_def setLatencyLocked_def)
    qed
  next
    case stalled
    then show thesis using n put by (cases rule: stepBackLocked_cases [of now n st r]) (auto simp: Apply_def)
  next
    case syncall
    then show thesis using n put by (cases "Synced st") (auto simp: Apply_def Let_def)
  next
    case measure
    then show thesis using n put
      by (cases rule: measureLocked_cases [of now n st "Action c" "MediaTime c" r]) (auto simp: Apply_def)
  next
    case other
    then show thesis
    proof (cases "Mode st = ''group''")
      case True
      show thesis
      proof (cases "playback now c st")
        case (Inl e)
        with n other True refused show thesis by (simp add: Apply_def)
      next
        case (Inr st')
        with n other True have "Apply now n c r = (Inr st', r\<lparr>rooms := (rooms r)(n \<mapsto> st')\<rparr>)" by (simp add: Apply_def)
        then show thesis by (rule put) (simp_all add: playback_fields [OF Inr])
      qed
    next
      case False
      with n other refused show thesis by (simp add: Apply_def)
    qed
  qed
qed

lemma Apply_version:
  assumes "rooms r n = Some st" "rooms (snd (Apply now m c r)) n = Some st'"
  shows "st' = st \<or> Version st' = Version st + 1"
proof (cases "rooms r m")
  case None
  with assms show ?thesis by (simp add: Apply_def)
next
  case (Some sm)
  then show ?thesis
    by (cases rule: Apply_outcome [where c = c and now = now]) (use assms Some in \<open>auto split: if_splits\<close>)
qed

text \<open>
  C18. One operation on the table, and a room that is there before and after it: either nothing
  of the room changed but how many are in it, or its version went up by exactly one. A
  screen that has seen a version has seen that frame.
\<close>

theorem version_counts_changes:
  assumes step: "room_step r t" and n: "rooms r n = Some st" "rooms t n = Some st'"
  shows "st' = st\<lparr>Members := Members st'\<rparr> \<or> Version st' = Version st + 1"
  using step
proof cases
  case (join now room ch earliest latency)
  with n show ?thesis
    by (auto simp: JoinAt_def Let_def split: option.splits if_splits)
next
  case (leave room)
  with n show ?thesis
    by (auto simp: Leave_def Let_def split: option.splits if_splits)
next
  case (command now room c)
  with n Apply_version [of r n st] show ?thesis by fastforce
next
  case (settle clk ch earliest eases order)
  with n settleLoop_version [of r n st clk ch earliest eases order st'] show ?thesis
    by (auto simp: Settle_def split: if_splits)
next
  case (end_ease now room version)
  with n show ?thesis
    by (auto simp: EndEase_def Let_def split: option.splits if_splits)
next
  case (floor latency now room)
  have "Version (setLatencyLocked now latency s) = Version s + 1" for s
    by (simp add: setLatencyLocked_def Let_def)
  with floor n show ?thesis
    by (auto simp: Floor_def Let_def split: option.splits if_splits)
qed


theorem version_counts_changes_witness:
  "\<exists>st'. rooms (snd (Apply demo_now ''channel:7'' \<lparr>Action = ''syncall'', MediaTime = 0, CLatency = []\<rparr> demo_rooms)) ''channel:7'' = Some st' \<and>
     Version st' = 1 + 1"
proof -
  let ?c = "\<lparr>Action = ''syncall'', MediaTime = 0, CLatency = []\<rparr>"
  obtain st where st: "rooms demo_rooms ''channel:7'' = Some st" "Version st = 1" "\<not> Synced st"
    using demo_room by simp
  have t: "rooms (snd (Apply demo_now ''channel:7'' ?c demo_rooms)) ''channel:7'' = Some (st\<lparr>Synced := True, Version := Version st + 1\<rparr>)"
    using st by (simp add: Apply_def Let_def)
  from version_counts_changes [OF room_step.command st(1) t] st t show ?thesis by auto
qed

subsection \<open>Commands\<close>

text \<open>
  C19. \<^verbatim>\<open>Apply\<close> refuses in exactly four cases and then leaves every room as it was: nobody is in the
  room, the latency is not of the table, a playback command on a channel room, an action
  nobody knows on a shared one.
\<close>

theorem apply_errors:
  "Apply now n c r = (Inl e, r') \<longleftrightarrow> r' = r \<and>
     (case rooms r n of
        None \<Rightarrow> e = NotInRoom
      | Some st \<Rightarrow>
          if Action c = ''latency'' then e = BadLatency \<and> latencies (CLatency c) = None
          else Action c \<notin> {''stalled'', ''syncall'', ''ahead'', ''behind''} \<and>
            (if Mode st = ''group'' then e = UnknownAction \<and> Action c \<notin> {''pause'', ''play'', ''seek'', ''live''}
             else e = ErrFollowRoom))"
proof (cases "rooms r n")
  case None
  then show ?thesis by (auto simp: Apply_def)
next
  case (Some st)
  consider (latency) "Action c = ''latency''" | (known) "Action c \<in> {''stalled'', ''syncall'', ''ahead'', ''behind''}"
    | (other) "Action c \<notin> {''latency'', ''stalled'', ''syncall'', ''ahead'', ''behind''}"
    by blast
  then show ?thesis
  proof cases
    case latency
    then show ?thesis using Some by (cases "latencies (CLatency c) = None") (auto simp: Apply_def Let_def)
  next
    case known
    moreover obtain st1 r1 where "stepBackLocked now n st r = (st1, r1)" by fastforce
    moreover obtain st2 r2 where "measureLocked now n st (Action c) (MediaTime c) r = (st2, r2)" by fastforce
    ultimately obtain st' r'' where "Apply now n c r = (Inr st', r'')"
      using Some unfolding Apply_def Let_def by force
    with known Some show ?thesis by auto
  next
    case other
    show ?thesis
    proof (cases "Mode st = ''group''")
      case True
      then have "Apply now n c r = (case playback now c st of Inl e \<Rightarrow> (Inl e, r)
          | Inr st' \<Rightarrow> (Inr st', r\<lparr>rooms := (rooms r)(n \<mapsto> st')\<rparr>))"
        using other Some by (simp add: Apply_def)
      with True other Some playback_refused [of now c st e] show ?thesis by (cases "playback now c st") auto
    next
      case False
      then have "Apply now n c r = (Inl ErrFollowRoom, r)" using other Some by (simp add: Apply_def)
      with False other Some show ?thesis by auto
    qed
  qed
qed

lemma apply_frame_cases:
  assumes n: "rooms r n = Some st" and ok: "Apply now n c r = (Inr st', r')"
    and current: "current = Target st (unixMS now)" and live: "live = unixMS now - latencyMS (Latency st)"
  shows "Action c = ''pause'' \<Longrightarrow> Target st' t = current"
    and "Action c = ''play'' \<Longrightarrow> Target st' t = current + (t - unixMS now)"
    and "Action c = ''seek'' \<Longrightarrow> Target st' (unixMS now) = min (MediaTime c) live \<and> Rate st' = Rate st"
    and "Action c = ''live'' \<Longrightarrow> Target st' t = t - latencyMS (Latency st)"
    and "Action c = ''stalled'' \<Longrightarrow> st' = st \<or>
      live \<le> Target st' (unixMS now) \<and> current - 2000 \<le> Target st' (unixMS now) \<and> Target st' (unixMS now) < current"
    and "Action c = ''ahead'' \<Longrightarrow> st' = st \<or>
      current < Target st' (unixMS now) \<and> Target st' (unixMS now) \<le> unixMS now - latencyMS ''lowest'' \<and> Target st' (unixMS now) < MediaTime c"
    and "Action c = ''behind'' \<Longrightarrow> st' = st \<or>
      n \<in> measured r \<and> Target st' (unixMS now) < MediaTime c \<and> MediaTime c < current"
    and "Action c = ''latency'' \<Longrightarrow>
      (if Mode st = ''follow'' then Target st' t = t - latencyMS (CLatency c) else Target st' t = Target st t)"
    and "Action c = ''syncall'' \<Longrightarrow> Target st' t = Target st t \<and> Synced st'"
proof -
  have low: "unixMS (now - latencyOf ''lowest'') = unixMS now - latencyMS ''lowest''"
    using liveAnchor_ms [of now "''lowest''"] by (simp add: liveAnchor_def)
  note defs = Apply_def playback_def Target_def Let_def liveAnchor_ms current live
  show "Target st' t = current" if "Action c = ''pause''"
    using n ok that by (cases "Mode st = ''group''") (simp_all add: defs, auto)
  show "Target st' t = current + (t - unixMS now)" if "Action c = ''play''"
    using n ok that by (cases "Mode st = ''group''") (simp_all add: defs, auto)
  show "Target st' (unixMS now) = min (MediaTime c) live \<and> Rate st' = Rate st" if "Action c = ''seek''"
    using n ok that by (cases "Mode st = ''group''") (simp_all add: defs, auto simp: liveAnchor_ms)
  show "Target st' t = t - latencyMS (Latency st)" if "Action c = ''live''"
    using n ok that by (cases "Mode st = ''group''") (simp_all add: defs, auto)
  show "Target st' t = Target st t \<and> Synced st'" if "Action c = ''syncall''"
    using n ok that by (cases "Synced st") (simp_all add: defs, auto)
  show "if Mode st = ''follow'' then Target st' t = t - latencyMS (CLatency c) else Target st' t = Target st t"
    if "Action c = ''latency''"
    using n ok that by (cases "latencies (CLatency c) = None") (simp_all add: defs setLatencyLocked_def, auto simp: liveAnchor_ms)
  show "st' = st \<or> live \<le> Target st' (unixMS now) \<and> current - 2000 \<le> Target st' (unixMS now) \<and> Target st' (unixMS now) < current"
    if "Action c = ''stalled''"
    by (cases rule: stepBackLocked_cases [of now n st r])
      (use n ok that in \<open>auto simp: Apply_def Target_now live current liveAnchor_ms\<close>)
  show "st' = st \<or> current < Target st' (unixMS now) \<and> Target st' (unixMS now) \<le> unixMS now - latencyMS ''lowest'' \<and> Target st' (unixMS now) < MediaTime c"
    if "Action c = ''ahead''"
    by (cases rule: measureLocked_cases [of now n st "''ahead''" "MediaTime c" r])
      (use n ok that in \<open>auto simp: Apply_def Target_now current low millis_def min_def split: if_splits\<close>)
  show "st' = st \<or> n \<in> measured r \<and> Target st' (unixMS now) < MediaTime c \<and> MediaTime c < current"
    if "Action c = ''behind''"
    by (cases rule: measureLocked_cases [of now n st "''behind''" "MediaTime c" r])
      (use n ok that in \<open>auto simp: Apply_def Target_now current low millis_def min_def split: if_splits\<close>)
qed

text \<open>
  C20. What an accepted command does to the frame of the room, now and at any later \<open>t\<close>. Pause
  holds it, play goes on from it, seek stops at the live target, live goes there. A stall
  steps back at most two seconds and never behind the target. An Apple screen that is ahead
  only moves the room forward, behind its own frame and never closer to live than the
  lowest latency; one that is behind only moves a measured room back, behind its frame.
\<close>

theorem apply_frames:
  assumes "rooms r n = Some st" and "Apply now n c r = (Inr st', r')"
    and "current = Target st (unixMS now)" and "live = unixMS now - latencyMS (Latency st)"
    and "frame = Target st' (unixMS now)"
  shows "(Action c = ''pause'' \<longrightarrow> Target st' t = current) \<and>
    (Action c = ''play'' \<longrightarrow> Target st' t = current + (t - unixMS now)) \<and>
    (Action c = ''seek'' \<longrightarrow> frame = min (MediaTime c) live \<and> Rate st' = Rate st) \<and>
    (Action c = ''live'' \<longrightarrow> Target st' t = t - latencyMS (Latency st)) \<and>
    (Action c = ''stalled'' \<longrightarrow> st' = st \<or> live \<le> frame \<and> current - 2000 \<le> frame \<and> frame < current) \<and>
    (Action c = ''ahead'' \<longrightarrow> st' = st \<or>
      current < frame \<and> frame \<le> unixMS now - latencyMS ''lowest'' \<and> frame < MediaTime c) \<and>
    (Action c = ''behind'' \<longrightarrow> st' = st \<or> n \<in> measured r \<and> frame < MediaTime c \<and> MediaTime c < current) \<and>
    (Action c = ''latency'' \<longrightarrow>
      (if Mode st = ''follow'' then Target st' t = t - latencyMS (CLatency c) else Target st' t = Target st t)) \<and>
    (Action c = ''syncall'' \<longrightarrow> Target st' t = Target st t \<and> Synced st')"
  unfolding assms(5) by (intro conjI; rule impI; erule apply_frame_cases [OF assms(1-4)])

theorem apply_frames_witness:
  "\<exists>st'. fst (Apply demo_now ''channel:7'' \<lparr>Action = ''latency'', MediaTime = 0, CLatency = ''stable''\<rparr> demo_rooms) = Inr st' \<and>
     Target st' 150000 = 130000"
proof -
  let ?c = "\<lparr>Action = ''latency'', MediaTime = 0, CLatency = ''stable''\<rparr>"
  obtain st where st: "rooms demo_rooms ''channel:7'' = Some st" "Mode st = ''follow''" using demo_room by simp
  have "latencies ''stable'' \<noteq> None" "latencyMS ''stable'' = 20000"
    by (simp_all add: latencies_def latencyMS_def latencyOf_def millis_def)
  moreover obtain st' r' where "Apply demo_now ''channel:7'' ?c demo_rooms = (Inr st', r')"
    using st calculation by (simp add: Apply_def Let_def)
  ultimately show ?thesis
    using apply_frames [OF st(1), of demo_now ?c st' r' _ _ _ 150000] st by simp
qed


subsection \<open>Settling\<close>

text \<open>
  A second \<^verbatim>\<open>Settle\<close> at the same instants is empty: it reports nothing and changes
  nothing, whatever order the map is walked in.
\<close>

theorem settle_once:
  "Settle clk ch e eases order (snd (Settle clk ch e eases order r)) = ([], snd (Settle clk ch e eases order r))"
proof (cases "e \<le> 0")
  case False
  let ?r = "snd (settleLoop clk ch e eases order r)"
  have "settleLoop clk ch e eases order ?r = ([], ?r)"
  proof (rule settleLoop_quiet)
    fix n st' assume n: "rooms ?r n = Some st'" "n \<in> set order"
    then obtain st where st: "rooms r n = Some st" using settleLoop_dom by blast
    show "settled clk ch e eases ?r n st' = None"
    proof (cases "settled clk ch e eases r n st")
      case None
      then show ?thesis using settleLoop_at [OF st, of clk ch e eases order] n by (simp add: settled_def)
    next
      case (Some x)
      then have "settleRoom (clk n) ch e (eases (Room st)) (Room st \<in> measured r) st = Some (st', snd x)"
        using settleLoop_at [OF st, of clk ch e eases order] n by (cases x) (simp add: settled_def)
      from settleRoom_again [OF this] settleRoom_fields [OF this] show ?thesis by (simp add: settled_def)
    qed
  qed
  with False show ?thesis by (simp add: Settle_def)
qed (simp add: Settle_def)

text \<open>Easing at 39/40 closes a gap of \<open>g\<close> ms in 40 \<open>g\<close> ms, cut to whole nanoseconds.\<close>

lemma trunc_bounds: "0 \<le> x \<Longrightarrow> 0 \<le> trunc x \<and> of_int (trunc x) \<le> x \<and> x < of_int (trunc x) + 1"
  using floor_correct [of x] by (auto simp: trunc_def)

lemma settleRoom_lands:
  assumes s: "settleRoom now ch e ease m st = Some (s, u)"
  defines "gap \<equiv> Target st (unixMS now) - (unixMS now - latencyMS (Latency st))"
  shows "500 < gap"
    and "\<not> ease \<Longrightarrow> u = 0 \<and> Target s t = t - latencyMS (Latency st)"
    and "ease \<Longrightarrow> Rate s = 39 / 40 \<and> Target s (unixMS now) = Target st (unixMS now) \<and>
      Target s (unixMS (now + u)) - (unixMS (now + u) - latencyMS (Latency st)) \<in> {0..<1 / 1000000}"
proof -
  have st: "Rate st = 1" using s by (auto simp: settleRoom_def split: if_splits)
  show gap: "500 < gap"
    using s by (auto simp: settleRoom_def Let_def gap_def liveAnchor_ms split: if_splits)
  show "\<not> ease \<Longrightarrow> u = 0 \<and> Target s t = t - latencyMS (Latency st)"
    using s st by (auto simp: settleRoom_def Let_def Target_def liveAnchor_ms split: if_splits)
  assume ease: ease
  have eased: "s = st\<lparr>AnchorMedia := Target st (unixMS now), AnchorServer := unixMS now, Rate := 39 / 40, Version := Version st + 1\<rparr>"
    and u: "u = trunc (gap * 40 * 1000000)"
    using s ease by (auto simp: settleRoom_def Let_def gap_def liveAnchor_ms split: if_splits)
  have "Target s (unixMS (now + u)) - (unixMS (now + u) - latencyMS (Latency st)) = gap - of_int u / 1000000 / 40"
    by (simp add: eased Target_def unixMS_add gap_def field_simps)
  moreover have "of_int u \<le> gap * 40 * 1000000" "gap * 40 * 1000000 < of_int u + 1"
    using trunc_bounds [of "gap * 40 * 1000000"] gap by (simp_all add: u)
  ultimately show "Rate s = 39 / 40 \<and> Target s (unixMS now) = Target st (unixMS now) \<and>
      Target s (unixMS (now + u)) - (unixMS (now + u) - latencyMS (Latency st)) \<in> {0..<1 / 1000000}"
    by (simp add: eased Target_now)
qed

text \<open>
  C21. Every room \<^verbatim>\<open>Settle\<close> reports was more than half a second closer to live than its
  target. Where no screen plays near the first frame it is on the target at once. Where
  one does the frame on screen stays, and \<^verbatim>\<open>EndEase\<close>, called after exactly the reported time with
  the reported version, finds the room and puts it back to 1x on its target, to within a
  nanosecond, for good.
\<close>

theorem settle_lands:
  assumes run: "room_step\<^sup>*\<^sup>* NewRooms r" and settle: "Settle clk ch e eases order r = (changed, r')"
    and s: "(s, u) \<in> set changed" and now: "now = clk (Room s)"
  shows "\<exists>st. rooms r (Room s) = Some st \<and> rooms r' (Room s) = Some s \<and>
      500 < Target st (unixMS now) - (unixMS now - LatencyMS s) \<and>
      (if eases (Room s)
       then Target s (unixMS now) = Target st (unixMS now) \<and>
         (\<exists>s' r''. EndEase (now + u) (Room s) (Version s) r' = (Some s', r'') \<and> rooms r'' (Room s) = Some s' \<and>
            (\<forall>t. Target s' t - (t - LatencyMS s) \<in> {0..<1 / 1000000}))
       else u = 0 \<and> (\<forall>t. Target s t = t - LatencyMS s))"
proof -
  have ok: "rooms_ok r" using run rms.reachable_inv by (auto simp: rms.reachable_def)
  have loop: "changed = fst (settleLoop clk ch e eases order r)" "r' = snd (settleLoop clk ch e eases order r)"
    using settle s by (auto simp: Settle_def split: if_splits)
  obtain n st where n: "n \<in> set order" "rooms r n = Some st" and sr: "settled clk ch e eases r n st = Some (s, u)"
    using settleLoop_report s loop by blast
  note st = rooms_okD [OF ok n(2), unfolded room_ok_def]
  note sr' = sr [unfolded settled_def]
  have room: "Room st = n" "Room s = n" "LatencyMS s = latencyMS (Latency st)"
    using st settleRoom_fields [OF sr'] by auto
  have at: "rooms r' n = Some s" using settleLoop_at [OF n(2), of clk ch e eases order] sr n(1) loop by simp
  note lands = settleRoom_lands [OF sr']
  show ?thesis
  proof (cases "eases n")
    case False
    with lands(1,2) n(2) at room now show ?thesis by simp
  next
    case True
    let ?stop = "unixMS (now + u)"
    let ?s' = "s\<lparr>AnchorMedia := Target s ?stop, AnchorServer := ?stop, Rate := 1, Version := Version s + 1\<rparr>"
    have "EndEase (now + u) n (Version s) r' = (Some ?s', r'\<lparr>rooms := (rooms r')(n \<mapsto> ?s')\<rparr>)"
      using True lands(3) at room by (simp add: EndEase_def Let_def)
    moreover have "Target ?s' t - (t - LatencyMS s) \<in> {0..<1 / 1000000}" for t
    proof -
      have "Target ?s' t - (t - LatencyMS s) = Target s ?stop - (?stop - LatencyMS s)" by (simp add: Target_def)
      then show ?thesis using lands(3) True room now by metis
    qed
    ultimately have "\<exists>s' r''. EndEase (now + u) n (Version s) r' = (Some s', r'') \<and> rooms r'' n = Some s' \<and>
        (\<forall>t. Target s' t - (t - LatencyMS s) \<in> {0..<1 / 1000000})" by auto
    then show ?thesis using True lands(1,3) n(2) at room now by metis
  qed
qed

theorem settle_lands_witness:
  "\<exists>s u. fst (Settle (\<lambda>_. demo_now) 7 80000 (\<lambda>_. True) [''channel:7''] demo_rooms) = [(s, u)] \<and>
     (\<exists>s'. fst (EndEase (demo_now + u) ''channel:7'' (Version s) (snd (Settle (\<lambda>_. demo_now) 7 80000 (\<lambda>_. True) [''channel:7''] demo_rooms))) = Some s' \<and>
       (\<forall>t. Target s' t - (t - LatencyMS s) \<in> {0..<1 / 1000000}))"
proof -
  let ?S = "Settle (\<lambda>_. demo_now) 7 80000 (\<lambda>_. True) [''channel:7''] demo_rooms"
  have "measured demo_rooms = {}"
    by (simp add: demo_rooms_def Join_def JoinAt_def NewRooms_def Let_def split: prod.splits)
  moreover have "liveAnchor demo_now ''balanced'' = 84000"
    by (simp add: liveAnchor_ms demo_now_ms latencyMS_def latencyOf_def latencies_def millis_def)
  ultimately obtain s u where su: "fst ?S = [(s, u)]" "Room s = ''channel:7''"
    using demo_room by (simp add: Settle_def settleRoom_def Let_def Target_def demo_now_ms)
  obtain r' where "?S = ([(s, u)], r')" using su(1) by (cases ?S) simp
  from settle_lands [OF demo_rooms_run this _ refl] su this show ?thesis by fastforce
qed

subsection \<open>The listing\<close>

interpretation by_room: key_comparator byRoom Room
  by unfold_locales (simp add: byRoom_def)

text \<open>
  \<^verbatim>\<open>Groups\<close> lists the group rooms, and only those, by name, and the order the map is
  walked in does not show: any two walks of the same table give the same list.
\<close>

theorem groups_order_free:
  assumes run: "room_step\<^sup>*\<^sup>* NewRooms r"
    and order: "distinct order" "set order = dom (rooms r)" and order': "distinct order'" "set order' = dom (rooms r)"
  shows "Groups order r = Groups order' r \<and>
    map Room (Groups order r) = sorted_list_of_set {n \<in> dom (rooms r). HasPrefix n ''group:''}"
proof (intro conjI)
  have ok: "rooms_ok r" using run rms.reachable_inv by (auto simp: rms.reachable_def)
  define pick where "pick o1 = map (\<lambda>n. the (rooms r n)) (filter (\<lambda>n. HasPrefix n ''group:'') o1)" for o1
  have names: "map Room (pick o1) = filter (\<lambda>n. HasPrefix n ''group:'') o1" if "set o1 = dom (rooms r)" for o1
    unfolding pick_def map_map using that rooms_okD [OF ok]
    by (intro map_idI) (fastforce simp: room_ok_def)
  have sorted: "map Room (Groups o1 r) = sorted_list_of_set {n \<in> dom (rooms r). HasPrefix n ''group:''}"
    if o1: "distinct o1" "set o1 = dom (rooms r)" for o1
  proof (rule sorted_distinct_set_unique)
    have "mset (map Room (Groups o1 r)) = mset (filter (\<lambda>n. HasPrefix n ''group:'') o1)"
      using arg_cong [OF names [OF o1(2)], of mset] by (simp add: Groups_def sort_simps flip: pick_def)
    then show "distinct (map Room (Groups o1 r))"
      using o1(1) by (metis distinct_filter mset_eq_imp_distinct_iff)
    show "set (map Room (Groups o1 r)) = set (sorted_list_of_set {n \<in> dom (rooms r). HasPrefix n ''group:''})"
      using o1(2) arg_cong [OF names [OF o1(2)], of set] finite_set [of o1]
      by (auto simp: Groups_def simp flip: pick_def)
  qed (use by_room.stable_sort_keys in \<open>auto simp: Groups_def\<close>)
  then show names_eq: "map Room (Groups order r) = sorted_list_of_set {n \<in> dom (rooms r). HasPrefix n ''group:''}"
    using order by blast
  have again: "Groups o1 r = map (\<lambda>n. the (rooms r n)) (map Room (Groups o1 r))" if "set o1 = dom (rooms r)" for o1
    using that rooms_okD [OF ok] unfolding map_map
    by (intro map_idI [symmetric]) (fastforce simp: Groups_def room_ok_def)
  show "Groups order r = Groups order' r"
    using again [OF order(2)] again [OF order'(2)] names_eq sorted [OF order'] by metis
qed


end
