(* ===== verification/Text.thy ===== *)
theory Text
  imports Prelude
begin

text \<open>
  The functions of Go's \<^verbatim>\<open>strings\<close>, \<^verbatim>\<open>unicode\<close>, \<^verbatim>\<open>strconv\<close> and \<^verbatim>\<open>time\<close> the recorder uses on
  titles, words and the wall clock. A Go string is its bytes. Case and letter tables above ASCII
  and the time zone are the \<open>world\<close>: data the host supplies, below it everything is written
  out.
\<close>

record world =
  uniLower :: "int \<Rightarrow> int"
  uniFold :: "int \<Rightarrow> int \<Rightarrow> bool"
  uniLetter :: "int \<Rightarrow> bool"
  uniDigit :: "int \<Rightarrow> bool"
  zone :: "gotime \<Rightarrow> int"

subsection \<open>UTF-8\<close>

abbreviation (input) RuneError :: int where "RuneError \<equiv> 0xFFFD"

definition cont :: "int \<Rightarrow> bool" where
  "cont c \<longleftrightarrow> 0x80 \<le> c \<and> c \<le> 0xBF"

text \<open>The second byte a three-byte or four-byte lead accepts.\<close>

definition second :: "int \<Rightarrow> int \<Rightarrow> bool" where
  "second b c \<longleftrightarrow>
     (if b = 0xE0 then 0xA0 \<le> c \<and> c \<le> 0xBF
      else if b = 0xED then 0x80 \<le> c \<and> c \<le> 0x9F
      else if b = 0xF0 then 0x90 \<le> c \<and> c \<le> 0xBF
      else if b = 0xF4 then 0x80 \<le> c \<and> c \<le> 0x8F
      else cont c)"

text \<open>One rune and how many bytes it took; a byte that starts no rune is \<^verbatim>\<open>RuneError\<close> of width 1.\<close>

definition decodeRune :: "int \<Rightarrow> int list \<Rightarrow> int \<times> nat" where
  "decodeRune b s =
     (if b < 0x80 then (b, 0)
      else if 0xC2 \<le> b \<and> b \<le> 0xDF then
        (case s of c # _ \<Rightarrow> if cont c then ((b - 0xC0) * 64 + (c - 0x80), 1) else (RuneError, 0) | _ \<Rightarrow> (RuneError, 0))
      else if 0xE0 \<le> b \<and> b \<le> 0xEF then
        (case s of c # d # _ \<Rightarrow> if second b c \<and> cont d then ((b - 0xE0) * 4096 + (c - 0x80) * 64 + (d - 0x80), 2) else (RuneError, 0)
         | _ \<Rightarrow> (RuneError, 0))
      else if 0xF0 \<le> b \<and> b \<le> 0xF4 then
        (case s of c # d # e # _ \<Rightarrow>
           if second b c \<and> cont d \<and> cont e
           then ((b - 0xF0) * 262144 + (c - 0x80) * 4096 + (d - 0x80) * 64 + (e - 0x80), 3) else (RuneError, 0)
         | _ \<Rightarrow> (RuneError, 0))
      else (RuneError, 0))"

function decodeRunes :: "int list \<Rightarrow> int list" where
  "decodeRunes [] = []"
| "decodeRunes (b # s) = (let (r, n) = decodeRune b s in r # decodeRunes (drop n s))"
  by pat_completeness auto
termination
  by (relation "measure length") auto

definition runes :: "string \<Rightarrow> int list" where
  "runes s = decodeRunes (map of_char s)"

definition encodeRune :: "int \<Rightarrow> string" where
  "encodeRune r =
     map (\<lambda>b. char_of (nat b))
      (if 0 \<le> r \<and> r < 0x80 then [r]
       else if 0 \<le> r \<and> r < 0x800 then [0xC0 + r div 64, 0x80 + r mod 64]
       else if r < 0 \<or> r > 0x10FFFF \<or> (0xD800 \<le> r \<and> r \<le> 0xDFFF) then [0xEF, 0xBF, 0xBD]
       else if r < 0x10000 then [0xE0 + r div 4096, 0x80 + r div 64 mod 64, 0x80 + r mod 64]
       else [0xF0 + r div 262144, 0x80 + r div 4096 mod 64, 0x80 + r div 64 mod 64, 0x80 + r mod 64])"

subsection \<open>Case\<close>

definition lowerRune :: "world \<Rightarrow> int \<Rightarrow> int" where
  "lowerRune w r = (if r < 0x80 then (if 65 \<le> r \<and> r \<le> 90 then r + 32 else r) else uniLower w r)"

definition ToLower :: "world \<Rightarrow> string \<Rightarrow> string" where
  "ToLower w s = concat (map (encodeRune \<circ> lowerRune w) (runes s))"

definition foldRune :: "world \<Rightarrow> int \<Rightarrow> int \<Rightarrow> bool" where
  "foldRune w a b \<longleftrightarrow>
     (a = b \<or>
      (let sr = min a b; tr = max a b in
       if tr < 0x80 then 65 \<le> sr \<and> sr \<le> 90 \<and> tr = sr + 32 else uniFold w sr tr))"

definition EqualFold :: "world \<Rightarrow> string \<Rightarrow> string \<Rightarrow> bool" where
  "EqualFold w s t \<longleftrightarrow> list_all2 (foldRune w) (runes s) (runes t)"

definition IsLetter :: "world \<Rightarrow> int \<Rightarrow> bool" where
  "IsLetter w r \<longleftrightarrow> (if r < 0x80 then (65 \<le> r \<and> r \<le> 90) \<or> (97 \<le> r \<and> r \<le> 122) else uniLetter w r)"

definition IsDigit :: "world \<Rightarrow> int \<Rightarrow> bool" where
  "IsDigit w r \<longleftrightarrow> (if r < 0x80 then 48 \<le> r \<and> r \<le> 57 else uniDigit w r)"

subsection \<open>Searching and numbers\<close>

fun Contains :: "string \<Rightarrow> string \<Rightarrow> bool" where
  "Contains [] p \<longleftrightarrow> p = []"
| "Contains (c # s) p \<longleftrightarrow> take (length p) (c # s) = p \<or> Contains s p"

fun Split :: "char \<Rightarrow> string \<Rightarrow> string list" where
  "Split c [] = [[]]"
| "Split c (x # s) = (if x = c then [] # Split c s
     else case Split c s of [] \<Rightarrow> [[x]] | p # ps \<Rightarrow> (x # p) # ps)"

definition digit :: "char \<Rightarrow> bool" where
  "digit c \<longleftrightarrow> 48 \<le> (of_char c :: int) \<and> (of_char c :: int) \<le> 57"

definition Atoi :: "string \<Rightarrow> int option" where
  "Atoi s =
     (let (neg, ds) = (case s of c # r \<Rightarrow> if c = CHR ''-'' then (True, r) else if c = CHR ''+'' then (False, r) else (False, s) | [] \<Rightarrow> (False, []));
          n = foldl (\<lambda>a c. a * 10 + (of_char c - 48)) 0 ds;
          v = (if neg then - n else n)
      in if ds = [] \<or> \<not> list_all digit ds \<or> v < - (2 ^ 63) \<or> v \<ge> 2 ^ 63 then None else Some v)"

fun decimal :: "nat \<Rightarrow> string" where
  "decimal n = (if n < 10 then [char_of (48 + n)] else decimal (n div 10) @ [char_of (48 + n mod 10)])"

declare decimal.simps [simp del]

definition FormatInt :: "int \<Rightarrow> string" where
  "FormatInt i = (if i < 0 then CHR ''-'' # decimal (nat (- i)) else decimal (nat i))"

subsection \<open>The wall clock\<close>

definition unixSec :: "gotime \<Rightarrow> int" where
  "unixSec t = (t - 62135596800 * Second) div Second"

text \<open>Seconds of the local clock, the day number it is in, the second of that day, the weekday.\<close>

definition localSec :: "world \<Rightarrow> gotime \<Rightarrow> int" where
  "localSec w t = unixSec t + zone w t"

definition dayNumber :: "world \<Rightarrow> gotime \<Rightarrow> int" where
  "dayNumber w t = localSec w t div 86400"

definition Hour_of :: "world \<Rightarrow> gotime \<Rightarrow> int" where
  "Hour_of w t = localSec w t mod 86400 div 3600"

definition Minute_of :: "world \<Rightarrow> gotime \<Rightarrow> int" where
  "Minute_of w t = localSec w t mod 3600 div 60"

definition Weekday :: "world \<Rightarrow> gotime \<Rightarrow> int" where
  "Weekday w t = (dayNumber w t + 4) mod 7"

text \<open>
  \<^verbatim>\<open>time.Date\<close> on the local clock, of a day number and a second of the day: the offset is looked up
  as if the reading were UTC, then again at the instant that gives.
\<close>

definition fromUnix :: "int \<Rightarrow> gotime" where
  "fromUnix s = s * Second + 62135596800 * Second"

definition dateAt :: "world \<Rightarrow> int \<Rightarrow> int \<Rightarrow> gotime" where
  "dateAt w day s =
     (let u = day * 86400 + s in fromUnix (u - zone w (fromUnix (u - zone w (fromUnix u)))))"

text \<open>Year, month and day of a day number (day 0 is 1 January 1970).\<close>

definition civil :: "int \<Rightarrow> int \<times> int \<times> int" where
  "civil days =
     (let z = days + 719468;
          era = z div 146097;
          doe = z mod 146097;
          yoe = (doe - doe div 1460 + doe div 36524 - doe div 146096) div 365;
          doy = doe - (365 * yoe + yoe div 4 - yoe div 100);
          mp = (5 * doy + 2) div 153;
          d = doy - (153 * mp + 2) div 5 + 1;
          m = (if mp < 10 then mp + 3 else mp - 9)
      in (yoe + era * 400 + (if m \<le> 2 then 1 else 0), m, d))"

definition pad2 :: "int \<Rightarrow> string" where
  "pad2 i = (if i < 10 then CHR ''0'' # FormatInt i else FormatInt i)"

definition pad4 :: "int \<Rightarrow> string" where
  "pad4 i = (let s = FormatInt i in replicate (4 - length s) CHR ''0'' @ s)"

text \<open>\<^verbatim>\<open>t.UTC().Format(time.RFC3339)\<close>, for the years it is defined for.\<close>

definition RFC3339 :: "gotime \<Rightarrow> string" where
  "RFC3339 t =
     (let u = unixSec t; (y, m, d) = civil (u div 86400); s = u mod 86400
      in pad4 y @ ''-'' @ pad2 m @ ''-'' @ pad2 d @ ''T'' @ pad2 (s div 3600) @ '':'' @ pad2 (s mod 3600 div 60) @ '':'' @ pad2 (s mod 60) @ ''Z'')"

end
