(* ===== verification/DvrData.thy ===== *)
theory DvrData
  imports Text Complex_Main
begin

text \<open>
  The rows the recorder plans with, from \<^verbatim>\<open>server/internal/store/dvr.go\<close> and
  \<^verbatim>\<open>server/internal/sports/sports.go\<close>, and the pure functions on them: when a recording counts as
  whole, damaged or played, the key of an episode, the start of a manual pass. Seconds of
  a recording are \<^verbatim>\<open>float64\<close> in the code and exact rationals here.
\<close>

subsection \<open>Rows\<close>

record Airing =
  a_ID :: int
  a_ChannelID :: int
  a_Title :: string
  a_Subtitle :: string
  a_Description :: string
  a_Category :: string
  a_ProgramID :: string
  a_New :: bool
  a_ImageURL :: string
  a_ImageWidth :: int
  a_ImageHeight :: int
  a_Season :: int
  a_Episode :: int
  a_EpisodeLabel :: string
  a_OriginalAir :: string
  a_SeriesID :: string
  a_Live :: bool
  a_Premiere :: bool
  a_Finale :: bool
  a_Rating :: string
  a_Cast :: string
  a_GameID :: string
  a_GuideSource :: string
  a_CC :: bool
  a_Video :: string
  a_Audio :: string
  a_Start :: gotime
  a_End :: gotime
  a_Simulcast :: int
  a_ManualPass :: int

definition noAiring :: Airing where
  "noAiring = \<lparr>a_ID = 0, a_ChannelID = 0, a_Title = [], a_Subtitle = [], a_Description = [], a_Category = [],
     a_ProgramID = [], a_New = False, a_ImageURL = [], a_ImageWidth = 0, a_ImageHeight = 0, a_Season = 0,
     a_Episode = 0, a_EpisodeLabel = [], a_OriginalAir = [], a_SeriesID = [], a_Live = False, a_Premiere = False,
     a_Finale = False, a_Rating = [], a_Cast = [], a_GameID = [], a_GuideSource = [], a_CC = False,
     a_Video = [], a_Audio = [], a_Start = 0, a_End = 0, a_Simulcast = 0, a_ManualPass = 0\<rparr>"

record RecordingHealth =
  h_ContinuityErrors :: int
  h_TransportErrors :: int
  h_SyncLosses :: int
  h_Packets :: int
  h_Gaps :: int
  h_LostSeconds :: rat
  h_Damaged :: bool

record Recording =
  r_ID :: int
  r_ChannelID :: int
  r_GuideNumber :: string
  r_Title :: string
  r_Path :: string
  r_Status :: string
  r_Error :: string
  r_StartedAt :: gotime
  r_EndsAt :: "gotime option"
  r_EndedAt :: "gotime option"
  r_Bytes :: int
  r_Position :: rat
  r_Duration :: rat
  r_Subtitle :: string
  r_Description :: string
  r_Category :: string
  r_ProgramID :: string
  r_GameID :: string
  r_PassID :: int
  r_Watched :: int
  r_Health :: "RecordingHealth option"
  r_Missing :: bool
  r_Season :: int
  r_Episode :: int
  r_EpisodeLabel :: string
  r_OriginalAir :: string
  r_ProgressAt :: "gotime option"
  r_BreaksScanned :: bool
  r_IntroStart :: rat
  r_IntroEnd :: rat
  r_CreditsStart :: rat
  r_Listened :: bool
  r_File :: string
  r_Keep :: bool
  r_WatchedAt :: "gotime option"
  r_Partial :: bool

record Pass =
  p_ID :: int
  p_Title :: string
  p_ChannelID :: int
  p_Kind :: string
  p_PadBefore :: int
  p_PadAfter :: int
  p_Priority :: int
  p_Episodes :: string
  p_KeepMode :: string
  p_KeepCount :: int
  p_LimitCount :: int
  p_Rerecord :: bool
  p_Commercials :: bool
  p_TimeStart :: string
  p_TimeEnd :: string
  p_MatchKind :: string
  p_Days :: "int list"
  p_AiringStart :: gotime
  p_Duration :: int
  p_Date :: string

definition noPass :: Pass where
  "noPass = \<lparr>p_ID = 0, p_Title = [], p_ChannelID = 0, p_Kind = [], p_PadBefore = 0, p_PadAfter = 0, p_Priority = 0,
     p_Episodes = [], p_KeepMode = [], p_KeepCount = 0, p_LimitCount = 0, p_Rerecord = False, p_Commercials = False,
     p_TimeStart = [], p_TimeEnd = [], p_MatchKind = [], p_Days = [], p_AiringStart = 0, p_Duration = 0, p_Date = []\<rparr>"

record Team =
  t_Name :: string
  t_Short :: string
  t_Abbr :: string
  t_Score :: string
  t_Home :: bool
  t_Color :: string
  t_AltColor :: string
  t_Logo :: string

record Game =
  g_ID :: string
  g_League :: string
  g_Name :: string
  g_ShortName :: string
  g_Start :: gotime
  g_State :: string
  g_Completed :: bool
  g_Detail :: string
  g_Clock :: string
  g_Period :: int
  g_Broadcasts :: "string list"
  g_Teams :: "Team list"
  g_RedZone :: bool
  g_PowerPlay :: bool
  g_Situation :: string

subsection \<open>Recordings\<close>

definition Judge :: "rat \<Rightarrow> RecordingHealth \<Rightarrow> RecordingHealth" where
  "Judge len h =
     (let hours = max 1 (len / 3600)
      in h\<lparr>h_Damaged := h_LostSeconds h \<ge> 5 \<or> of_int (h_ContinuityErrors h) \<ge> 60 * hours\<rparr>)"

definition Damaged :: "Recording \<Rightarrow> bool" where
  "Damaged r \<longleftrightarrow> (case r_Health r of None \<Rightarrow> False | Some h \<Rightarrow> h_Damaged h)"

definition Incomplete :: "Recording \<Rightarrow> bool" where
  "Incomplete r \<longleftrightarrow> r_Partial r \<or> r_Status r = ''failed'' \<or> r_Status r = ''interrupted''"

definition Played :: "Recording \<Rightarrow> bool" where
  "Played r \<longleftrightarrow>
     (if r_Watched r = 2 then False
      else if r_Watched r = 1 then True
      else if r_Duration r < 10 \<or> r_Position r < 1 then False
      else r_Position r \<ge> r_Duration r - 15 \<or> (r_Duration r > 0 \<and> r_Position r / r_Duration r \<ge> 9 / 10))"

definition WatchedSince :: "Recording \<Rightarrow> gotime" where
  "WatchedSince r =
     (if \<not> Played r then 0
      else
        let since = (if r_Watched r = 1 then (case r_WatchedAt r of Some t \<Rightarrow> t | None \<Rightarrow> 0) else 0)
        in (case r_ProgressAt r of Some t \<Rightarrow> if t > since then t else since | None \<Rightarrow> since))"

definition EpisodeKey :: "world \<Rightarrow> string \<Rightarrow> string \<Rightarrow> string \<Rightarrow> int \<Rightarrow> string" where
  "EpisodeKey w programID title subtitle channelID =
     (if trim_space programID \<noteq> [] then ''id:'' @ trim_space programID
      else if trim_space subtitle = [] then []
      else ''ep:'' @ ToLower w (trim_space title) @ ''|'' @ ToLower w (trim_space subtitle) @ ''|'' @ FormatInt channelID)"

subsection \<open>The clock of a manual pass\<close>

definition clock :: "string \<Rightarrow> (int \<times> int) option" where
  "clock v0 =
     (let v = trim_space v0 in
      if length v \<noteq> 5 \<or> v ! 2 \<noteq> CHR '':'' then None
      else
        (case (Atoi (take 2 v), Atoi (drop 3 v)) of
           (Some h, Some m) \<Rightarrow> if h < 0 \<or> h > 23 \<or> m < 0 \<or> m > 59 then None else Some (h, m)
         | _ \<Rightarrow> None))"

definition dayOfMonth :: "world \<Rightarrow> gotime \<Rightarrow> int" where
  "dayOfMonth w t = (let (y, m, d) = civil (dayNumber w t) in d)"

definition ManualStart :: "world \<Rightarrow> Pass \<Rightarrow> gotime \<Rightarrow> gotime option" where
  "ManualStart w p day =
     (case clock (p_TimeStart p) of
        None \<Rightarrow> None
      | Some (hour, minute) \<Rightarrow>
          let start = dateAt w (dayNumber w day) (hour * 3600 + minute * 60);
              short = (hour * 60 + minute) - (Hour_of w start * 60 + Minute_of w start)
          in Some (if short > 0 \<and> dayOfMonth w start = dayOfMonth w day then start + short * Minute else start))"

end
