(* ===== verification/Dvr.thy ===== *)
theory Dvr
  imports DvrData "HOL-Library.Product_Lexorder"
begin

text \<open>
  What the recorder will record: passes against the guide (\<^verbatim>\<open>plan.go\<close>, \<^verbatim>\<open>manual.go\<close>), the library's
  rules (\<^verbatim>\<open>rules.go\<close>), tuners (\<^verbatim>\<open>plan.go\<close>), when a recording starts (\<^verbatim>\<open>start.go\<close>) and
  how it follows a game (\<^verbatim>\<open>extend.go\<close>), all of \<^verbatim>\<open>server/internal/dvr\<close>. A range over a Go map takes its
  order from an argument.
\<close>

subsection \<open>Words (sports/match.go)\<close>

fun foldLoop :: "world \<Rightarrow> bool \<Rightarrow> string \<Rightarrow> int list \<Rightarrow> string" where
  "foldLoop w space b [] = b"
| "foldLoop w space b (r # rs) =
     (if IsLetter w r \<or> IsDigit w r then foldLoop w False (b @ encodeRune r) rs
      else if \<not> space \<and> b \<noteq> [] then foldLoop w True (b @ '' '') rs
      else foldLoop w space b rs)"

definition fold_words :: "world \<Rightarrow> string \<Rightarrow> string" where
  "fold_words w s = trim_space (foldLoop w False [] (runes (ToLower w s)))"

definition phrase :: "string \<Rightarrow> string \<Rightarrow> bool" where
  "phrase txt part \<longleftrightarrow> part \<noteq> [] \<and> txt \<noteq> [] \<and> Contains ('' '' @ txt @ '' '') ('' '' @ part @ '' '')"

definition Mentions :: "world \<Rightarrow> string \<Rightarrow> string \<Rightarrow> bool" where
  "Mentions w txt name = phrase (fold_words w txt) (fold_words w name)"

subsection \<open>The time after a listing (extend.go)\<close>

definition has_word :: "string \<Rightarrow> string list \<Rightarrow> bool" where
  "has_word txt ws \<longleftrightarrow> list_ex (Contains txt) ws"

definition sportsTail :: "world \<Rightarrow> string \<Rightarrow> duration" where
  "sportsTail w txt0 =
     (let txt = ToLower w txt0 in
      if has_word txt [''sports talk'', ''sports non-event'', ''sports news'', ''pregame'', ''pre-game'', ''postgame'', ''post-game'', ''highlights'', ''magazine''] then 0
      else if has_word txt [''golf'', ''tennis'', ''racing'', ''motorsport'', ''nascar'', ''indycar'', ''formula 1'', ''formula one'', ''cricket''] then 90 * Minute
      else if has_word txt [''football'', ''baseball'', ''softball''] then 60 * Minute
      else if has_word txt [''basketball'', ''hockey'', ''soccer'', ''f'' @ [CHR 0xC3, CHR 0xBA] @ ''tbol'', ''futbol'', ''volleyball'', ''lacrosse'', ''rugby''] then 30 * Minute
      else if has_word txt [''sport''] then 60 * Minute
      else 0)"

definition SportsTail :: "world \<Rightarrow> Airing \<Rightarrow> duration" where
  "SportsTail w air =
     (if a_GameID air \<noteq> [] \<or> a_ManualPass air \<noteq> 0 then 0
      else sportsTail w (if Contains (ToLower w (a_Category air)) ''sport''
                         then a_Category air @ '' '' @ a_Title air else a_Category air))"

record Extend =
  x_ID :: int
  x_Until :: gotime
  x_Note :: string

definition NextExtension :: "int \<Rightarrow> gotime \<Rightarrow> Game \<Rightarrow> bool \<Rightarrow> gotime \<Rightarrow> Extend option" where
  "NextExtension rid ends game found now =
     (if \<not> found then None
      else if g_State game = ''post'' \<or> g_Completed game then
        let stop = now + 8 * Minute in
        if ends \<noteq> 0 \<and> ends > now \<and> \<not> ends > stop + Minute then None
        else Some \<lparr>x_ID = rid, x_Until = stop, x_Note = ''The game is over. Stopping in 8 min.''\<rparr>
      else if g_State game \<noteq> ''in'' \<and> g_State game \<noteq> ''pre'' then None
      else if g_State game = ''pre'' \<and> \<not> now > g_Start game then None
      else
        let horizon = now + 10 * Minute in
        if ends \<noteq> 0 \<and> \<not> ends < horizon then None
        else
          let added = (if ends \<noteq> 0 \<and> ends > now then max 1 (quot (time_sub horizon ends) Minute) else 10);
              note = ''Extended '' @ FormatInt added @
                (if g_State game = ''pre'' then '' min, the game has not started.''
                 else if now > g_Start game + (3 * Hour + 15 * Minute) then '' min for overtime.''
                 else '' min, the game is still on.'')
          in Some \<lparr>x_ID = rid, x_Until = horizon, x_Note = note\<rparr>)"

subsection \<open>Starting (start.go)\<close>

abbreviation (input) recordLead :: duration where "recordLead \<equiv> 90 * Second"

definition recordMinutes :: "world \<Rightarrow> Pass \<Rightarrow> Airing \<Rightarrow> gotime \<Rightarrow> int" where
  "recordMinutes w pass air now =
     (let tail = p_PadAfter pass * Minute + SportsTail w air;
          minutes = quot (time_sub (a_End air + tail) now) Minute + 1
      in if minutes < 1 then 1 else if minutes > 8 * 60 then 8 * 60 else minutes)"

definition StartDecision :: "world \<Rightarrow> Pass \<Rightarrow> Airing \<Rightarrow> gotime \<Rightarrow> bool \<times> int" where
  "StartDecision w pass air now =
     (let extra = p_PadBefore pass * Minute;
          lead = (if extra > recordLead then extra else recordLead)
      in if now < a_Start air - lead \<or> \<not> a_End air > now then (False, 0)
         else if now > a_Start air + recordLead then (False, 0)
         else (True, recordMinutes w pass air now))"

definition JoinDecision :: "world \<Rightarrow> Pass \<Rightarrow> Airing \<Rightarrow> gotime \<Rightarrow> gotime \<Rightarrow> bool \<times> int" where
  "JoinDecision w pass air now held =
     (if held = 0 \<or> held > a_Start air \<or> \<not> a_End air > now \<or> \<not> now > a_Start air + recordLead then (False, 0)
      else (True, recordMinutes w pass air now))"

subsection \<open>Matching passes to airings (plan.go)\<close>

definition categoryHas :: "world \<Rightarrow> string \<Rightarrow> string \<Rightarrow> bool" where
  "categoryHas w category want \<longleftrightarrow>
     want \<noteq> [] \<and>
     (list_ex (\<lambda>part. EqualFold w (trim_space part) want) (Split CHR '','' category) \<or> EqualFold w (trim_space category) want)"

definition onDay :: "int list \<Rightarrow> int \<Rightarrow> bool" where
  "onDay days day \<longleftrightarrow> days = [] \<or> day \<in> set days"

definition clockMinutes :: "string \<Rightarrow> int" where
  "clockMinutes value0 =
     (let v = trim_space value0 in
      if v = [] then -1
      else
        (case Split CHR '':'' v of
           [p, q] \<Rightarrow>
             (case (Atoi p, Atoi q) of
                (Some hour, Some mins) \<Rightarrow> if hour < 0 \<or> hour > 23 \<or> mins < 0 \<or> mins > 59 then -1 else hour * 60 + mins
              | _ \<Rightarrow> -1)
         | _ \<Rightarrow> -1))"

definition inWindow :: "world \<Rightarrow> Pass \<Rightarrow> gotime \<Rightarrow> bool" where
  "inWindow w pass start \<longleftrightarrow>
     (let mins = Hour_of w start * 60 + Minute_of w start;
          day = Weekday w start;
          a = clockMinutes (p_TimeStart pass);
          b = clockMinutes (p_TimeEnd pass)
      in if a \<ge> 0 \<and> b \<ge> 0 then
           (if a \<le> b then (if mins < a \<or> mins \<ge> b then False else onDay (p_Days pass) day)
            else if mins < a \<and> mins \<ge> b then False
            else onDay (p_Days pass) (if mins < b then (day + 6) mod 7 else day))
         else onDay (p_Days pass) day)"

definition passMatches :: "world \<Rightarrow> Pass \<Rightarrow> Airing \<Rightarrow> bool" where
  "passMatches w pass air \<longleftrightarrow>
     (if p_Kind pass = ''manual'' \<or> a_ManualPass air \<noteq> 0 then a_ManualPass air \<noteq> 0 \<and> a_ManualPass air = p_ID pass
      else if p_ChannelID pass \<noteq> 0 \<and> p_ChannelID pass \<noteq> a_ChannelID air then False
      else if p_ChannelID pass = 0 \<and> a_Simulcast air \<noteq> 0 then False
      else if p_Kind pass = ''once'' then p_ChannelID pass \<noteq> 0 \<and> a_Start air = p_AiringStart pass
      else if \<not> inWindow w pass (a_Start air) then False
      else
        let kind = ToLower w (trim_space (p_MatchKind pass));
            title = ToLower w (trim_space (a_Title air));
            want = ToLower w (trim_space (p_Title pass))
        in if EqualFold w (p_Kind pass) ''team'' \<or> kind = ''team'' then
             Mentions w (a_Title air @ '' '' @ a_Subtitle air) (p_Title pass)
           else if kind = ''category'' \<and> \<not> categoryHas w (a_Category air) want then False
           else if kind = ''contains'' \<and> (want = [] \<or> \<not> Contains title want) then False
           else if kind \<noteq> ''category'' \<and> kind \<noteq> ''contains'' \<and> title \<noteq> want then False
           else \<not> (EqualFold w (p_Episodes pass) ''new'' \<and> \<not> a_New air))"

definition matchPass :: "world \<Rightarrow> Pass list \<Rightarrow> Airing \<Rightarrow> Pass option" where
  "matchPass w passes air =
     (case find (\<lambda>p. p_Kind p = ''once'' \<and> passMatches w p air) passes of
        Some p \<Rightarrow> Some p
      | None \<Rightarrow> find (\<lambda>p. p_Kind p \<noteq> ''once'' \<and> passMatches w p air) passes)"

subsection \<open>Manual passes (manual.go)\<close>

definition slotOn :: "Pass \<Rightarrow> gotime \<Rightarrow> gotime \<Rightarrow> gotime \<Rightarrow> bool" where
  "slotOn pass from to start \<longleftrightarrow> start + p_Duration pass * Minute > from \<and> start < to"

text \<open>The walk over local days at noon, from day number \<open>d\<close>; \<open>fuel\<close> bounds the days walked.\<close>

fun manualWalk :: "world \<Rightarrow> Pass \<Rightarrow> gotime \<Rightarrow> gotime \<Rightarrow> nat \<Rightarrow> int \<Rightarrow> gotime list" where
  "manualWalk w pass from to 0 d = []"
| "manualWalk w pass from to (Suc fuel) d =
     (let day = dateAt w d (12 * 3600) in
      if day > to + 24 * Hour then []
      else
        (if \<not> onDay (p_Days pass) (Weekday w day) then []
         else case ManualStart w pass day of None \<Rightarrow> [] | Some start \<Rightarrow> if slotOn pass from to start then [start] else [])
        @ manualWalk w pass from to fuel (dayNumber w day + 1))"

definition manualFuel :: "Pass \<Rightarrow> gotime \<Rightarrow> gotime \<Rightarrow> nat" where
  "manualFuel pass from to = nat ((to - from + p_Duration pass * Minute) div (24 * Hour)) + 8"

definition ManualStarts :: "world \<Rightarrow> Pass \<Rightarrow> gotime \<Rightarrow> gotime \<Rightarrow> gotime list" where
  "ManualStarts w pass from to =
     (if p_Days pass = [] then
        (if p_AiringStart pass = 0 \<or> \<not> slotOn pass from to (p_AiringStart pass) then [] else [p_AiringStart pass])
      else
        let first = from + (- (p_Duration pass * Minute) - 24 * Hour)
        in manualWalk w pass from to (manualFuel pass from to) (dayNumber w first))"

text \<open>64-bit wrap-around.\<close>

definition int64 :: "int \<Rightarrow> int" where
  "int64 x = (x + 2 ^ 63) mod 2 ^ 64 - 2 ^ 63"

definition manualID :: "int \<Rightarrow> gotime \<Rightarrow> int" where
  "manualID passID start = int64 (- ((if passID < 0 then - passID else passID) * 100000000 + quot (unixSec start) 60))"

definition overlapStep :: "int \<Rightarrow> gotime \<Rightarrow> gotime \<Rightarrow> Airing \<times> duration \<Rightarrow> Airing \<Rightarrow> Airing \<times> duration" where
  "overlapStep channelID start stop bm air =
     (if a_ChannelID air \<noteq> channelID \<or> a_ManualPass air \<noteq> 0 \<or> \<not> a_End air > start \<or> \<not> a_Start air < stop then bm
      else
        let shared = time_sub (min (a_End air) stop) (max (a_Start air) start)
        in if shared > snd bm then (air, shared) else bm)"

definition overlapping :: "Airing list \<Rightarrow> int \<Rightarrow> gotime \<Rightarrow> gotime \<Rightarrow> Airing option" where
  "overlapping airings channelID start stop =
     (let (best, most) = foldl (overlapStep channelID start stop) (noAiring, 0) airings
      in if most > 0 then Some best else None)"

definition manualAiring :: "Pass \<Rightarrow> gotime \<Rightarrow> Airing list \<Rightarrow> Airing" where
  "manualAiring pass start airings =
     (let stop = start + p_Duration pass * Minute;
          air = noAiring\<lparr>a_ID := manualID (p_ID pass) start, a_ChannelID := p_ChannelID pass, a_Title := p_Title pass,
            a_Start := start, a_End := stop, a_ManualPass := p_ID pass\<rparr>
      in (case overlapping airings (p_ChannelID pass) start stop of
            None \<Rightarrow> air
          | Some l \<Rightarrow>
              air\<lparr>a_Title := (if a_Title air = [] then a_Title l else a_Title air),
                a_Subtitle := a_Subtitle l, a_Description := a_Description l, a_Category := a_Category l, a_ProgramID := a_ProgramID l,
                a_New := a_New l, a_ImageURL := a_ImageURL l, a_ImageWidth := a_ImageWidth l, a_ImageHeight := a_ImageHeight l,
                a_Season := a_Season l, a_Episode := a_Episode l, a_EpisodeLabel := a_EpisodeLabel l, a_SeriesID := a_SeriesID l,
                a_Rating := a_Rating l, a_GuideSource := a_GuideSource l\<rparr>))"

definition manualAirings :: "world \<Rightarrow> Pass list \<Rightarrow> Airing list \<Rightarrow> gotime \<Rightarrow> gotime \<Rightarrow> Airing list" where
  "manualAirings w passes airings from to =
     concat (map (\<lambda>pass.
       if p_Kind pass \<noteq> ''manual'' \<or> p_ChannelID pass = 0 \<or> p_Duration pass < 1 then []
       else map (\<lambda>start. manualAiring pass start airings) (ManualStarts w pass from to)) passes)"

definition ManualSkipKey :: "int \<Rightarrow> string" where
  "ManualSkipKey passID = ''manual:'' @ FormatInt passID"

subsection \<open>The plan (plan.go)\<close>

record Suggestion =
  s_ChannelID :: int
  s_GuideNumber :: string
  s_Title :: string
  s_Start :: gotime
  s_End :: gotime

record Planned =
  PassID :: int
  AiringOf :: Airing
  Priority :: int
  PadBefore :: int
  PadAfter :: int
  Conflict :: bool
  Skipped :: bool
  Reason :: string
  SuggestionOf :: "Suggestion option"
  Manual :: bool
  runsUntil :: gotime

definition tunerSpan :: "world \<Rightarrow> Planned \<Rightarrow> gotime \<times> gotime" where
  "tunerSpan w p =
     (let start = a_Start (AiringOf p) + - PadBefore p * Minute;
          stop = a_End (AiringOf p) + (PadAfter p * Minute + SportsTail w (AiringOf p))
      in (start, if runsUntil p > stop then runsUntil p else stop))"

definition byStart :: "Planned \<Rightarrow> Planned \<Rightarrow> bool" where
  "byStart x y \<longleftrightarrow>
     (if a_Start (AiringOf x) = a_Start (AiringOf y) then a_ID (AiringOf x) < a_ID (AiringOf y)
      else a_Start (AiringOf x) < a_Start (AiringOf y))"

definition planned :: "Pass \<Rightarrow> Airing \<Rightarrow> Planned" where
  "planned pass air = \<lparr>PassID = p_ID pass, AiringOf = air, Priority = p_Priority pass, PadBefore = p_PadBefore pass,
     PadAfter = p_PadAfter pass, Conflict = False, Skipped = False, Reason = [], SuggestionOf = None,
     Manual = (a_ManualPass air \<noteq> 0), runsUntil = 0\<rparr>"

definition match :: "world \<Rightarrow> Pass list \<Rightarrow> Airing list \<Rightarrow> gotime \<Rightarrow> gotime \<Rightarrow> Planned list" where
  "match w passes airings from to =
     stable_sort byStart
      (concat (map (\<lambda>air.
         if \<not> a_End air > from \<or> \<not> a_Start air < to then []
         else case matchPass w passes air of None \<Rightarrow> [] | Some pass \<Rightarrow> [planned pass air])
       (airings @ manualAirings w passes airings from to)))"

definition losesTo :: "Planned \<Rightarrow> Planned \<Rightarrow> bool" where
  "losesTo a b \<longleftrightarrow>
     (if Priority a \<noteq> Priority b then Priority a < Priority b
      else if a_Start (AiringOf a) \<noteq> a_Start (AiringOf b) then a_Start (AiringOf a) > a_Start (AiringOf b)
      else a_ID (AiringOf a) > a_ID (AiringOf b))"

text \<open>The map \<^verbatim>\<open>active\<close> is the list of its entries; \<open>walk\<close> is the order a range visits its keys in.\<close>

type_synonym active = "(nat \<times> int) list"

definition act_delete :: "nat \<Rightarrow> active \<Rightarrow> active" where
  "act_delete i act = filter (\<lambda>e. fst e \<noteq> i) act"

definition act_put :: "nat \<Rightarrow> int \<Rightarrow> active \<Rightarrow> active" where
  "act_put i c act = act_delete i act @ [(i, c)]"

definition uniqueChannels :: "active \<Rightarrow> nat" where
  "uniqueChannels act = length (remdups (map snd act))"

definition lowestPriority :: "(nat list \<Rightarrow> nat list) \<Rightarrow> Planned list \<Rightarrow> active \<Rightarrow> nat option" where
  "lowestPriority walk items act =
     foldl (\<lambda>loser idx. case loser of None \<Rightarrow> Some idx
        | Some l \<Rightarrow> if losesTo (items ! idx) (items ! l) then Some idx else Some l) None (walk (map fst act))"

text \<open>
  The inner loop: while too many channels are active, the loser is skipped. It takes an entry away
  each time, so the number of entries is fuel enough.
\<close>

fun evict :: "(nat list \<Rightarrow> nat list) \<Rightarrow> nat \<Rightarrow> nat \<Rightarrow> Planned list \<times> active \<Rightarrow> Planned list \<times> active" where
  "evict walk n 0 (items, act) = (items, act)"
| "evict walk n (Suc fuel) (items, act) =
     (if uniqueChannels act > n \<and> act \<noteq> [] then
        (case lowestPriority walk items act of
           None \<Rightarrow> (items, act)
         | Some l \<Rightarrow> evict walk n fuel (items[l := (items ! l)\<lparr>Skipped := True, Conflict := True\<rparr>], act_delete l act))
      else (items, act))"

record event =
  e_at :: gotime
  e_index :: nat
  e_start :: bool

definition evBefore :: "'a event_scheme \<Rightarrow> 'a event_scheme \<Rightarrow> bool" where
  "evBefore x y \<longleftrightarrow> (if e_at x = e_at y \<and> e_start x \<noteq> e_start y then \<not> e_start x else e_at x < e_at y)"

definition planEvents :: "world \<Rightarrow> Planned list \<Rightarrow> event list" where
  "planEvents w items = stable_sort evBefore (concat (map (\<lambda>i.
     let (start, stop) = tunerSpan w (items ! i) in
       [\<lparr>e_at = start, e_index = i, e_start = True\<rparr>, \<lparr>e_at = stop, e_index = i, e_start = False\<rparr>]) [0..<length items]))"

definition planStep :: "(nat list \<Rightarrow> nat list) \<Rightarrow> nat \<Rightarrow> Planned list \<times> active \<Rightarrow> event \<Rightarrow> Planned list \<times> active" where
  "planStep walk n s ev =
     (let (items, act) = s in
      if \<not> e_start ev then (items, act_delete (e_index ev) act)
      else if Skipped (items ! e_index ev) then (items, act)
      else
        let act1 = act_put (e_index ev) (a_ChannelID (AiringOf (items ! e_index ev))) act
        in evict walk n (length act1) (items, act1))"

definition atLeastOne :: "int \<Rightarrow> nat" where
  "atLeastOne tunerCount = (if tunerCount < 1 then 1 else nat tunerCount)"

definition resolvePriority :: "world \<Rightarrow> (nat list \<Rightarrow> nat list) \<Rightarrow> Planned list \<Rightarrow> int \<Rightarrow> Planned list" where
  "resolvePriority w walk items tunerCount =
     fst (foldl (planStep walk (atLeastOne tunerCount)) (items, []) (planEvents w items))"

definition Plan :: "world \<Rightarrow> (nat list \<Rightarrow> nat list) \<Rightarrow> Pass list \<Rightarrow> Airing list \<Rightarrow> int \<Rightarrow> gotime \<Rightarrow> gotime \<Rightarrow> Planned list" where
  "Plan w walk passes airings tunerCount from to =
     resolvePriority w walk (match w passes airings from to) tunerCount"

definition runningRec :: "world \<Rightarrow> Airing \<Rightarrow> gotime \<Rightarrow> Recording \<Rightarrow> gotime" where
  "runningRec w air until rec =
     (case r_EndsAt rec of
        None \<Rightarrow> until
      | Some ends \<Rightarrow>
          if r_Status rec \<noteq> ''recording'' \<or> r_ChannelID rec \<noteq> a_ChannelID air \<or> \<not> EqualFold w (r_Title rec) (a_Title air) then until
          else if r_StartedAt rec < a_End air \<and> ends > until then ends else until)"

definition noteRunning :: "world \<Rightarrow> Recording list \<Rightarrow> Planned list \<Rightarrow> Planned list" where
  "noteRunning w recs items = map (\<lambda>it.
     if a_ManualPass (AiringOf it) \<noteq> 0 then it
     else it\<lparr>runsUntil := foldl (runningRec w (AiringOf it)) (runsUntil it) recs\<rparr>) items"

subsection \<open>The library's rules (rules.go, conflict.go)\<close>

definition SkipParts :: "world \<Rightarrow> Airing \<Rightarrow> string \<times> string" where
  "SkipParts w air =
     (let starts = RFC3339 (a_Start air) in
      if a_ManualPass air \<noteq> 0 then (ManualSkipKey (a_ManualPass air), starts)
      else
        let key = EpisodeKey w (a_ProgramID air) (a_Title air) (a_Subtitle air) (a_ChannelID air)
        in (if key = [] then EpisodeKey w ''once'' (a_Title air) starts (a_ChannelID air) else key, starts))"

definition sameShow :: "world \<Rightarrow> Pass \<Rightarrow> Recording \<Rightarrow> bool" where
  "sameShow w pass rec \<longleftrightarrow>
     (if r_PassID rec \<noteq> 0 then r_PassID rec = p_ID pass
      else if p_Kind pass = ''team'' \<or> p_Kind pass = ''once'' \<or> p_Kind pass = ''manual'' then False
      else
        let kind = ToLower w (trim_space (p_MatchKind pass)) in
        if kind \<noteq> [] \<and> kind \<noteq> ''title'' then False
        else if p_ChannelID pass \<noteq> 0 \<and> p_ChannelID pass \<noteq> r_ChannelID rec then False
        else EqualFold w (r_Title rec) (p_Title pass))"

text \<open>The loop over the recordings of \<^verbatim>\<open>haveEpisode\<close>: None when it returns true inside, else how many damaged copies.\<close>

fun damagedCopies :: "world \<Rightarrow> string \<Rightarrow> int \<Rightarrow> Recording list \<Rightarrow> int option" where
  "damagedCopies w key damaged [] = Some damaged"
| "damagedCopies w key damaged (rec # recs) =
     (if Incomplete rec \<or> EpisodeKey w (r_ProgramID rec) (r_Title rec) (r_Subtitle rec) (r_ChannelID rec) \<noteq> key
      then damagedCopies w key damaged recs
      else if \<not> Damaged rec then None
      else damagedCopies w key (damaged + 1) recs)"

definition haveEpisode :: "world \<Rightarrow> Pass \<Rightarrow> Recording list \<Rightarrow> (string \<rightharpoonup> bool) \<Rightarrow> string \<Rightarrow> bool" where
  "haveEpisode w pass recs seen key \<longleftrightarrow>
     (case damagedCopies w key 0 recs of
        None \<Rightarrow> True
      | Some damaged \<Rightarrow>
          if damaged > 0 then damaged \<ge> 2
          else (case seen key of None \<Rightarrow> False | Some deleted \<Rightarrow> if \<not> deleted then False else \<not> p_Rerecord pass))"

definition unwatchedCount :: "world \<Rightarrow> Recording list \<Rightarrow> Pass \<Rightarrow> int" where
  "unwatchedCount w recs pass =
     int (length (filter (\<lambda>rec. \<not> (Incomplete rec \<or> \<not> sameShow w pass rec) \<and> \<not> Played rec) recs))"

definition passByID :: "Pass list \<Rightarrow> int \<Rightarrow> Pass option" where
  "passByID passes i = find (\<lambda>p. p_ID p = i) (rev passes)"

definition applyRules :: "world \<Rightarrow> Pass list \<Rightarrow> Recording list \<Rightarrow> (string \<rightharpoonup> bool) \<Rightarrow> (string \<Rightarrow> bool) \<Rightarrow> Planned \<Rightarrow> Planned" where
  "applyRules w passes recs seen skips it =
     (let (key, starts) = SkipParts w (AiringOf it) in
      if key \<noteq> [] \<and> skips (key @ ''|'' @ starts) then
        it\<lparr>Skipped := True, Reason := ''Skipped once'', Conflict := False, SuggestionOf := None\<rparr>
      else if Skipped it then it
      else
        let pass = (case passByID passes (PassID it) of Some p \<Rightarrow> p | None \<Rightarrow> noPass) in
        if p_Kind pass = ''once'' then it
        else if p_Kind pass \<noteq> ''manual'' \<and> key \<noteq> [] \<and> haveEpisode w pass recs seen key then
          it\<lparr>Skipped := True, Reason := ''Already recorded''\<rparr>
        else if p_LimitCount pass > 0 \<and> unwatchedCount w recs pass \<ge> p_LimitCount pass then
          it\<lparr>Skipped := True, Reason := ''Limit reached''\<rparr>
        else it)"

definition ApplyLibrary :: "world \<Rightarrow> Planned list \<Rightarrow> Pass list \<Rightarrow> Recording list \<Rightarrow> (string \<rightharpoonup> bool) \<Rightarrow> (string \<Rightarrow> bool) \<Rightarrow> Planned list" where
  "ApplyLibrary w items passes recs seen skips = map (applyRules w passes recs seen skips) items"

definition PlanLibrary :: "world \<Rightarrow> (nat list \<Rightarrow> nat list) \<Rightarrow> Pass list \<Rightarrow> Airing list \<Rightarrow> int \<Rightarrow> gotime \<Rightarrow> gotime \<Rightarrow> Recording list \<Rightarrow> (string \<rightharpoonup> bool) \<Rightarrow> (string \<Rightarrow> bool) \<Rightarrow> Planned list" where
  "PlanLibrary w walk passes airings tunerCount from to recs seen skips =
     resolvePriority w walk (noteRunning w recs (ApplyLibrary w (match w passes airings from to) passes recs seen skips)) tunerCount"

text \<open>The exchange sort of \<^verbatim>\<open>KeepVictims\<close>: the inner loop brings the newest of the rest to the front.\<close>

fun newestFirst :: "Recording \<Rightarrow> Recording list \<Rightarrow> Recording \<times> Recording list" where
  "newestFirst x [] = (x, [])"
| "newestFirst x (y # ys) =
     (if r_StartedAt y > r_StartedAt x
      then let (m, rest) = newestFirst y ys in (m, x # rest)
      else let (m, rest) = newestFirst x ys in (m, y # rest))"

lemma newestFirst_length: "length (snd (newestFirst x ys)) = length ys"
  by (induction x ys rule: newestFirst.induct) (auto simp: Let_def split: prod.splits)

function exchangeSort :: "Recording list \<Rightarrow> Recording list" where
  "exchangeSort [] = []"
| "exchangeSort (x # ys) = fst (newestFirst x ys) # exchangeSort (snd (newestFirst x ys))"
  by pat_completeness auto
termination
  by (relation "measure length") (auto simp: newestFirst_length)

definition keepMine :: "world \<Rightarrow> Pass \<Rightarrow> Recording list \<Rightarrow> Recording list" where
  "keepMine w pass recs =
     filter (\<lambda>rec. \<not> (r_Keep rec \<or> r_Status rec = ''recording'' \<or> Incomplete rec \<or> \<not> sameShow w pass rec)) recs"

definition KeepVictims :: "world \<Rightarrow> Pass \<Rightarrow> Recording list \<Rightarrow> int list" where
  "KeepVictims w pass recs =
     (let mine = keepMine w pass recs;
          mode = ToLower w (trim_space (p_KeepMode pass))
      in if mode = ''unwatched'' then map r_ID (filter Played mine)
         else if mode = ''last'' then
           let n = (if p_KeepCount pass < 1 then 1 else nat (p_KeepCount pass))
           in if length mine \<le> n then [] else map r_ID (drop n (exchangeSort mine))
         else [])"

end
