(* ===== verification/DvrConflict.thy ===== *)
theory DvrConflict
  imports Dvr
begin

text \<open>
  Tuner conflicts, from \<^verbatim>\<open>server/internal/dvr/conflict.go\<close>: whether a set of spans fits the tuners, which
  later airing of a skipped show does, how a viewer's fix is carried out, and the warning
  before a live tune loses its tuner to a recording.
\<close>

subsection \<open>Spans\<close>

record tspan =
  sp_start :: gotime
  sp_end :: gotime
  sp_channel :: int

record sevent = event +
  e_channel :: int

definition spanEvents :: "tspan list \<Rightarrow> sevent list" where
  "spanEvents spans = stable_sort evBefore (concat (map (\<lambda>i.
     let sp = spans ! i in
     if \<not> sp_end sp > sp_start sp then []
     else [\<lparr>e_at = sp_start sp, e_index = i, e_start = True, e_channel = sp_channel sp\<rparr>,
           \<lparr>e_at = sp_end sp, e_index = i, e_start = False, e_channel = sp_channel sp\<rparr>]) [0..<length spans]))"

fun sweep :: "nat \<Rightarrow> active \<Rightarrow> sevent list \<Rightarrow> bool" where
  "sweep n act [] = False"
| "sweep n act (ev # evs) =
     (if \<not> e_start ev then sweep n (act_delete (e_index ev) act) evs
      else
        let act1 = act_put (e_index ev) (e_channel ev) act
        in if uniqueChannels act1 > n then True else sweep n act1 evs)"

definition overflows :: "tspan list \<Rightarrow> int \<Rightarrow> bool" where
  "overflows spans tunerCount = sweep (atLeastOne tunerCount) [] (spanEvents spans)"

definition sameShowing :: "Airing \<Rightarrow> Airing \<Rightarrow> bool" where
  "sameShowing a b \<longleftrightarrow>
     (if a_ID a > 0 \<and> a_ID a = a_ID b then True
      else a_ChannelID a = a_ChannelID b \<and> a_Start a \<noteq> 0 \<and> a_Start a = a_Start b)"

definition spanOf :: "world \<Rightarrow> Planned \<Rightarrow> tspan" where
  "spanOf w it = (let (start, stop) = tunerSpan w it in \<lparr>sp_start = start, sp_end = stop, sp_channel = a_ChannelID (AiringOf it)\<rparr>)"

definition fitsBeside :: "world \<Rightarrow> Planned list \<Rightarrow> Planned \<Rightarrow> int \<Rightarrow> bool" where
  "fitsBeside w items cand tunerCount \<longleftrightarrow>
     (if list_ex (\<lambda>it. \<not> Skipped it \<and> sameShowing (AiringOf it) (AiringOf cand)) items then True
      else \<not> overflows (map (spanOf w) (filter (\<lambda>it. \<not> (Skipped it \<or> sameShowing (AiringOf it) (AiringOf cand))) items)
             @ [spanOf w cand]) tunerCount)"

subsection \<open>Suggestions\<close>

definition rulesMatch :: "world \<Rightarrow> Pass \<Rightarrow> Airing \<Rightarrow> bool" where
  "rulesMatch w pass air = passMatches w (pass\<lparr>p_ChannelID := 0\<rparr>) air"

definition librarySkip :: "Planned list \<Rightarrow> Airing \<Rightarrow> bool" where
  "librarySkip items air \<longleftrightarrow> list_ex (\<lambda>it. sameShowing (AiringOf it) air \<and> Skipped it \<and> \<not> Conflict it) items"

definition probe :: "Planned \<Rightarrow> Airing \<Rightarrow> Planned" where
  "probe skipped air = \<lparr>PassID = 0, AiringOf = air, Priority = 0, PadBefore = PadBefore skipped, PadAfter = PadAfter skipped,
     Conflict = False, Skipped = False, Reason = [], SuggestionOf = None, Manual = False, runsUntil = 0\<rparr>"

definition laterOk :: "world \<Rightarrow> Planned list \<Rightarrow> Planned \<Rightarrow> Pass \<Rightarrow> int \<Rightarrow> gotime \<Rightarrow> gotime \<Rightarrow> Airing \<Rightarrow> bool" where
  "laterOk w items skipped pass tunerCount from to air \<longleftrightarrow>
     (if \<not> a_End air > from \<or> \<not> a_Start air < to then False
      else if trim_space (a_Title air) = [] \<or> sameShowing air (AiringOf skipped) then False
      else if \<not> a_Start air > a_Start (AiringOf skipped) \<or>
              \<not> EqualFold w (trim_space (a_Title air)) (trim_space (a_Title (AiringOf skipped))) then False
      else \<not> (\<not> rulesMatch w pass air \<or> librarySkip items air \<or> \<not> fitsBeside w items (probe skipped air) tunerCount))"

definition laterStep :: "world \<Rightarrow> Planned list \<Rightarrow> Planned \<Rightarrow> Pass \<Rightarrow> int \<Rightarrow> gotime \<Rightarrow> gotime \<Rightarrow> Airing option \<Rightarrow> Airing \<Rightarrow> Airing option" where
  "laterStep w items skipped pass tunerCount from to best air =
     (if \<not> laterOk w items skipped pass tunerCount from to air then best
      else
        (case best of
           None \<Rightarrow> Some air
         | Some b \<Rightarrow>
             if a_Start air < a_Start b \<or> (a_Start air = a_Start b \<and> a_ChannelID air < a_ChannelID b) then Some air else Some b))"

definition laterAiring :: "world \<Rightarrow> Planned list \<Rightarrow> Planned \<Rightarrow> Pass \<Rightarrow> Airing list \<Rightarrow> int \<Rightarrow> gotime \<Rightarrow> gotime \<Rightarrow> (int \<rightharpoonup> string) \<Rightarrow> Suggestion option" where
  "laterAiring w items skipped pass airings tunerCount from to guides =
     map_option (\<lambda>best. \<lparr>s_ChannelID = a_ChannelID best,
         s_GuideNumber = (case guides (a_ChannelID best) of Some g \<Rightarrow> g | None \<Rightarrow> []),
         s_Title = a_Title best, s_Start = a_Start best, s_End = a_End best\<rparr>)
       (foldl (laterStep w items skipped pass tunerCount from to) None airings)"

definition attachAt :: "world \<Rightarrow> Pass list \<Rightarrow> Airing list \<Rightarrow> int \<Rightarrow> gotime \<Rightarrow> gotime \<Rightarrow> (int \<rightharpoonup> string) \<Rightarrow> Planned list \<Rightarrow> nat \<Rightarrow> Planned list" where
  "attachAt w passes airings tunerCount from to guides items i =
     (if \<not> Skipped (items ! i) \<or> \<not> Conflict (items ! i) then items
      else
        (case passByID passes (PassID (items ! i)) of
           None \<Rightarrow> items
         | Some pass \<Rightarrow>
             (case laterAiring w items (items ! i) pass airings tunerCount from to guides of
                None \<Rightarrow> items
              | Some alt \<Rightarrow> items[i := (items ! i)\<lparr>SuggestionOf := Some alt\<rparr>])))"

definition AttachSuggestions :: "world \<Rightarrow> Planned list \<Rightarrow> Pass list \<Rightarrow> Airing list \<Rightarrow> int \<Rightarrow> gotime \<Rightarrow> gotime \<Rightarrow> (int \<rightharpoonup> string) \<Rightarrow> Planned list" where
  "AttachSuggestions w items passes airings tunerCount0 from to guides =
     (let tunerCount = (if tunerCount0 < 1 then 1 else tunerCount0)
      in foldl (attachAt w passes airings tunerCount from to guides) items [0..<length items])"

subsection \<open>Fixes\<close>

record FixPlan =
  f_Skip :: Airing
  f_SetChannel :: int
  f_OneShot :: "Pass option"

definition channelAdjust :: "world \<Rightarrow> Pass \<Rightarrow> Airing \<Rightarrow> bool" where
  "channelAdjust w pass sug \<longleftrightarrow>
     (if p_ChannelID pass = 0 \<or> a_ChannelID sug = 0 \<or> a_ChannelID sug = p_ChannelID pass then False
      else
        let kind = ToLower w (trim_space (p_MatchKind pass)) in
        if kind = ''team'' \<or> EqualFold w (p_Kind pass) ''team'' \<or> (kind \<noteq> [] \<and> kind \<noteq> ''title'') then False
        else passMatches w (pass\<lparr>p_ChannelID := 0\<rparr>) sug)"

definition oneShotPass :: "Pass \<Rightarrow> Airing \<Rightarrow> Pass" where
  "oneShotPass pass sug = noPass\<lparr>p_Kind := ''once'', p_Title := trim_space (a_Title sug), p_ChannelID := a_ChannelID sug,
     p_AiringStart := a_Start sug, p_Priority := p_Priority pass, p_PadBefore := p_PadBefore pass, p_PadAfter := p_PadAfter pass,
     p_Commercials := p_Commercials pass\<rparr>"

definition PlanFix :: "world \<Rightarrow> Pass \<Rightarrow> Airing \<Rightarrow> Airing \<Rightarrow> FixPlan" where
  "PlanFix w pass skipped sug =
     (if passMatches w pass sug then \<lparr>f_Skip = skipped, f_SetChannel = 0, f_OneShot = None\<rparr>
      else if channelAdjust w pass sug then \<lparr>f_Skip = skipped, f_SetChannel = a_ChannelID sug, f_OneShot = None\<rparr>
      else \<lparr>f_Skip = skipped, f_SetChannel = 0, f_OneShot = Some (oneShotPass pass sug)\<rparr>)"

definition HaveOneShot :: "world \<Rightarrow> Pass list \<Rightarrow> Airing \<Rightarrow> bool" where
  "HaveOneShot w passes sug \<longleftrightarrow> list_ex (\<lambda>p. p_Kind p = ''once'' \<and> passMatches w p sug) passes"

subsection \<open>Live tunes\<close>

record Soon =
  o_Title :: string
  o_ChannelID :: int
  o_Start :: gotime
  o_Pad :: duration

definition inPad :: "Soon \<Rightarrow> gotime \<Rightarrow> bool" where
  "inPad it now \<longleftrightarrow>
     (if o_Start it = 0 \<or> \<not> now < o_Start it then False
      else
        let pad = (if o_Pad it < recordLead then recordLead else o_Pad it)
        in \<not> now < o_Start it - pad)"

text \<open>A recording whose channel is not known takes a tuner of its own, under a number below zero.\<close>

fun dueIDs :: "int \<Rightarrow> Soon list \<Rightarrow> int list" where
  "dueIDs anon [] = []"
| "dueIDs anon (it # its) =
     (if o_ChannelID it = 0 then (anon - 1) # dueIDs (anon - 1) its else o_ChannelID it # dueIDs anon its)"

definition dueTuners :: "Soon list \<Rightarrow> int" where
  "dueTuners due = int (length (remdups (dueIDs 0 due)))"

text \<open>\<^verbatim>\<open>Format("3:04 PM")\<close>.\<close>

definition kitchen :: "world \<Rightarrow> gotime \<Rightarrow> string" where
  "kitchen w t =
     (let h = Hour_of w t; m = Minute_of w t; k = (if h mod 12 = 0 then 12 else h mod 12)
      in FormatInt k @ '':'' @ pad2 m @ (if h < 12 then '' AM'' else '' PM''))"

definition liveWarningText :: "world \<Rightarrow> Soon \<Rightarrow> int \<Rightarrow> string" where
  "liveWarningText w soon needed =
     (let title = (if trim_space (o_Title soon) = [] then ''A recording'' else trim_space (o_Title soon));
          when = kitchen w (o_Start soon)
      in title @ '' starts at '' @ when @
         (if needed > 1 then ''. Watching stops when '' @ FormatInt needed @ '' recordings start.''
          else ''. Watching stops when that recording starts.''))"

definition soonest :: "Soon \<Rightarrow> Soon list \<Rightarrow> Soon" where
  "soonest first rest = foldl (\<lambda>soon it. if o_Start it < o_Start soon then it else soon) first rest"

definition LiveWatch :: "world \<Rightarrow> int \<Rightarrow> int \<Rightarrow> Soon list \<Rightarrow> gotime \<Rightarrow> bool \<times> string" where
  "LiveWatch w tunerCount0 busyOthers0 upcoming now =
     (let tunerCount = (if tunerCount0 < 1 then 1 else tunerCount0);
          busyOthers = (if busyOthers0 < 0 then 0 else busyOthers0);
          due = filter (\<lambda>it. inPad it now) upcoming;
          needed = dueTuners due
      in if needed = 0 \<or> tunerCount - busyOthers - 1 \<ge> needed then (True, [])
         else
           (case due of
              [] \<Rightarrow> (True, [])
            | first # rest \<Rightarrow> (False, liveWarningText w (soonest first rest) needed)))"

end
