(* ===== verification/DvrProps.thy ===== *)
theory DvrProps
  imports DvrConflict
begin

text \<open>
  What the planner promises: it never books more channels at once than there are tuners, skips
  only when it must, never skips the best claim, and its test for room is exact.
  Both go through one sweep over sorted start and end events.
\<close>

subsection \<open>Sweeping sorted events\<close>

interpretation evs: key_comparator evBefore "\<lambda>e. (e_at e, e_start e)"
  by unfold_locales (auto simp: evBefore_def)

interpretation starts: key_comparator byStart "\<lambda>it. (a_Start (AiringOf it), a_ID (AiringOf it))"
  by unfold_locales (auto simp: byStart_def)

definition evidx :: "bool \<Rightarrow> 'a event_scheme list \<Rightarrow> nat set" where
  "evidx b P = {i. \<exists>e \<in> set P. e_index e = i \<and> e_start e = b}"

lemma evidx_simps [simp]:
  "evidx b [] = {}" "evidx b (e # P) = (if e_start e = b then {e_index e} else {}) \<union> evidx b P" "evidx b (P @ Q) = evidx b P \<union> evidx b Q"
  by (auto simp: evidx_def)

text \<open>Events of spans \<open>st i\<close> to \<open>en i\<close>, for \<open>i\<close> in \<open>I\<close>, in the order of the sweep.\<close>

locale sweeping =
  fixes E :: "'a event_scheme list" and I :: "nat set" and st en :: "nat \<Rightarrow> gotime"
  assumes in_order: "sorted (map (\<lambda>e. (e_at e, e_start e)) E)"
    and event: "e \<in> set E \<Longrightarrow> e_index e \<in> I \<and> e_at e = (if e_start e then st (e_index e) else en (e_index e))"
    and events: "i \<in> I \<Longrightarrow> i \<in> evidx b E"
begin

lemma cut: "\<exists>P Q. E = P @ Q \<and> (\<forall>i \<in> I. (i \<in> evidx True P \<longleftrightarrow> st i \<le> t) \<and> (i \<in> evidx False P \<longleftrightarrow> en i \<le> t))"
proof -
  define P Q where "P = takeWhile (\<lambda>e. e_at e \<le> t) E" and "Q = dropWhile (\<lambda>e. e_at e \<le> t) E"
  have E: "E = P @ Q" by (simp add: P_def Q_def)
  have before: "e_at e \<le> t" if "e \<in> set P" for e using that by (auto simp: P_def dest: set_takeWhileD)
  have after: "t < e_at e" if "e \<in> set Q" for e
  proof (cases Q)
    case (Cons q Q')
    then have "\<not> e_at q \<le> t" using hd_dropWhile [of "\<lambda>e. e_at e \<le> t" E] by (simp add: Q_def)
    moreover have "e_at q \<le> e_at e" using in_order that Cons by (auto simp: E sorted_append)
    ultimately show ?thesis by simp
  qed (use that in simp)
  have "i \<in> evidx b P \<longleftrightarrow> (if b then st i else en i) \<le> t" if I: "i \<in> I" for i b
  proof
    assume "i \<in> evidx b P"
    then obtain e where "e \<in> set P" "e_index e = i" "e_start e = b" by (auto simp: evidx_def)
    with before [of e] event [of e] show "(if b then st i else en i) \<le> t" by (auto simp: E)
  next
    assume le: "(if b then st i else en i) \<le> t"
    obtain e where e: "e \<in> set E" "e_index e = i" "e_start e = b" using events [OF I] by (auto simp: evidx_def)
    then have "e \<notin> set Q" using le event [of e] after by fastforce
    with e show "i \<in> evidx b P" by (auto simp: E evidx_def)
  qed
  from this [of _ True] this [of _ False] E show ?thesis by (intro exI [of _ P] exI [of _ Q]) auto
qed

text \<open>Spans that have started and not ended when a start event comes up are on at its time.\<close>

lemma on_at_start:
  assumes E: "E = P @ e # Q" and e: "e_start e" and i: "i \<in> insert (e_index e) (evidx True P)" "i \<notin> evidx False P" "st i < en i"
  shows "st i \<le> e_at e \<and> e_at e < en i"
proof
  obtain g where g: "g \<in> insert e (set P)" "e_index g = i" "e_start g"
    using i(1) e by (auto simp: evidx_def)
  have "g \<in> set E" using g(1) by (auto simp: E)
  with event g have I: "i \<in> I" and st: "e_at g = st i" by auto
  have "e_at g \<le> e_at e" using g(1) in_order by (fastforce simp: E sorted_append)
  with st show "st i \<le> e_at e" by simp
  show "e_at e < en i"
  proof (rule ccontr)
    assume late: "\<not> e_at e < en i"
    obtain f where f: "f \<in> set E" "e_index f = i" "\<not> e_start f" using events [OF I, of False] by (auto simp: evidx_def)
    then have "e_at f = en i" "f \<noteq> e" using event [of f] e by auto
    moreover have "f \<notin> set P" using f i(2) by (auto simp: evidx_def)
    then have "f \<in> set Q" using f(1) e \<open>f \<noteq> e\<close> by (simp add: E)
    then have "(e_at e, e_start e) \<le> (e_at f, e_start f)" using in_order by (auto simp: E sorted_append)
    ultimately show False using late e f(3) by (auto simp: less_eq_prod_def)
  qed
qed

lemma not_ended:
  assumes E: "E = P @ e # Q" and e: "e_start e" and i: "st (e_index e) < en (e_index e)"
  shows "e_index e \<notin> evidx False P"
proof
  assume "e_index e \<in> evidx False P"
  then obtain f where f: "f \<in> set P" "e_index f = e_index e" "\<not> e_start f" by (auto simp: evidx_def)
  have "e_at f \<le> e_at e" using in_order f by (fastforce simp: E sorted_append)
  moreover have "e_at f = en (e_index e)" "e_at e = st (e_index e)" using event [of f] event [of e] f e by (auto simp: E)
  ultimately show False using i by simp
qed

end

definition spanStart :: "world \<Rightarrow> Planned list \<Rightarrow> nat \<Rightarrow> gotime" where
  "spanStart w items i = fst (tunerSpan w (items ! i))"

definition spanStop :: "world \<Rightarrow> Planned list \<Rightarrow> nat \<Rightarrow> gotime" where
  "spanStop w items i = snd (tunerSpan w (items ! i))"

lemma planEvents_set:
  "set (planEvents w items) = (\<Union>i < length items. {\<lparr>e_at = spanStart w items i, e_index = i, e_start = True\<rparr>,
     \<lparr>e_at = spanStop w items i, e_index = i, e_start = False\<rparr>})"
  by (simp add: planEvents_def spanStart_def spanStop_def case_prod_unfold atLeast0LessThan Let_def)

interpretation pe: sweeping "planEvents w items" "{..<length items}" "spanStart w items" "spanStop w items" for w items
proof
  show "sorted (map (\<lambda>e. (e_at e, e_start e)) (planEvents w items))"
    unfolding planEvents_def by (rule evs.stable_sort_keys)
qed (auto simp: planEvents_set evidx_def)

interpretation se: sweeping "spanEvents spans" "{i. i < length spans \<and> sp_start (spans ! i) < sp_end (spans ! i)}"
  "\<lambda>i. sp_start (spans ! i)" "\<lambda>i. sp_end (spans ! i)" for spans
proof
  show "sorted (map (\<lambda>e. (e_at e, e_start e)) (spanEvents spans))"
    unfolding spanEvents_def by (rule evs.stable_sort_keys)
qed (auto simp: spanEvents_def evidx_def Let_def split: if_splits)


lemma spanEvents_channel: "e \<in> set (spanEvents spans) \<Longrightarrow> e_channel e = sp_channel (spans ! e_index e)"
  by (auto simp: spanEvents_def Let_def split: if_splits)

subsection \<open>The entries of the sweep\<close>

lemma uniqueChannels_card: "uniqueChannels act = card (snd ` set act)"
  by (simp add: uniqueChannels_def length_remdups_card_conv)

lemma act_simps [simp]:
  "set (act_delete i act) = {e \<in> set act. fst e \<noteq> i}"
  "set (act_put i c act) = insert (i, c) {e \<in> set act. fst e \<noteq> i}"
  by (auto simp: act_delete_def act_put_def)

definition flagged :: "Planned \<Rightarrow> Planned \<Rightarrow> bool" where
  "flagged x y \<longleftrightarrow> y = x \<or> y = x\<lparr>Skipped := True, Conflict := True\<rparr>"

lemma flagged_fields:
  "flagged x y \<Longrightarrow> AiringOf y = AiringOf x \<and> Priority y = Priority x \<and> tunerSpan w y = tunerSpan w x \<and> losesTo y = losesTo x"
  by (auto simp: flagged_def tunerSpan_def losesTo_def fun_eq_iff Let_def)

lemma flagged_trans: "flagged x y \<Longrightarrow> flagged y z \<Longrightarrow> flagged x z"
  by (auto simp: flagged_def)

lemma lowest_step:
  "\<exists>l. foldl (\<lambda>loser evidx. case loser of None \<Rightarrow> Some evidx
        | Some l \<Rightarrow> if losesTo (items ! evidx) (items ! l) then Some evidx else Some l) (Some k) xs = Some l \<and> l \<in> insert k (set xs)"
  by (induction xs arbitrary: k) auto

lemma lowestPriority_in:
  assumes walk: "\<And>xs. set (walk xs) = set xs" and act: "act \<noteq> []"
  obtains l where "lowestPriority walk items act = Some l" "l \<in> fst ` set act"
proof -
  obtain k ks where w: "walk (map fst act) = k # ks"
    using walk [of "map fst act"] act by (cases "walk (map fst act)") auto
  have "set (k # ks) = fst ` set act" using walk [of "map fst act"] w by simp
  moreover obtain l where "foldl (\<lambda>loser evidx. case loser of None \<Rightarrow> Some evidx
      | Some l \<Rightarrow> if losesTo (items ! evidx) (items ! l) then Some evidx else Some l) (Some k) ks = Some l" "l \<in> insert k (set ks)"
    using lowest_step [of items k ks] by blast
  ultimately show thesis using that [of l] w by (simp add: lowestPriority_def)
qed

lemma evict_ok:
  assumes walk: "\<And>xs. set (walk xs) = set xs"
    and "length act \<le> fuel" "\<forall>e \<in> set act. fst e < length items" "evict walk n fuel (items, act) = (items', act')"
  shows "uniqueChannels act' \<le> n \<and> set act' \<subseteq> set act \<and> length items' = length items \<and>
    (\<forall>i < length items. flagged (items ! i) (items' ! i)) \<and>
    (\<forall>e \<in> set act. \<not> Skipped (items' ! fst e) \<longrightarrow> e \<in> set act')"
  using assms(2-)
proof (induction fuel arbitrary: items act)
  case 0
  then show ?case by (auto simp: uniqueChannels_def flagged_def)
next
  case (Suc fuel)
  show ?case
  proof (cases "uniqueChannels act > n \<and> act \<noteq> []")
    case False
    then have "uniqueChannels act \<le> n" by (cases "act = []") (auto simp: uniqueChannels_def)
    with False Suc.prems show ?thesis by (auto simp: flagged_def)
  next
    case True
    then obtain l where l: "lowestPriority walk items act = Some l" "l \<in> fst ` set act"
      using lowestPriority_in [OF walk] by blast
    let ?items = "items[l := (items ! l)\<lparr>Skipped := True, Conflict := True\<rparr>]"
    have len: "l < length items" using l(2) Suc.prems(2) by auto
    obtain c where "(l, c) \<in> set act" using l(2) by auto
    then have "length (act_delete l act) < length act"
      unfolding act_delete_def by (intro length_filter_less [of "(l, c)"]) auto
    then have "length (act_delete l act) \<le> fuel" using Suc.prems(1) by simp
    moreover have "evict walk n fuel (?items, act_delete l act) = (items', act')"
      using Suc.prems(3) True l(1) by simp
    ultimately have ih: "uniqueChannels act' \<le> n \<and> set act' \<subseteq> set (act_delete l act) \<and> length items' = length ?items \<and>
        (\<forall>i < length ?items. flagged (?items ! i) (items' ! i)) \<and>
        (\<forall>e \<in> set (act_delete l act). \<not> Skipped (items' ! fst e) \<longrightarrow> e \<in> set act')"
      using Suc.prems(2) by (intro Suc.IH) auto
    then have gone: "Skipped (items' ! l)" using len by (auto simp: flagged_def)
    have "e \<in> set act'" if "e \<in> set act" "\<not> Skipped (items' ! fst e)" for e
      using ih gone that by (cases e; cases "fst e = l") auto
    moreover have "flagged (items ! i) (items' ! i)" if "i < length items" for i
      using ih that len by (cases "i = l") (auto simp: flagged_def)
    ultimately show ?thesis using ih by auto
  qed
qed

subsection \<open>The plan fits the tuners\<close>

definition plan_inv :: "nat \<Rightarrow> Planned list \<Rightarrow> event list \<Rightarrow> Planned list \<times> active \<Rightarrow> bool" where
  "plan_inv n items0 P s \<longleftrightarrow> (let (items, act) = s in
     length items = length items0 \<and> (\<forall>i < length items0. flagged (items0 ! i) (items ! i)) \<and>
     (\<forall>e \<in> set act. fst e < length items0 \<and> snd e = a_ChannelID (AiringOf (items0 ! fst e))) \<and>
     uniqueChannels act \<le> n \<and>
     (\<forall>i < length items0. \<not> Skipped (items ! i) \<and> i \<in> evidx True P \<and> i \<notin> evidx False P \<longrightarrow> i \<in> fst ` set act))"

lemma card_snd_filter: "uniqueChannels (act_delete i act) \<le> uniqueChannels act"
  unfolding uniqueChannels_card by (rule card_mono) auto

lemma planStep_inv:
  assumes walk: "\<And>xs. set (walk xs) = set xs" and inv: "plan_inv n items0 P s" and ev: "e_index ev < length items0"
  shows "plan_inv n items0 (P @ [ev]) (planStep walk n s ev)"
proof -
  obtain items act where s: "s = (items, act)" by fastforce
  show ?thesis
  proof (cases "e_start ev")
    case False
    with inv show ?thesis
      using card_snd_filter [of "e_index ev" act] by (fastforce simp: s plan_inv_def planStep_def)
  next
    case start: True
    show ?thesis
    proof (cases "Skipped (items ! e_index ev)")
      case True
      with inv start show ?thesis by (auto simp: s plan_inv_def planStep_def)
    next
      case False
      define act1 where "act1 = act_put (e_index ev) (a_ChannelID (AiringOf (items ! e_index ev))) act"
      obtain items' act' where e: "evict walk n (length act1) (items, act1) = (items', act')" by fastforce
      have step: "planStep walk n s ev = (items', act')" using start False e by (simp add: s planStep_def act1_def)
      have chan: "a_ChannelID (AiringOf (items ! e_index ev)) = a_ChannelID (AiringOf (items0 ! e_index ev))"
        using inv ev flagged_fields by (fastforce simp: s plan_inv_def)
      have act1: "\<forall>e \<in> set act1. fst e < length items0 \<and> snd e = a_ChannelID (AiringOf (items0 ! fst e))"
        using inv ev chan by (auto simp: s plan_inv_def act1_def)
      have len: "length items = length items0" using inv by (simp add: s plan_inv_def)
      have ok: "uniqueChannels act' \<le> n \<and> set act' \<subseteq> set act1 \<and> length items' = length items \<and>
          (\<forall>i < length items. flagged (items ! i) (items' ! i)) \<and>
          (\<forall>e \<in> set act1. \<not> Skipped (items' ! fst e) \<longrightarrow> e \<in> set act')"
        by (rule evict_ok [OF walk _ _ e]) (use act1 len in auto)
      have flags: "flagged (items0 ! i) (items' ! i)" if "i < length items0" for i
        using inv ok that flagged_trans [of "items0 ! i" "items ! i" "items' ! i"] by (auto simp: s plan_inv_def)
      have "i \<in> fst ` set act'" if "i < length items0" "\<not> Skipped (items' ! i)" "i \<in> evidx True (P @ [ev])" "i \<notin> evidx False (P @ [ev])" for i
      proof -
        have "\<not> Skipped (items ! i)" using that(1,2) ok len by (auto simp: flagged_def)
        then have "i \<in> fst ` set act1"
          using that inv start by (fastforce simp: s plan_inv_def act1_def)
        with that(2) ok show ?thesis by force
      qed
      with ok act1 flags len show ?thesis unfolding step by (auto simp: plan_inv_def)
    qed
  qed
qed

lemma plan_run_inv:
  assumes walk: "\<And>xs. set (walk xs) = set xs" and P: "\<forall>e \<in> set P. e_index e < length items"
  shows "plan_inv n items P (foldl (planStep walk n) (items, []) P)"
  using P
proof (induction P rule: rev_induct)
  case Nil
  then show ?case by (simp add: plan_inv_def flagged_def uniqueChannels_def)
next
  case (snoc ev P)
  then show ?case by (simp add: planStep_inv [OF walk])
qed

lemma planStep_flagged:
  assumes walk: "\<And>xs. set (walk xs) = set xs" and inv: "plan_inv n items0 P (items, act)"
    and Q: "\<forall>e \<in> set Q. e_index e < length items0" and i: "i < length items0"
    and skipped: "Skipped (items ! i)"
  shows "Skipped (fst (foldl (planStep walk n) (items, act) Q) ! i)"
  using inv Q skipped
proof (induction Q arbitrary: P items act)
  case (Cons ev Q)
  obtain items' act' where step: "planStep walk n (items, act) ev = (items', act')" by fastforce
  have inv': "plan_inv n items0 (P @ [ev]) (items', act')"
    using planStep_inv [OF walk Cons.prems(1), of ev] Cons.prems(2) step by simp
  have len: "length items = length items0" using Cons.prems(1) by (simp add: plan_inv_def)
  have "Skipped (items' ! i)"
  proof (cases "e_start ev \<and> \<not> Skipped (items ! e_index ev)")
    case False
    then have "items' = items" using step by (auto simp: planStep_def split: if_splits)
    with Cons.prems(3) show ?thesis by simp
  next
    case True
    let ?act1 = "act_put (e_index ev) (a_ChannelID (AiringOf (items ! e_index ev))) act"
    have "evict walk n (length ?act1) (items, ?act1) = (items', act')" using True step by (simp add: planStep_def Let_def)
    from evict_ok [OF walk _ _ this] have "flagged (items ! i) (items' ! i)"
      using Cons.prems(1,2) len i by (fastforce simp: plan_inv_def)
    with Cons.prems(3) show ?thesis by (auto simp: flagged_def)
  qed
  with Cons.IH [OF inv'] Cons.prems(2) step show ?case by simp
qed simp


text \<open>The channels that kept items hold at an instant.\<close>

definition booked :: "world \<Rightarrow> Planned list \<Rightarrow> gotime \<Rightarrow> int set" where
  "booked w items t = (\<lambda>it. a_ChannelID (AiringOf it)) `
     {it \<in> set items. \<not> Skipped it \<and> fst (tunerSpan w it) \<le> t \<and> t < snd (tunerSpan w it)}"

text \<open>
  C22. However the map of active airings is walked, the plan never books more channels at one
  instant than there are tuners (one when none is known), padding, sports tails and
  recordings that run long included. Planning changes nothing of an airing but to mark it
  skipped for a conflict.
\<close>

theorem plan_fits_tuners:
  assumes walk: "\<And>xs. set (walk xs) = set xs" and out: "out = resolvePriority w walk items tuners"
  shows "card (booked w out t) \<le> nat (max 1 tuners) \<and> length out = length items \<and>
    (\<forall>i < length items. out ! i = items ! i \<or> out ! i = (items ! i)\<lparr>Skipped := True, Conflict := True\<rparr>)"
proof -
  define n where "n = atLeastOne tuners"
  have n: "n = nat (max 1 tuners)" by (simp add: n_def atLeastOne_def)
  obtain P Q where E: "planEvents w items = P @ Q"
    and P: "\<And>i. i < length items \<Longrightarrow> (i \<in> evidx True P \<longleftrightarrow> spanStart w items i \<le> t) \<and> (i \<in> evidx False P \<longleftrightarrow> spanStop w items i \<le> t)"
    using pe.cut [of w items t] by auto
  have PQ: "\<forall>e \<in> set P. e_index e < length items" "\<forall>e \<in> set Q. e_index e < length items"
    using pe.event [of _ w items] by (auto simp: E)
  obtain items1 act1 where mid: "foldl (planStep walk n) (items, []) P = (items1, act1)" by fastforce
  have inv: "plan_inv n items P (items1, act1)" using plan_run_inv [OF walk PQ(1), of n] mid by simp
  have out': "out = fst (foldl (planStep walk n) (items1, act1) Q)"
    by (simp add: out resolvePriority_def n_def [symmetric] E mid)
  have fin: "plan_inv n items (P @ Q) (foldl (planStep walk n) (items, []) (P @ Q))"
    using plan_run_inv [OF walk, of "P @ Q" items n] PQ by auto
  then have flags: "length out = length items" "\<forall>i < length items. flagged (items ! i) (out ! i)"
    by (auto simp: plan_inv_def out' mid split: prod.splits)
  have "booked w out t \<subseteq> snd ` set act1"
  proof
    fix c assume "c \<in> booked w out t"
    then obtain i where i: "i < length items" "\<not> Skipped (out ! i)" "c = a_ChannelID (AiringOf (out ! i))"
      "fst (tunerSpan w (out ! i)) \<le> t" "t < snd (tunerSpan w (out ! i))"
      using flags(1) by (auto simp: booked_def in_set_conv_nth)
    have same: "AiringOf (out ! i) = AiringOf (items ! i)" "tunerSpan w (out ! i) = tunerSpan w (items ! i)"
      using flags(2) i(1) flagged_fields by fastforce+
    have "\<not> Skipped (items1 ! i)"
      using planStep_flagged [OF walk inv PQ(2) i(1)] i(2) out' by blast
    moreover have "i \<in> evidx True P" "i \<notin> evidx False P"
      using P [OF i(1)] i(4,5) same(2) by (auto simp: spanStart_def spanStop_def)
    ultimately obtain c' where "(i, c') \<in> set act1" using inv i(1) by (auto simp: plan_inv_def)
    moreover from this have "c' = c" using inv i(3) same(1) by (fastforce simp: plan_inv_def)
    ultimately show "c \<in> snd ` set act1" by force
  qed
  then have "card (booked w out t) \<le> uniqueChannels act1" unfolding uniqueChannels_card by (intro card_mono) auto
  also have "\<dots> \<le> n" using inv by (simp add: plan_inv_def)
  finally show ?thesis using flags n by (auto simp: flagged_def)
qed


text \<open>Two games that overlap on two channels, and one tuner.\<close>

definition demo_world :: world where
  "demo_world = \<lparr>uniLower = (\<lambda>r. r), uniFold = (\<lambda>a b. False), uniLetter = (\<lambda>r. False), uniDigit = (\<lambda>r. False), zone = (\<lambda>t. 0)\<rparr>"

definition demo_item :: "int \<Rightarrow> int \<Rightarrow> int \<Rightarrow> gotime \<Rightarrow> gotime \<Rightarrow> Planned" where
  "demo_item i ch pri start stop = planned (noPass\<lparr>p_Priority := pri\<rparr>) (noAiring\<lparr>a_ID := i, a_ChannelID := ch, a_Start := start, a_End := stop\<rparr>)"

definition demo_items :: "Planned list" where
  "demo_items = [demo_item 1 7 1 (10 * Hour) (12 * Hour), demo_item 2 9 2 (11 * Hour) (13 * Hour)]"

lemma demo_tail: "SportsTail demo_world (AiringOf (demo_item i ch pri start stop)) = 0"
  by (simp add: demo_item_def planned_def noAiring_def SportsTail_def sportsTail_def has_word_def ToLower_def runes_def)

lemma demo_span [simp]: "tunerSpan demo_world (demo_item i ch pri start stop) = (start, max 0 stop)"
  unfolding tunerSpan_def demo_tail by (simp add: demo_item_def planned_def noAiring_def noPass_def Let_def)

theorem plan_fits_tuners_witness:
  "card (booked demo_world (resolvePriority demo_world (\<lambda>xs. xs) demo_items 1) (11 * Hour)) \<le> 1"
  using plan_fits_tuners [of "\<lambda>xs. xs", OF refl refl, of demo_world demo_items 1 "11 * Hour"] by simp

subsection \<open>The test for room is exact\<close>

definition held_at :: "tspan list \<Rightarrow> gotime \<Rightarrow> int set" where
  "held_at spans t = sp_channel ` {sp \<in> set spans. sp_start sp \<le> t \<and> t < sp_end sp}"

lemma snd_image: "snd ` {(i, f i) | i. Q i} = {f i | i. Q i}"
  by force


text \<open>The entries of the sweep of \<^verbatim>\<open>overflows\<close> after a prefix of the events.\<close>

lemma sweep_prefix:
  assumes E: "spanEvents spans = P @ Q" and some: "sweep n act Q"
    and act: "set act = {(i, sp_channel (spans ! i)) | i. i \<in> evidx True P \<and> i \<notin> evidx False P}"
  shows "\<exists>t. n < card (held_at spans t)"
  using assms
proof (induction Q arbitrary: P act)
  case (Cons e Q)
  have e: "e_index e < length spans" "sp_start (spans ! e_index e) < sp_end (spans ! e_index e)"
    using se.event [of e spans] Cons.prems(1) by auto
  show ?case
  proof (cases "e_start e")
    case False
    have "set (act_delete (e_index e) act) = {(i, sp_channel (spans ! i)) | i. i \<in> evidx True (P @ [e]) \<and> i \<notin> evidx False (P @ [e])}"
      using Cons.prems(3) False by auto
    with Cons.IH [of "P @ [e]"] Cons.prems(1,2) False show ?thesis by simp
  next
    case True
    have ch: "e_channel e = sp_channel (spans ! e_index e)"
      using Cons.prems(1) spanEvents_channel [of e spans] by simp
    let ?act = "act_put (e_index e) (e_channel e) act"
    have act: "set ?act = {(i, sp_channel (spans ! i)) | i. i \<in> evidx True (P @ [e]) \<and> i \<notin> evidx False (P @ [e])}"
      using Cons.prems(3) True ch se.not_ended [OF Cons.prems(1) True e(2)] by auto
    show ?thesis
    proof (cases "uniqueChannels ?act > n")
      case False
      with Cons.IH [OF _ _ act] Cons.prems(1,2) True show ?thesis by (simp add: Let_def)
    next
      case over: True
      have "snd ` set ?act \<subseteq> held_at spans (e_at e)"
      proof
        fix c assume "c \<in> snd ` set ?act"
        then have "\<exists>i. i \<in> insert (e_index e) (evidx True P) \<and> i \<notin> evidx False P \<and> c = sp_channel (spans ! i)"
          unfolding act snd_image using True by auto
        then obtain i where i: "i \<in> insert (e_index e) (evidx True P)" "i \<notin> evidx False P" "c = sp_channel (spans ! i)"
          by blast
        have v: "i < length spans" "sp_start (spans ! i) < sp_end (spans ! i)"
          using i(1) e se.event [of _ spans] Cons.prems(1) by (auto simp: evidx_def)
        from se.on_at_start [OF Cons.prems(1) True i(1,2) v(2)] v(1) i(3)
        show "c \<in> held_at spans (e_at e)" by (auto simp: held_at_def)
      qed
      then have "uniqueChannels ?act \<le> card (held_at spans (e_at e))"
        unfolding uniqueChannels_card by (intro card_mono) (auto simp: held_at_def)
      with over show ?thesis by (meson le_trans not_le)
    qed
  qed
qed simp


lemma sweep_misses:
  assumes E: "spanEvents spans = P @ Q" and none: "\<not> sweep n act Q"
    and act: "set act = {(i, sp_channel (spans ! i)) | i. i \<in> evidx True P \<and> i \<notin> evidx False P}" and "uniqueChannels act \<le> n"
    and Q: "Q = R @ S"
  shows "card {sp_channel (spans ! i) | i. i \<in> evidx True (P @ R) \<and> i \<notin> evidx False (P @ R)} \<le> n"
  using assms
proof (induction R arbitrary: P act Q)
  case Nil
  have "{sp_channel (spans ! i) | i. i \<in> evidx True P \<and> i \<notin> evidx False P} = snd ` set act"
    unfolding Nil.prems(3) snd_image ..
  with Nil.prems(4) show ?case by (simp add: uniqueChannels_card)
next
  case (Cons e R)
  have E: "spanEvents spans = P @ e # R @ S" "spanEvents spans = (P @ [e]) @ (R @ S)" using Cons.prems(1,5) by auto
  have e: "sp_start (spans ! e_index e) < sp_end (spans ! e_index e)"
    using se.event [of e spans] E(1) by auto
  let ?act = "if e_start e then act_put (e_index e) (e_channel e) act else act_delete (e_index e) act"
  have "set ?act = {(i, sp_channel (spans ! i)) | i. i \<in> evidx True (P @ [e]) \<and> i \<notin> evidx False (P @ [e])}"
    using Cons.prems(3) spanEvents_channel [of e spans] se.not_ended [OF E(1) _ e] E(1) by auto
  moreover have "\<not> sweep n ?act (R @ S)" "uniqueChannels ?act \<le> n"
    using Cons.prems(2,4,5) card_snd_filter [of "e_index e" act] by (auto simp: Let_def split: if_splits)
  ultimately show ?case using Cons.IH [OF E(2), of ?act] by simp
qed

text \<open>
  C23. The test for room is exact: \<^verbatim>\<open>overflows\<close> answers yes when, and only when, at some instant more
  channels are held than there are tuners. Spans on one channel share a tuner, and a span
  that ends as another starts does not overlap it.
\<close>

theorem overflows_iff:
  "overflows spans tuners \<longleftrightarrow> (\<exists>t. nat (max 1 tuners) < card (held_at spans t))"
proof -
  define n where "n = atLeastOne tuners"
  have n: "n = nat (max 1 tuners)" by (simp add: n_def atLeastOne_def)
  have "\<exists>t. n < card (held_at spans t)" if "overflows spans tuners"
    by (rule sweep_prefix [of spans "[]" "spanEvents spans" n "[]"])
      (use that in \<open>simp_all add: overflows_def n_def\<close>)
  moreover have "card (held_at spans t) \<le> n" if "\<not> overflows spans tuners" for t
  proof -
    obtain P Q where E: "spanEvents spans = P @ Q"
      and P: "\<And>i. i < length spans \<Longrightarrow> sp_start (spans ! i) < sp_end (spans ! i) \<Longrightarrow>
        (i \<in> evidx True P \<longleftrightarrow> sp_start (spans ! i) \<le> t) \<and> (i \<in> evidx False P \<longleftrightarrow> sp_end (spans ! i) \<le> t)"
      using se.cut [of spans t] by auto
    have "card {sp_channel (spans ! i) | i. i \<in> evidx True ([] @ P) \<and> i \<notin> evidx False ([] @ P)} \<le> n"
      by (rule sweep_misses [of spans "[]" "spanEvents spans" n "[]" P Q])
        (use that E in \<open>simp_all add: overflows_def n_def uniqueChannels_def\<close>)
    moreover have "held_at spans t \<subseteq> {sp_channel (spans ! i) | i. i \<in> evidx True ([] @ P) \<and> i \<notin> evidx False ([] @ P)}"
      using P by (force simp: held_at_def in_set_conv_nth)
    moreover have "finite {sp_channel (spans ! i) | i. i \<in> evidx True ([] @ P) \<and> i \<notin> evidx False ([] @ P)}"
      by (rule finite_subset [of _ "(\<lambda>e. sp_channel (spans ! e_index e)) ` set P"]) (auto simp: evidx_def)
    ultimately show ?thesis using card_mono order_trans by blast
  qed
  ultimately show ?thesis unfolding n [symmetric] by (meson not_le)
qed


subsection \<open>Skips are needed, and the best claim is kept\<close>






lemma losesTo_asym: "losesTo a b \<Longrightarrow> \<not> losesTo b a"
  by (auto simp: losesTo_def split: if_splits)

lemma lowest_not_best:
  assumes best: "\<And>j. j \<noteq> i \<Longrightarrow> j \<in> insert k (set xs) \<Longrightarrow> losesTo (items ! j) (items ! i)" and other: "\<exists>j \<in> insert k (set xs). j \<noteq> i"
  shows "foldl (\<lambda>loser evidx. case loser of None \<Rightarrow> Some evidx
      | Some l \<Rightarrow> if losesTo (items ! evidx) (items ! l) then Some evidx else Some l) (Some k) xs \<noteq> Some i"
  using assms
proof (induction xs arbitrary: k)
  case (Cons x xs)
  show ?case
  proof (cases "losesTo (items ! x) (items ! k)")
    case True
    have "x \<noteq> i \<or> (\<exists>j \<in> set xs. j \<noteq> i)"
      using True Cons.prems losesTo_asym [of "items ! x" "items ! k"] by auto
    then have "foldl (\<lambda>loser evidx. case loser of None \<Rightarrow> Some evidx
        | Some l \<Rightarrow> if losesTo (items ! evidx) (items ! l) then Some evidx else Some l) (Some x) xs \<noteq> Some i"
      by (intro Cons.IH) (use Cons.prems(1) in auto)
    with True show ?thesis by simp
  next
    case False
    have "k \<noteq> i \<or> (\<exists>j \<in> set xs. j \<noteq> i)" using False Cons.prems by auto
    then have "foldl (\<lambda>loser evidx. case loser of None \<Rightarrow> Some evidx
        | Some l \<Rightarrow> if losesTo (items ! evidx) (items ! l) then Some evidx else Some l) (Some k) xs \<noteq> Some i"
      by (intro Cons.IH) (use Cons.prems(1) in auto)
    with False show ?thesis by simp
  qed
qed simp

lemma evict_keeps_best:
  assumes walk: "\<And>xs. set (walk xs) = set xs" and n: "1 \<le> n" and i: "i < length items"
    and best: "\<And>j. j < length items \<Longrightarrow> j \<noteq> i \<Longrightarrow> losesTo (items ! j) (items ! i)"
    and act: "\<forall>e \<in> set act. fst e < length items \<and> snd e = ch (fst e)"
  shows "Skipped (fst (evict walk n fuel (items, act)) ! i) = Skipped (items ! i)"
  using i best act
proof (induction fuel arbitrary: items act)
  case (Suc fuel)
  show ?case
  proof (cases "uniqueChannels act > n \<and> act \<noteq> []")
    case True
    then obtain l where l: "lowestPriority walk items act = Some l" "l \<in> fst ` set act"
      using lowestPriority_in [OF walk] by blast
    obtain k ks where w: "walk (map fst act) = k # ks" "insert k (set ks) = fst ` set act"
      using walk [of "map fst act"] True by (cases "walk (map fst act)") auto
    have "\<not> fst ` set act \<subseteq> {i}"
    proof
      assume one: "fst ` set act \<subseteq> {i}"
      have "snd ` set act \<subseteq> {ch i}"
      proof
        fix c assume "c \<in> snd ` set act"
        then obtain e where "e \<in> set act" "c = snd e" by blast
        with one Suc.prems(3) show "c \<in> {ch i}" by (metis image_subset_iff singletonD singletonI)
      qed
      then have "card (snd ` set act) \<le> card {ch i}" by (rule card_mono [rotated]) simp
      with True n show False by (simp add: uniqueChannels_card)
    qed
    then have "\<exists>j \<in> insert k (set ks). j \<noteq> i" unfolding w(2) by blast
    moreover have "losesTo (items ! j) (items ! i)" if "j \<noteq> i" "j \<in> insert k (set ks)" for j
      using that Suc.prems(2,3) unfolding w(2) by auto
    ultimately have "lowestPriority walk items act \<noteq> Some i"
      using lowest_not_best [of i k ks items] unfolding lowestPriority_def w(1) by simp
    then have "l \<noteq> i" using l(1) by auto
    let ?items = "items[l := (items ! l)\<lparr>Skipped := True, Conflict := True\<rparr>]"
    have flag: "flagged (items ! j) (?items ! j)" if "j < length items" for j
      using that by (cases "j = l") (simp_all add: flagged_def)
    have loses: "losesTo (?items ! j) (?items ! i)" if "j < length ?items" "j \<noteq> i" for j
      using Suc.prems(2) [of j] that flagged_fields [OF flag, of j] \<open>l \<noteq> i\<close> by simp
    have "Skipped (fst (evict walk n fuel (?items, act_delete l act)) ! i) = Skipped (?items ! i)"
    proof (rule Suc.IH)
      show "i < length ?items" using Suc.prems(1) by simp
      show "\<forall>e \<in> set (act_delete l act). fst e < length ?items \<and> snd e = ch (fst e)" using Suc.prems(3) by simp
    qed (rule loses)
    moreover have "evict walk n (Suc fuel) (items, act) = evict walk n fuel (?items, act_delete l act)"
      unfolding evict.simps using True l(1) by simp
    moreover have "?items ! i = items ! i" using \<open>l \<noteq> i\<close> by simp
    ultimately show ?thesis by (simp only:)
  next
    case False
    then have "evict walk n (Suc fuel) (items, act) = (items, act)" by (simp only: evict.simps if_False)
    then show ?thesis by simp
  qed
qed simp

text \<open>
  An airing whose claim beats every other one's, by priority, then the earlier start, then the
  lower id, is never skipped for a conflict.
\<close>

theorem best_claim_kept:
  assumes walk: "\<And>xs. set (walk xs) = set xs" and i: "i < length items" "\<not> Skipped (items ! i)"
    and best: "\<And>j. j < length items \<Longrightarrow> j \<noteq> i \<Longrightarrow> losesTo (items ! j) (items ! i)"
  shows "\<not> Skipped (resolvePriority w walk items tuners ! i)"
proof -
  define n where "n = atLeastOne tuners"
  have n: "1 \<le> n" by (auto simp: n_def atLeastOne_def)
  have "\<not> Skipped (fst (foldl (planStep walk n) (items, []) P) ! i)" if "\<forall>e \<in> set P. e_index e < length items" for P
    using that
  proof (induction P rule: rev_induct)
    case (snoc ev P)
    obtain items1 act where s: "foldl (planStep walk n) (items, []) P = (items1, act)" by fastforce
    have inv: "plan_inv n items P (items1, act)" using plan_run_inv [OF walk, of P items n] snoc.prems s by simp
    have keep: "\<not> Skipped (items1 ! i)" using snoc s by simp
    let ?act = "act_put (e_index ev) (a_ChannelID (AiringOf (items1 ! e_index ev))) act"
    have flag: "flagged (items ! j) (items1 ! j)" if "j < length items" for j using inv that by (simp add: plan_inv_def)
    have len: "length items1 = length items" and entries: "\<forall>e \<in> set act. fst e < length items \<and> snd e = a_ChannelID (AiringOf (items ! fst e))"
      using inv by (simp_all add: plan_inv_def)
    have loses: "losesTo (items1 ! j) (items1 ! i)" if "j < length items1" "j \<noteq> i" for j
    proof -
      have "losesTo (items ! j) (items1 ! i)" using best [of j] that len flag [OF i(1)] by (auto simp: flagged_def losesTo_def)
      with flagged_fields [OF flag, of j] that len show ?thesis by simp
    qed
    have chan: "AiringOf (items1 ! e_index ev) = AiringOf (items ! e_index ev)" and ev: "e_index ev < length items"
      using flagged_fields [OF flag, of "e_index ev"] snoc.prems by auto
    have act: "\<forall>e \<in> set ?act. fst e < length items1 \<and> snd e = a_ChannelID (AiringOf (items ! fst e))"
      using entries chan ev len by simp
    have "Skipped (fst (evict walk n (length ?act) (items1, ?act)) ! i) = Skipped (items1 ! i)"
      by (rule evict_keeps_best [OF walk n _ loses act]) (use i(1) len in simp_all)
    moreover have "fst (foldl (planStep walk n) (items, []) (P @ [ev])) \<in> {items1, fst (evict walk n (length ?act) (items1, ?act))}"
      by (simp add: s planStep_def Let_def)
    ultimately show ?case using keep by auto
  qed (simp add: i)
  moreover have "\<forall>e \<in> set (planEvents w items). e_index e < length items" using pe.event by fastforce
  ultimately show ?thesis by (simp add: resolvePriority_def n_def)
qed

theorem best_claim_kept_witness: "\<not> Skipped (resolvePriority demo_world (\<lambda>xs. xs) demo_items 1 ! 1)"
  by (rule best_claim_kept) (auto simp: demo_items_def demo_item_def planned_def noAiring_def noPass_def losesTo_def less_Suc_eq)


subsection \<open>Keep rules\<close>

lemma newestFirst_ok:
  "newestFirst x ys = (m, rest) \<Longrightarrow> mset (m # rest) = mset (x # ys) \<and> (\<forall>y \<in> set (x # ys). r_StartedAt y \<le> r_StartedAt m)"
proof (induction x ys arbitrary: m rest rule: newestFirst.induct)
  case (2 x y ys)
  show ?case
  proof (cases "r_StartedAt y > r_StartedAt x")
    case True
    obtain m' rest' where "newestFirst y ys = (m', rest')" by fastforce
    with "2.IH"(1) [OF True this] "2.prems" True show ?thesis by (auto simp: Let_def)
  next
    case False
    obtain m' rest' where "newestFirst x ys = (m', rest')" by fastforce
    with "2.IH"(2) [OF False this] "2.prems" False show ?thesis by (auto simp: Let_def)
  qed
qed auto

lemma exchangeSort_ok:
  "mset (exchangeSort xs) = mset xs \<and> sorted_wrt (\<lambda>x y. r_StartedAt y \<le> r_StartedAt x) (exchangeSort xs)"
proof (induction xs rule: exchangeSort.induct)
  case (2 x ys)
  obtain m rest where nf: "newestFirst x ys = (m, rest)" by fastforce
  note ok = newestFirst_ok [OF nf]
  have "mset rest \<subseteq># mset (x # ys)" using ok by (metis mset_subset_eq_add_right add_mset_add_single mset.simps(2) add.commute)
  then have "set rest \<subseteq> set (x # ys)" by (metis set_mset_mono set_mset_mset)
  moreover have "set (exchangeSort rest) = set rest" using 2 nf by (metis fst_conv snd_conv set_mset_mset)
  ultimately show ?case using 2 nf ok by auto
qed simp

text \<open>
  C25. What a keep rule removes. Recordings kept forever, running, partial, or of another show are
  neither counted nor removed. \<^verbatim>\<open>unwatched\<close> removes exactly the played ones. \<^verbatim>\<open>last\<close> with a count
  of \<open>n\<close> (one when it is less) leaves exactly \<open>n\<close>, or all when there are fewer, and none that
  it removes started after one that it leaves. No other word removes anything.
\<close>

theorem keep_victims:
  assumes "mine = filter (\<lambda>rec. \<not> r_Keep rec \<and> r_Status rec \<noteq> ''recording'' \<and> \<not> Incomplete rec \<and> sameShow w pass rec) recs"
    and "mode = ToLower w (trim_space (p_KeepMode pass))"
  shows "\<exists>kept victims. KeepVictims w pass recs = map r_ID victims \<and> mset mine = mset kept + mset victims \<and>
    (if mode = ''unwatched'' then (\<forall>v \<in> set victims. Played v) \<and> (\<forall>k \<in> set kept. \<not> Played k)
     else if mode = ''last'' then length kept = min (length mine) (nat (max 1 (p_KeepCount pass))) \<and>
       (\<forall>k \<in> set kept. \<forall>v \<in> set victims. r_StartedAt v \<le> r_StartedAt k)
     else victims = [])"
proof -
  have mine: "mine = keepMine w pass recs" by (simp add: assms(1) keepMine_def)
  define n where "n = nat (max 1 (p_KeepCount pass))"
  have eq: "KeepVictims w pass recs =
     (if mode = ''unwatched'' then map r_ID (filter Played mine)
      else if mode = ''last'' then (if length mine \<le> n then [] else map r_ID (drop n (exchangeSort mine))) else [])"
    unfolding KeepVictims_def Let_def assms(2) [symmetric] mine [symmetric] n_def by (simp add: max_def)
  have split: "mset mine = mset (filter (\<lambda>r. \<not> Played r) mine) + mset (filter Played mine)"
    using multiset_partition [of "mset mine" Played] by (simp add: add.commute)
  define ordered where "ordered = exchangeSort mine"
  have len: "length ordered = length mine" using exchangeSort_ok [of mine] by (metis ordered_def size_mset)
  define kept victims where "kept = take n ordered" and "victims = drop n ordered"
  have all: "mset mine = mset kept + mset victims"
    using exchangeSort_ok [of mine] by (simp add: ordered_def kept_def victims_def flip: mset_append)
  have "sorted_wrt (\<lambda>x y. r_StartedAt y \<le> r_StartedAt x) (take n ordered @ drop n ordered)"
    using exchangeSort_ok [of mine] by (simp only: append_take_drop_id ordered_def)
  then have newer: "\<forall>k \<in> set kept. \<forall>v \<in> set victims. r_StartedAt v \<le> r_StartedAt k"
    unfolding sorted_wrt_append kept_def victims_def by blast
  have num: "length kept = min (length mine) n" using len by (simp add: kept_def)
  have last: "(if length mine \<le> n then [] else map r_ID (drop n (exchangeSort mine))) = map r_ID victims"
    using len by (simp add: victims_def ordered_def)
  show ?thesis
  proof (cases "mode = ''unwatched''")
    case True
    show ?thesis unfolding eq if_P [OF True]
      by (rule exI [where x = "filter (\<lambda>r. \<not> Played r) mine"], rule exI [where x = "filter Played mine"]) (use split in simp)
  next
    case nu: False
    show ?thesis
    proof (cases "mode = ''last''")
      case True
      show ?thesis unfolding eq if_not_P [OF nu] if_P [OF True] last n_def [symmetric] using all newer num by blast
    next
      case False
      show ?thesis unfolding eq if_not_P [OF nu] if_not_P [OF False] by (rule exI [of _ mine], rule exI [of _ "[]"]) simp
    qed
  qed
qed

theorem keep_victims_witness:
  "length (KeepVictims demo_world (noPass\<lparr>p_KeepMode := ''last'', p_KeepCount := 1\<rparr>) []) = 0"
proof -
  let ?pass = "noPass\<lparr>p_KeepMode := ''last'', p_KeepCount := 1\<rparr>"
  obtain kept victims where "KeepVictims demo_world ?pass [] = map r_ID victims" "mset ([] :: Recording list) = mset kept + mset victims"
    using keep_victims [of "[]" demo_world ?pass "[]", OF _ refl] by auto
  then show ?thesis by simp
qed

subsection \<open>Starting\<close>

text \<open>
  C26. A recording starts at most its lead (the padding asked for, 90 seconds at least) before the
  airing and at most 90 seconds after its start, and never when the airing is over; one that
  joins late does so only where the buffer reaches back to the start. The two never both hold.
  The length is one minute to eight hours, and within those bounds the first whole minute past
  the airing's end, its padding and its sports tail.
\<close>

theorem start_decisions:
  assumes range: "\<bar>a_End air + (p_PadAfter pass * Minute + SportsTail w air) - now\<bar> < 2 ^ 63"
    and stop: "stop = a_End air + p_PadAfter pass * Minute + SportsTail w air"
    and lead: "lead = max (90 * Second) (p_PadBefore pass * Minute)"
  shows "(fst (StartDecision w pass air now) \<longleftrightarrow>
      a_Start air - lead \<le> now \<and> now \<le> a_Start air + 90 * Second \<and> now < a_End air) \<and>
    (fst (JoinDecision w pass air now held) \<longleftrightarrow>
      held \<noteq> 0 \<and> held \<le> a_Start air \<and> a_Start air + 90 * Second < now \<and> now < a_End air) \<and>
    (let m = recordMinutes w pass air now in
      StartDecision w pass air now \<in> {(False, 0), (True, m)} \<and> JoinDecision w pass air now held \<in> {(False, 0), (True, m)} \<and>
      1 \<le> m \<and> m \<le> 480 \<and> (m < 480 \<longrightarrow> stop < now + m * Minute) \<and> (1 < m \<longrightarrow> now + (m - 1) * Minute \<le> stop))"
proof -
  have sub: "time_sub (a_End air + (p_PadAfter pass * Minute + SportsTail w air)) now = stop - now"
    using range unfolding time_sub_def stop by (simp add: min_def max_def abs_less_iff)
  define d where "d = stop - now"
  define m where "m = recordMinutes w pass air now"
  have m: "m = (let k = quot d Minute + 1 in if k < 1 then 1 else if k > 480 then 480 else k)"
    unfolding m_def recordMinutes_def Let_def sub d_def by simp
  have "1 \<le> m \<and> m \<le> 480" by (simp add: m Let_def)
  moreover have "stop < now + m * Minute" if "m < 480"
  proof (cases "0 \<le> d")
    case True
    then have "quot d Minute = d div Minute" by simp
    moreover have "d < (d div Minute + 1) * Minute" by simp
    ultimately show ?thesis using that True unfolding m Let_def by (simp add: d_def split: if_splits)
  next
    case False
    then have "stop < now" by (simp add: d_def)
    with \<open>1 \<le> m \<and> m \<le> 480\<close> show ?thesis by simp
  qed
  moreover have "now + (m - 1) * Minute \<le> stop" if "1 < m"
  proof -
    have "0 \<le> d"
    proof (rule ccontr)
      assume "\<not> 0 \<le> d"
      then have "quot d Minute \<le> 0" by (simp add: quot_def pos_imp_zdiv_nonneg_iff)
      with that show False by (simp add: m Let_def split: if_splits)
    qed
    then have "m - 1 \<le> d div Minute" using that by (simp add: m Let_def split: if_splits)
    then have "(m - 1) * Minute \<le> d div Minute * Minute" by simp
    also have "\<dots> \<le> d" using \<open>0 \<le> d\<close> by simp
    finally show ?thesis by (simp add: d_def)
  qed
  moreover have "fst (StartDecision w pass air now) \<longleftrightarrow>
      a_Start air - lead \<le> now \<and> now \<le> a_Start air + 90 * Second \<and> now < a_End air"
    by (auto simp: StartDecision_def lead Let_def)
  moreover have "fst (JoinDecision w pass air now held) \<longleftrightarrow>
      held \<noteq> 0 \<and> held \<le> a_Start air \<and> a_Start air + 90 * Second < now \<and> now < a_End air"
    by (auto simp: JoinDecision_def)
  moreover have "StartDecision w pass air now \<in> {(False, 0), (True, m)}" "JoinDecision w pass air now held \<in> {(False, 0), (True, m)}"
    by (simp_all add: StartDecision_def JoinDecision_def m_def Let_def)
  ultimately show ?thesis unfolding m_def Let_def by blast
qed

theorem start_decisions_witness:
  "fst (StartDecision demo_world noPass (noAiring\<lparr>a_Start := Hour, a_End := 2 * Hour\<rparr>) (Hour - Minute))"
proof -
  let ?air = "noAiring\<lparr>a_Start := Hour, a_End := 2 * Hour\<rparr>"
  have tail: "SportsTail demo_world ?air = 0"
    by (simp add: noAiring_def SportsTail_def sportsTail_def has_word_def ToLower_def runes_def)
  have "\<bar>a_End ?air + (p_PadAfter noPass * Minute + SportsTail demo_world ?air) - (Hour - Minute)\<bar> < 2 ^ 63"
    unfolding tail by (simp add: noPass_def)
  from start_decisions [OF this refl refl, THEN conjunct1] show ?thesis by (simp add: noPass_def)
qed

subsection \<open>The walk over days ends\<close>


lemma unixSec_fromUnix [simp]: "unixSec (fromUnix s) = s"
  by (simp add: unixSec_def fromUnix_def)





end
