(* ===== verification/Bits.thy ===== *)
theory Bits
  imports Prelude
begin

text \<open>
  Bits of a byte slice, most significant first, as the readers of \<^verbatim>\<open>server/internal/psip/huffman.go\<close> and
  \<^verbatim>\<open>server/internal/live/scantype.go\<close> take them.
\<close>

definition bitAt :: "bytes \<Rightarrow> nat \<Rightarrow> bool" where
  "bitAt b i = bit (b ! (i div 8)) (7 - i mod 8)"

definition bitsOf :: "bytes \<Rightarrow> bool list" where
  "bitsOf b = map (bitAt b) [0..<length b * 8]"

lemma bitsOf_next:
  assumes "drop i (bitsOf b) = x # xs"
  shows "i < length b * 8" "bitAt b i = x" "drop (i + 1) (bitsOf b) = xs"
proof -
  have i: "i < length (bitsOf b)" using assms by (metis drop_all list.distinct(1) not_le)
  then have "bitsOf b ! i = x" "drop (Suc i) (bitsOf b) = xs" using assms Cons_nth_drop_Suc [OF i] by simp_all
  then show "i < length b * 8" "bitAt b i = x" "drop (i + 1) (bitsOf b) = xs"
    using i by (simp_all add: bitsOf_def)
qed

lemma length_bitsOf [simp]: "length (bitsOf b) = length b * 8"
  by (simp add: bitsOf_def)

lemma bitsOf_Nil [simp]: "bitsOf [] = []"
  by (simp add: bitsOf_def)

lemma bitsOf_Cons: "bitsOf (x # b) = map (bit x) (rev [0..<8]) @ bitsOf b"
proof -
  have "[0..<length (x # b) * 8] = [0..<8] @ map (\<lambda>i. i + 8) [0..<length b * 8]"
    using upt_add_eq_append [of 0 8 "length b * 8"] by (simp add: map_add_upt add.commute)
  moreover have "map (bitAt (x # b)) [0..<8] = map (bit x) (rev [0..<8])"
    by (rule nth_equalityI) (simp_all add: bitAt_def rev_nth)
  moreover have "(i + 8) div 8 = Suc (i div 8)" "(i + 8) mod 8 = i mod 8" for i :: nat
    by simp_all
  then have "bitAt (x # b) (i + 8) = bitAt b i" for i
    by (simp only: bitAt_def nth_Cons_Suc)
  ultimately show ?thesis by (simp add: bitsOf_def comp_def)
qed

end
