(* ===== verification/Psip.thy ===== *)
theory Psip
  imports Text Bits
begin

text \<open>
  The ATSC A/65 guide in a broadcast: \<^verbatim>\<open>server/internal/psip\<close>. Text of Annex C Huffman trees and
  of the Unicode blocks (\<^verbatim>\<open>huffman.go\<close>, \<^verbatim>\<open>text.go\<close>), sections out of transport packets, the
  tables (\<^verbatim>\<open>parse.go\<close>), the harvester on a live stream (\<^verbatim>\<open>harvest.go\<close>) and the gaps a broadcast may fill
  (\<^verbatim>\<open>merge.go\<close>). Go compares a position with \<^verbatim>\<open>len(b)-4\<close>, which may be negative; the
  models add the four on the other side. The packed code tables of \<^verbatim>\<open>huffman_tables.go\<close> are an argument.
\<close>

subsection \<open>Bits (huffman.go)\<close>

text \<open>\<^verbatim>\<open>bitReader\<close>: the bytes and the next bit; a read past the end is None and leaves the position.\<close>

definition readBit :: "bytes \<Rightarrow> nat \<Rightarrow> (bool \<times> nat) option" where
  "readBit b i = (if i \<ge> length b * 8 then None else Some (bitAt b i, i + 1))"

text \<open>\<^verbatim>\<open>u8\<close> with \<open>n\<close> bits to go; on failure the bits it took stay taken.\<close>

fun readU8 :: "bytes \<Rightarrow> nat \<Rightarrow> byte \<Rightarrow> nat \<Rightarrow> byte option \<times> nat" where
  "readU8 b 0 v i = (Some v, i)"
| "readU8 b (Suc n) v i =
     (case readBit b i of
        None \<Rightarrow> (None, i)
      | Some (x, j) \<Rightarrow> readU8 b n (push_bit 1 v OR (if x then 1 else 0)) j)"

subsection \<open>Huffman trees\<close>

datatype huffNode = HuffNode (leaf: bool) (sym: byte) (down0: "huffNode option") (down1: "huffNode option")

record huffCode =
  hc_prev :: byte
  hc_sym :: byte
  hc_n :: byte
  hc_bits :: "16 word"

abbreviation (input) emptyNode :: huffNode where
  "emptyNode \<equiv> HuffNode False 0 None None"

text \<open>A code's bits, the first transmitted one first.\<close>

definition codeBits :: "huffCode \<Rightarrow> bool list" where
  "codeBits e = map (bit (hc_bits e)) (rev [0..<unat (hc_n e)])"

fun putCode :: "bool list \<Rightarrow> byte \<Rightarrow> huffNode \<Rightarrow> huffNode" where
  "putCode [] s (HuffNode l y d0 d1) = HuffNode True s d0 d1"
| "putCode (False # bs) s (HuffNode l y d0 d1) =
     HuffNode l y (Some (putCode bs s (case d0 of None \<Rightarrow> emptyNode | Some n \<Rightarrow> n))) d1"
| "putCode (True # bs) s (HuffNode l y d0 d1) =
     HuffNode l y d0 (Some (putCode bs s (case d1 of None \<Rightarrow> emptyNode | Some n \<Rightarrow> n)))"

type_synonym trees = "nat \<rightharpoonup> huffNode"

definition addCode :: "trees \<Rightarrow> huffCode \<Rightarrow> trees" where
  "addCode roots e =
     (if unat (hc_prev e) > 127 \<or> hc_n e = 0 \<or> unat (hc_n e) > 16 then roots
      else
        let root = (case roots (unat (hc_prev e)) of None \<Rightarrow> emptyNode | Some n \<Rightarrow> n)
        in roots(unat (hc_prev e) \<mapsto> putCode (codeBits e) (hc_sym e) root))"

definition buildHuffman :: "huffCode list \<Rightarrow> trees" where
  "buildHuffman codes = foldl addCode Map.empty codes"

text \<open>
  \<^verbatim>\<open>unpackCodes\<close>, of the decoded bytes: five bytes to a code; None is its panic.
\<close>

fun unpackFrom :: "bytes \<Rightarrow> huffCode list" where
  "unpackFrom (p # s # n # x # y # rest) = \<lparr>hc_prev = p, hc_sym = s, hc_n = n, hc_bits = of_nat (be16 x y)\<rparr> # unpackFrom rest"
| "unpackFrom _ = []"

definition unpackCodes :: "bytes \<Rightarrow> huffCode list option" where
  "unpackCodes raw = (if length raw mod 5 \<noteq> 0 then None else Some (unpackFrom raw))"

text \<open>\<^verbatim>\<open>readSymbol\<close>: down the tree bit by bit. The position comes back also when it fails.\<close>

fun readSymbol :: "huffNode \<Rightarrow> bytes \<Rightarrow> nat \<Rightarrow> byte option \<times> nat" where
  "readSymbol (HuffNode l y d0 d1) b i =
     (if l then (Some y, i)
      else
        (case readBit b i of
           None \<Rightarrow> (None, i)
         | Some (x, j) \<Rightarrow>
             if x then (case d1 of None \<Rightarrow> (None, j) | Some n \<Rightarrow> readSymbol n b j)
             else (case d0 of None \<Rightarrow> (None, j) | Some n \<Rightarrow> readSymbol n b j)))"

definition readSym :: "huffNode option \<Rightarrow> bytes \<Rightarrow> nat \<Rightarrow> byte option \<times> nat" where
  "readSym root b i = (case root of None \<Rightarrow> (None, i) | Some n \<Rightarrow> readSymbol n b i)"

text \<open>The loop of \<^verbatim>\<open>decodeHuffman\<close>, with \<open>k\<close> rounds to go. \<^verbatim>\<open>WriteRune(rune(c))\<close> writes a Latin-1 character.\<close>

fun huffLoop :: "trees \<Rightarrow> bytes \<Rightarrow> nat \<Rightarrow> string \<Rightarrow> byte \<Rightarrow> byte \<Rightarrow> bool \<Rightarrow> nat \<Rightarrow> string" where
  "huffLoop trees b 0 out prev ctx rawNext i = out"
| "huffLoop trees b (Suc k) out prev ctx rawNext i =
     (let takeRaw = (rawNext \<or> unat prev \<ge> 128);
          (c0, j) = (if takeRaw then readU8 b 8 0 i else readSym (trees (unat ctx)) b i)
      in if \<not> takeRaw \<and> c0 \<noteq> None \<and> j = i then out
         else
           (case c0 of
              None \<Rightarrow> out
            | Some c \<Rightarrow>
                if c = 0 then out
                else if c = 27 then
                  (if takeRaw then huffLoop trees b k out ctx ctx False j
                   else huffLoop trees b k out prev ctx True j)
                else if unat c < 128 then huffLoop trees b k (out @ encodeRune (uint c)) c c False j
                else huffLoop trees b k (out @ encodeRune (uint c)) c ctx True j))"

definition decodeHuffman :: "trees \<Rightarrow> bytes \<Rightarrow> string" where
  "decodeHuffman trees chunk = huffLoop trees chunk (length chunk * 8 + 1) [] 0 0 False 0"

definition latin1 :: "bytes \<Rightarrow> string" where
  "latin1 chunk = concat (map (\<lambda>c. if c = 0 then [] else encodeRune (uint c)) chunk)"

text \<open>\<^verbatim>\<open>utf16.Decode\<close>: a surrogate pair is one rune, a lone surrogate is \<^verbatim>\<open>RuneError\<close>.\<close>

fun utf16_Decode :: "int list \<Rightarrow> int list" where
  "utf16_Decode [] = []"
| "utf16_Decode [u] = [if 0xD800 \<le> u \<and> u \<le> 0xDFFF then 0xFFFD else u]"
| "utf16_Decode (u # v # us) =
     (if u < 0xD800 \<or> 0xE000 \<le> u then u # utf16_Decode (v # us)
      else if u < 0xDC00 \<and> 0xDC00 \<le> v \<and> v < 0xE000 then ((u - 0xD800) * 1024 + (v - 0xDC00) + 0x10000) # utf16_Decode us
      else 0xFFFD # utf16_Decode (v # us))"

fun units :: "bytes \<Rightarrow> int list" where
  "units (x # y # rest) = int (be16 x y) # units rest"
| "units _ = []"

definition utf16be :: "bytes \<Rightarrow> string" where
  "utf16be chunk =
     (if length chunk < 2 then []
      else
        let us = units chunk;
            us' = (case us of u # r \<Rightarrow> if u = 0xFEFF then r else us | [] \<Rightarrow> us)
        in concat (map (\<lambda>r. if r \<noteq> 0 then encodeRune r else []) (utf16_Decode us')))"

subsection \<open>Strings (text.go)\<close>

definition unicodeBlock :: "byte \<Rightarrow> bool" where
  "unicodeBlock mode \<longleftrightarrow> mode \<in> {0x00, 0x01, 0x02, 0x03, 0x04, 0x05, 0x06, 0x09, 0x0A, 0x0B, 0x0C, 0x0D, 0x0E, 0x0F, 0x10,
     0x20, 0x21, 0x22, 0x23, 0x24, 0x25, 0x26, 0x27, 0x30, 0x31, 0x32, 0x33}"

definition blockText :: "byte \<Rightarrow> bytes \<Rightarrow> string" where
  "blockText mode chunk = concat (map (\<lambda>c. let r = int (be16 mode c) in if r = 0 then [] else encodeRune r) chunk)"

definition decodePlain :: "byte \<Rightarrow> bytes \<Rightarrow> string option" where
  "decodePlain mode chunk =
     (if mode = 0x3F then Some (utf16be chunk)
      else if mode = 0xFF then Some (latin1 chunk)
      else if unicodeBlock mode then Some (blockText mode chunk)
      else None)"

record tables =
  titleTrees :: trees
  descTrees :: trees

definition decodeSegment :: "tables \<Rightarrow> byte \<Rightarrow> byte \<Rightarrow> bytes \<Rightarrow> string option" where
  "decodeSegment tb cmp mode chunk =
     (if cmp = 0 then decodePlain mode chunk
      else if cmp = 1 then (if mode \<noteq> 0x00 \<and> mode \<noteq> 0xFF then None else Some (decodeHuffman (titleTrees tb) chunk))
      else if cmp = 2 then (if mode \<noteq> 0x00 \<and> mode \<noteq> 0xFF then None else Some (decodeHuffman (descTrees tb) chunk))
      else None)"

definition bibCode :: "string \<rightharpoonup> string" where
  "bibCode = map_of
     [(''en'', ''eng''), (''es'', ''spa''), (''fr'', ''fre''), (''de'', ''ger''), (''pt'', ''por''), (''it'', ''ita''),
      (''nl'', ''dut''), (''zh'', ''chi''), (''ja'', ''jpn''), (''ko'', ''kor''), (''sv'', ''swe''), (''no'', ''nor''),
      (''da'', ''dan''), (''fi'', ''fin''), (''pl'', ''pol''), (''ru'', ''rus''), (''ar'', ''ara''), (''he'', ''heb''),
      (''el'', ''gre''), (''tr'', ''tur''), (''vi'', ''vie''), (''th'', ''tha''), (''hi'', ''hin''), (''cs'', ''cze''),
      (''hu'', ''hun''), (''ro'', ''rum''), (''uk'', ''ukr'')]"

definition bibliographic :: "world \<Rightarrow> string \<Rightarrow> string" where
  "bibliographic w loc0 =
     (let loc = takeWhile (\<lambda>c. c \<notin> set ''._@'') (ToLower w (trim_space loc0)) in
      if loc = [] then []
      else if length loc = 3 then loc
      else if length loc \<ge> 2 then (case bibCode (take 2 loc) of Some code \<Rightarrow> code | None \<Rightarrow> [])
      else [])"

fun localeFrom :: "world \<Rightarrow> (string \<Rightarrow> string) \<Rightarrow> string list \<Rightarrow> string" where
  "localeFrom w getenv [] = ''eng''"
| "localeFrom w getenv (key # keys) =
     (let v = getenv key in
      if v = [] \<or> v = ''C'' \<or> v = ''POSIX'' then localeFrom w getenv keys
      else if bibliographic w v \<noteq> [] then bibliographic w v
      else localeFrom w getenv keys)"

definition deviceLanguage :: "world \<Rightarrow> (string \<Rightarrow> string) \<Rightarrow> string" where
  "deviceLanguage w getenv = localeFrom w getenv [''LC_ALL'', ''LANG'']"

text \<open>A \<^verbatim>\<open>langString\<close> is the pair of its language and its text. The loop carries \<open>first\<close> and \<open>eng\<close>.\<close>

fun pickFrom :: "world \<Rightarrow> string \<Rightarrow> string \<Rightarrow> string \<Rightarrow> (string \<times> string) list \<Rightarrow> string" where
  "pickFrom w want first eng [] = (if want \<noteq> ''eng'' \<and> eng \<noteq> [] then eng else first)"
| "pickFrom w want first eng ((lang, txt) # items) =
     (if txt = [] then pickFrom w want first eng items
      else
        let first1 = (if first = [] then txt else first);
            got = bibliographic w lang
        in if got = want then txt
           else if got = ''eng'' \<and> eng = [] then pickFrom w want first1 txt items
           else pickFrom w want first1 eng items)"

definition pickLang :: "world \<Rightarrow> (string \<times> string) list \<Rightarrow> string \<Rightarrow> string" where
  "pickLang w items want0 =
     (let want1 = bibliographic w want0; want = (if want1 = [] then ''eng'' else want1)
      in pickFrom w want [] [] items)"

text \<open>\<^verbatim>\<open>strings.Trim(s, "\x00 ")\<close>.\<close>

definition trimCode :: "string \<Rightarrow> string" where
  "trimCode s =
     (let strip = dropWhile (\<lambda>c. c = CHR 0x00 \<or> c = CHR '' '') in rev (strip (rev (strip s))))"

definition chars :: "bytes \<Rightarrow> string" where
  "chars b = map (\<lambda>x. char_of (unat x)) b"

text \<open>The segments of one string: the text so far and the position; \<open>n\<close> segments to go.\<close>

fun segments :: "tables \<Rightarrow> bytes \<Rightarrow> nat \<Rightarrow> nat \<Rightarrow> string \<Rightarrow> (nat \<times> string) option" where
  "segments tb b 0 pos txt = Some (pos, txt)"
| "segments tb b (Suc n) pos txt =
     (if pos + 3 \<le> length b then
        do { cmp \<leftarrow> idx b pos; mode \<leftarrow> idx b (pos + 1); nb \<leftarrow> idx b (pos + 2);
             let nbytes = unat nb; p = pos + 3 in
             if p + nbytes > length b then Some (p, txt)
             else do { chunk \<leftarrow> slice b p (p + nbytes);
                       segments tb b n (p + nbytes)
                         (case decodeSegment tb cmp mode chunk of Some part \<Rightarrow> txt @ part | None \<Rightarrow> txt) } }
      else Some (pos, txt))"

fun langStrings :: "world \<Rightarrow> tables \<Rightarrow> bytes \<Rightarrow> nat \<Rightarrow> nat \<Rightarrow> (string \<times> string) list option" where
  "langStrings w tb b 0 pos = Some []"
| "langStrings w tb b (Suc n) pos =
     (if pos + 4 \<le> length b then
        do { code \<leftarrow> slice b pos (pos + 3); segs \<leftarrow> idx b (pos + 3);
             (p, txt) \<leftarrow> segments tb b (unat segs) (pos + 4) [];
             rest \<leftarrow> langStrings w tb b n p;
             Some ((ToLower w (trimCode (chars code)), txt) # rest) }
      else Some [])"

definition decodeTextLang :: "world \<Rightarrow> tables \<Rightarrow> bytes \<Rightarrow> string \<Rightarrow> string option" where
  "decodeTextLang w tb b lang =
     (if length b < 1 then Some []
      else do { n \<leftarrow> idx b 0; items \<leftarrow> langStrings w tb b (unat n) 1; Some (pickLang w items lang) })"

text \<open>What \<^verbatim>\<open>decodeText\<close> reads of its surroundings: the world, the tables, the environment.\<close>

record host =
  h_world :: world
  h_tables :: tables
  h_getenv :: "string \<Rightarrow> string"

definition decodeText :: "host \<Rightarrow> bytes \<Rightarrow> string option" where
  "decodeText h b = decodeTextLang (h_world h) (h_tables h) b (deviceLanguage (h_world h) (h_getenv h))"

end
