(* ===== verification/PsipTables.thy ===== *)
theory PsipTables
  imports Psip
begin

text \<open>
  Sections and tables: \<^verbatim>\<open>parse.go\<close>, the harvester of \<^verbatim>\<open>harvest.go\<close> and the gaps of \<^verbatim>\<open>merge.go\<close>.
\<close>

subsection \<open>Packets (harvest.go)\<close>

definition synced :: "bytes \<Rightarrow> nat \<Rightarrow> bool" where
  "synced data i \<longleftrightarrow> data ! i = 0x47 \<and> (i + 188 \<ge> length data \<or> data ! (i + 188) = 0x47)"

text \<open>The packets \<^verbatim>\<open>fn\<close> is called with, in order, and the bytes left for the next call.\<close>

function packetsFrom :: "bytes \<Rightarrow> nat \<Rightarrow> bytes list \<times> bytes" where
  "packetsFrom data i =
     (if i + 188 \<le> length data then
        if \<not> synced data i then packetsFrom data (i + 1)
        else (let (ps, rest) = packetsFrom data (i + 188) in (take 188 (drop i data) # ps, rest))
      else ([], drop i data))"
  by pat_completeness auto
termination
  by (relation "measure (\<lambda>(data, i). length data - i)") auto

declare packetsFrom.simps [simp del]

definition Packets :: "bytes \<Rightarrow> bytes \<Rightarrow> bytes list \<times> bytes" where
  "Packets rest chunk = packetsFrom (rest @ chunk) 0"

subsection \<open>Sections\<close>

record psection =
  PID :: nat
  Body :: bytes

text \<open>\<^verbatim>\<open>mpegCRC\<close>, bit by bit.\<close>

definition crcBit :: "32 word \<Rightarrow> 32 word" where
  "crcBit crc = (if crc AND 0x80000000 \<noteq> 0 then push_bit 1 crc XOR 0x04C11DB7 else push_bit 1 crc)"

definition crcByte :: "32 word \<Rightarrow> byte \<Rightarrow> 32 word" where
  "crcByte crc x = (crcBit ^^ 8) (crc XOR push_bit 24 (ucast x))"

definition mpegCRC :: "bytes \<Rightarrow> 32 word" where
  "mpegCRC data = foldl crcByte 0xFFFFFFFF data"

definition be32 :: "byte \<Rightarrow> byte \<Rightarrow> byte \<Rightarrow> byte \<Rightarrow> 32 word" where
  "be32 a b c d = push_bit 24 (ucast a) OR push_bit 16 (ucast b) OR push_bit 8 (ucast c) OR ucast d"

definition crcOK :: "bytes \<Rightarrow> bool option" where
  "crcOK sec =
     (if length sec < 4 then Some False
      else do { body \<leftarrow> slice sec 0 (length sec - 4); tail \<leftarrow> slice_from sec (length sec - 4);
                a \<leftarrow> idx tail 0; b \<leftarrow> idx tail 1; c \<leftarrow> idx tail 2; d \<leftarrow> idx tail 3;
                Some (mpegCRC body = be32 a b c d) })"

text \<open>
  The inner loop of \<^verbatim>\<open>assemble\<close>: the whole sections at the front of the buffer with a good CRC,
  and the buffer after them.
\<close>

function takeSections :: "nat \<Rightarrow> bytes \<Rightarrow> psection list \<Rightarrow> (bytes \<times> psection list) option" where
  "takeSections pid buf out =
     (if length buf \<ge> 3 then
        let seclen = be16 (buf ! 1 AND 0x0F) (buf ! 2); total = 3 + seclen in
        if seclen < 4 \<or> total > 4096 then Some ([], out)
        else if length buf < total then Some (buf, out)
        else
          (case crcOK (take total buf) of
             None \<Rightarrow> None
           | Some ok \<Rightarrow>
               takeSections pid (drop total buf) (if ok then out @ [\<lparr>PID = pid, Body = take total buf\<rparr>] else out))
      else Some (buf, out))"
  by pat_completeness auto
termination
  by (relation "measure (\<lambda>(pid, buf, out). length buf)") auto

declare takeSections.simps [simp del]

type_synonym assembly = "(nat \<rightharpoonup> bytes) \<times> psection list"

definition pktPid :: "bytes \<Rightarrow> nat" where
  "pktPid pkt = be16 (pkt ! 1 AND 0x1F) (pkt ! 2)"

text \<open>
  One packet of \<^verbatim>\<open>assemble\<close>: the buffer of each PID that a section started on, and the sections so far.
\<close>

definition assembleStep :: "assembly \<Rightarrow> bytes \<Rightarrow> assembly option" where
  "assembleStep s pkt =
     (let (opened, out) = s in
      do { b1 \<leftarrow> idx pkt 1; b2 \<leftarrow> idx pkt 2; b3 \<leftarrow> idx pkt 3;
           let pid = be16 (b1 AND 0x1F) b2 in
           if pid \<noteq> 0x1FFB \<and> (pid < 0x1300 \<or> pid > 0x1FFF) then Some s
           else
             let pusi = (b1 AND 0x40 \<noteq> 0); afc = drop_bit 4 b3 AND 3 in
             do { off \<leftarrow> (if afc AND 0x2 \<noteq> 0 then map_option (\<lambda>x. 5 + unat x) (idx pkt 4) else Some 4);
                  if afc AND 0x2 \<noteq> 0 \<and> off > 188 then Some s
                  else do { payload \<leftarrow> slice_from pkt off;
                    if payload = [] then Some s
                    else if pusi then
                      do { p \<leftarrow> idx payload 0;
                           if unat p + 1 > length payload then Some s
                           else do { rest \<leftarrow> slice_from payload (1 + unat p);
                                     (buf, out') \<leftarrow> takeSections pid rest out;
                                     Some (opened(pid \<mapsto> buf), out') } }
                    else (case opened pid of
                            None \<Rightarrow> Some s
                          | Some old \<Rightarrow>
                              do { (buf, out') \<leftarrow> takeSections pid (old @ payload) out; Some (opened(pid \<mapsto> buf), out') }) } } })"

fun assembleAll :: "assembly \<Rightarrow> bytes list \<Rightarrow> assembly option" where
  "assembleAll s [] = Some s"
| "assembleAll s (p # ps) = do { s' \<leftarrow> assembleStep s p; assembleAll s' ps }"

definition assemble :: "bytes \<Rightarrow> psection list option" where
  "assemble raw = map_option snd (assembleAll (Map.empty, []) (fst (Packets [] raw)))"

subsection \<open>Tables\<close>

record Channel =
  Major :: nat
  Minor :: nat
  ShortName :: string
  SourceID :: nat
  Program :: nat

record Event =
  e_SourceID :: nat
  e_EventID :: nat
  e_Title :: string
  e_Start :: gotime
  e_End :: gotime
  e_Genres :: "string list"
  e_Captions :: bool

record Texts =
  t_SourceID :: nat
  t_EventID :: nat
  t_Body :: string

record Guide =
  Channels :: "Channel list"
  Events :: "Event list"
  TextsOf :: "Texts list"
  EITPIDs :: "nat \<rightharpoonup> nat"
  Offset :: duration

definition noGuide :: Guide where
  "noGuide = \<lparr>Channels = [], Events = [], TextsOf = [], EITPIDs = Map.empty, Offset = 0\<rparr>"

definition be16At :: "bytes \<Rightarrow> nat \<Rightarrow> nat option" where
  "be16At b i = do { s \<leftarrow> slice b i (i + 2); x \<leftarrow> idx s 0; y \<leftarrow> idx s 1; Some (be16 x y) }"

definition be32At :: "bytes \<Rightarrow> nat \<Rightarrow> (32 word) option" where
  "be32At b i = do { s \<leftarrow> slice b i (i + 4); w \<leftarrow> idx s 0; x \<leftarrow> idx s 1; y \<leftarrow> idx s 2; z \<leftarrow> idx s 3; Some (be32 w x y z) }"

definition be24At :: "bytes \<Rightarrow> nat \<Rightarrow> (32 word) option" where
  "be24At b i = do { x \<leftarrow> idx b i; y \<leftarrow> idx b (i + 1); z \<leftarrow> idx b (i + 2);
                     Some (push_bit 16 (ucast x) OR push_bit 8 (ucast y) OR ucast z) }"

fun mgtLoop :: "bytes \<Rightarrow> nat \<Rightarrow> nat \<Rightarrow> (nat \<rightharpoonup> nat) \<Rightarrow> (nat \<rightharpoonup> nat) option" where
  "mgtLoop b 0 pos out = Some out"
| "mgtLoop b (Suc n) pos out =
     (if pos + 11 + 4 \<le> length b then
        do { tableType \<leftarrow> be16At b pos; pid0 \<leftarrow> be16At b (pos + 2); d \<leftarrow> be16At b (pos + 9);
             let pid = pid0 AND 0x1FFF; p = pos + 11; descLen = d AND 0x0FFF in
             if p + descLen + 4 > length b then Some out
             else mgtLoop b n (p + descLen)
                    (if 0x0100 \<le> tableType \<and> tableType \<le> 0x017F then out(tableType - 0x0100 \<mapsto> pid) else out) }
      else Some out)"

definition parseMGT :: "bytes \<Rightarrow> (nat \<rightharpoonup> nat) option" where
  "parseMGT b = (if length b < 11 then Some Map.empty else do { n \<leftarrow> be16At b 9; mgtLoop b n 11 Map.empty })"

fun nameRunes :: "int list \<Rightarrow> int list" where
  "nameRunes [] = []"
| "nameRunes (r # rs) = (if r = 0 then [] else r # nameRunes rs)"

definition utf16Name :: "bytes \<Rightarrow> string" where
  "utf16Name b = (if length b < 14 then [] else concat (map encodeRune (nameRunes (units (take 14 b)))))"

fun vctLoop :: "bytes \<Rightarrow> nat \<Rightarrow> nat \<Rightarrow> Channel list option" where
  "vctLoop b 0 pos = Some []"
| "vctLoop b (Suc n) pos =
     (if pos + 32 + 4 \<le> length b then
        do { nm \<leftarrow> slice b pos (pos + 14);
             word \<leftarrow> be24At b (pos + 14);
             let major = unat (drop_bit 10 word AND 0x3FF); minor = unat (word AND 0x3FF); p = pos + 24 in
             do { program \<leftarrow> be16At b p; source \<leftarrow> be16At b (p + 4); d \<leftarrow> be16At b (p + 6);
                  let descLen = d AND 0x03FF; q = p + 8 in
                  if q + descLen + 4 > length b then Some []
                  else do { rest \<leftarrow> vctLoop b n (q + descLen);
                            Some (\<lparr>Major = major, Minor = minor, ShortName = utf16Name nm, SourceID = source, Program = program\<rparr> # rest) } } }
      else Some [])"

definition parseVCT :: "bytes \<Rightarrow> Channel list option" where
  "parseVCT b = (if length b < 11 then Some [] else do { n \<leftarrow> idx b 9; vctLoop b (unat n) 10 })"

definition parseSTTOffset :: "bytes \<Rightarrow> byte option option" where
  "parseSTTOffset b = (if length b < 14 then Some None else do { x \<leftarrow> idx b 13; Some (Some x) })"

function hasDescriptor :: "bytes \<Rightarrow> byte \<Rightarrow> bool" where
  "hasDescriptor (t # n # desc) tag =
     (if unat n > length desc then False else if t = tag then True else hasDescriptor (drop (unat n) desc) tag)"
| "hasDescriptor [] tag = False"
| "hasDescriptor [x] tag = False"
  by pat_completeness auto
termination
  by (relation "measure (\<lambda>(desc, tag). length desc)") auto

definition genreName :: "byte \<Rightarrow> string" where
  "genreName attr = (case map_of
     [(0x20, ''Education''), (0x21, ''Entertainment''), (0x22, ''Movie''), (0x23, ''News''), (0x24, ''Religious''), (0x25, ''Sports''),
      (0x26, ''Series''), (0x27, ''Special''), (0x34, ''Football''), (0x35, ''Basketball''), (0x37, ''Baseball''), (0x39, ''Hockey'')] attr of
     Some s \<Rightarrow> s | None \<Rightarrow> [])"

function genresIn :: "bytes \<Rightarrow> string list" where
  "genresIn (t # n # desc) =
     (if unat n > length desc then []
      else
        let body = take (unat n) desc; rest = genresIn (drop (unat n) desc)
        in if t \<noteq> 0xAB \<or> length body < 1 then rest else filter (\<lambda>s. s \<noteq> []) (map genreName body) @ rest)"
| "genresIn [] = []"
| "genresIn [x] = []"
  by pat_completeness auto
termination
  by (relation "measure length") auto

text \<open>6 January 1980.\<close>

definition gpsEpoch :: gotime where
  "gpsEpoch = 62451561600 * Second"

fun eitLoop :: "host \<Rightarrow> byte \<Rightarrow> nat \<Rightarrow> bytes \<Rightarrow> nat \<Rightarrow> nat \<Rightarrow> Event list option" where
  "eitLoop h offset source b 0 pos = Some []"
| "eitLoop h offset source b (Suc n) pos =
     (if pos + 8 + 4 \<le> length b then
        do { i \<leftarrow> be16At b pos; startGPS \<leftarrow> be32At b (pos + 2);
             if pos + 9 + 4 \<ge> length b then Some []
             else do { packed \<leftarrow> be24At b (pos + 6);
               let len = packed AND 0x000FFFFF; p = pos + 9 in
               if p + 4 \<ge> length b then Some []
               else do { tl \<leftarrow> idx b p;
                 let titleLen = unat tl; q = p + 1 in
                 if q + titleLen + 4 > length b then Some []
                 else do { tb \<leftarrow> slice b q (q + titleLen); title \<leftarrow> decodeText h tb;
                   let r = q + titleLen in
                   if r + 2 + 4 > length b then Some []
                   else do { d \<leftarrow> be16At b r;
                     let descLen = d AND 0x0FFF; s = r + 2 in
                     if s + descLen + 4 > length b then Some []
                     else do { desc \<leftarrow> slice b s (s + descLen);
                       let start = gpsEpoch + uint startGPS * Second - uint offset * Second in
                       do { rest \<leftarrow> eitLoop h offset source b n (s + descLen);
                         Some (\<lparr>e_SourceID = source, e_EventID = i AND 0x3FFF, e_Title = title, e_Start = start,
                                e_End = start + uint len * Second, e_Genres = genresIn desc,
                                e_Captions = hasDescriptor desc 0x86\<rparr> # rest) } } } } } } }
      else Some [])"

definition parseEIT :: "host \<Rightarrow> bytes \<Rightarrow> byte \<Rightarrow> Event list option" where
  "parseEIT h b offset =
     (if length b < 11 then Some []
      else do { source \<leftarrow> be16At b 3; n \<leftarrow> idx b 9; eitLoop h offset source b (unat n) 10 })"

definition parseETT :: "host \<Rightarrow> bytes \<Rightarrow> Texts option option" where
  "parseETT h b =
     (if length b < 17 then Some None
      else do { etm \<leftarrow> be32At b 9; tb \<leftarrow> slice b 13 (length b - 4); body \<leftarrow> decodeText h tb;
                if body = [] then Some None
                else Some (Some \<lparr>t_SourceID = unat (drop_bit 16 etm AND 0xFFFF), t_EventID = unat (drop_bit 2 etm AND 0x3FFF), t_Body = body\<rparr>) })"

text \<open>The first pass of \<^verbatim>\<open>Parse\<close> over the sections: PIDs, channels and the offset, when a table gave one.\<close>

fun parseFirst :: "psection list \<Rightarrow> Guide \<times> byte option \<Rightarrow> (Guide \<times> byte option) option" where
  "parseFirst [] s = Some s"
| "parseFirst (sec # secs) (g, off) =
     (if length (Body sec) < 1 then parseFirst secs (g, off)
      else do { k \<leftarrow> idx (Body sec) 0;
        if k = 0xC7 then do { pids \<leftarrow> parseMGT (Body sec); parseFirst secs (g\<lparr>EITPIDs := EITPIDs g ++ pids\<rparr>, off) }
        else if k = 0xC8 \<or> k = 0xC9 then
          do { chs \<leftarrow> parseVCT (Body sec); parseFirst secs (g\<lparr>Channels := Channels g @ chs\<rparr>, off) }
        else if k = 0xCD then
          do { o' \<leftarrow> parseSTTOffset (Body sec); parseFirst secs (g, case o' of Some x \<Rightarrow> Some x | None \<Rightarrow> off) }
        else parseFirst secs (g, off) })"

fun parseSecond :: "host \<Rightarrow> byte \<Rightarrow> psection list \<Rightarrow> Guide \<Rightarrow> Guide option" where
  "parseSecond h offset [] g = Some g"
| "parseSecond h offset (sec # secs) g =
     (if length (Body sec) < 1 then parseSecond h offset secs g
      else do { k \<leftarrow> idx (Body sec) 0;
        if k = 0xCB then do { evs \<leftarrow> parseEIT h (Body sec) offset; parseSecond h offset secs (g\<lparr>Events := Events g @ evs\<rparr>) }
        else if k = 0xCC then
          do { t \<leftarrow> parseETT h (Body sec);
               parseSecond h offset secs (case t of Some x \<Rightarrow> g\<lparr>TextsOf := TextsOf g @ [x]\<rparr> | None \<Rightarrow> g) }
        else parseSecond h offset secs g })"

definition maxCapture :: nat where "maxCapture = 524288"

text \<open>\<^verbatim>\<open>Parse\<close> of a reader that holds \<open>raw\<close> and gives no error.\<close>

definition Parse :: "host \<Rightarrow> bytes \<Rightarrow> Guide option" where
  "Parse h raw =
     do { secs \<leftarrow> assemble (take maxCapture raw);
          (g, off) \<leftarrow> parseFirst secs (noGuide, None);
          parseSecond h (case off of Some x \<Rightarrow> x | None \<Rightarrow> 0) secs
            (case off of Some x \<Rightarrow> g\<lparr>Offset := uint x * Second\<rparr> | None \<Rightarrow> g) }"

subsection \<open>The harvester (harvest.go)\<close>

record Harvester =
  hv_buf :: bytes
  hv_reported :: nat
  hv_rest :: bytes

definition keepWindow :: nat where "keepWindow = 131072 div 188 * 188"

definition guidePacket :: "bytes \<Rightarrow> bool" where
  "guidePacket pkt \<longleftrightarrow> pktPid pkt = 0x1FFB \<or> (0x1300 \<le> pktPid pkt \<and> pktPid pkt \<le> 0x1500)"

definition Add :: "host \<Rightarrow> bytes \<Rightarrow> Harvester \<Rightarrow> (Guide option \<times> Harvester) option" where
  "Add h chunk hv =
     (let (pkts, rest') = Packets (hv_rest hv) chunk;
          hv1 = hv\<lparr>hv_rest := rest', hv_buf := hv_buf hv @ concat (filter guidePacket pkts)\<rparr>
      in if length (hv_buf hv1) < hv_reported hv1 + 32768 then Some (None, hv1)
         else do { g \<leftarrow> Parse h (hv_buf hv1);
                   let hv2 = hv1\<lparr>hv_reported := length (hv_buf hv1)\<rparr>;
                       hv3 = (if length (hv_buf hv2) > 262144
                              then hv2\<lparr>hv_buf := drop (length (hv_buf hv2) - keepWindow) (hv_buf hv2), hv_reported := keepWindow\<rparr> else hv2)
                   in Some (if Events g = [] then None else Some g, hv3) })"

subsection \<open>Gaps (merge.go)\<close>

record Span =
  sn_ChannelID :: int
  sn_Start :: gotime
  sn_End :: gotime

definition overlaps :: "Span list \<Rightarrow> Span \<Rightarrow> bool" where
  "overlaps have_rows row \<longleftrightarrow>
     list_ex (\<lambda>got. sn_ChannelID got = sn_ChannelID row \<and> sn_Start row < sn_End got \<and> sn_Start got < sn_End row) have_rows"

definition FillGaps :: "Span list \<Rightarrow> Span list \<Rightarrow> Span list" where
  "FillGaps have_rows extra = filter (\<lambda>row. sn_End row > sn_Start row \<and> \<not> overlaps have_rows row) extra"

end
