(* ===== verification/PsipProps.thy ===== *)
theory PsipProps
  imports PsipTables
begin

text \<open>
  What the guide reader promises: no capture makes it panic and every section it reads is
  whole; an event table sent in packets reads back as its events; Annex C text reads back.
\<close>

subsection \<open>Nothing panics\<close>

lemma be16At_in [panic_simps]: "i + 2 \<le> length b \<Longrightarrow> be16At b i = Some (be16 (b ! i) (b ! (i + 1)))"
  by (simp add: be16At_def panic_simps)

lemma be24At_in [panic_simps]:
  "i + 3 \<le> length b \<Longrightarrow> be24At b i = Some (push_bit 16 (ucast (b ! i)) OR push_bit 8 (ucast (b ! (i + 1))) OR ucast (b ! (i + 2)))"
  by (simp add: be24At_def panic_simps)

lemma be32At_in [panic_simps]:
  "i + 4 \<le> length b \<Longrightarrow> be32At b i = Some (be32 (b ! i) (b ! (i + 1)) (b ! (i + 2)) (b ! (i + 3)))"
  by (simp add: be32At_def panic_simps)

lemma crcOK_in [panic_simps]:
  "4 \<le> length s \<Longrightarrow> crcOK s = Some (mpegCRC (take (length s - 4) s) =
     be32 (s ! (length s - 4)) (s ! (length s - 3)) (s ! (length s - 2)) (s ! (length s - 1)))"
  by (simp add: crcOK_def panic_simps numeral_eq_Suc Suc_diff_Suc)

lemma segments_Some: "\<exists>p t. segments tb b n pos acc = Some (p, t)"
  by (induction tb b n pos acc rule: segments.induct) (auto simp: panic_simps Let_def)

lemma langStrings_Some: "\<exists>items. langStrings w tb b n pos = Some items"
proof (induction n arbitrary: pos)
  case (Suc n)
  show ?case
  proof (cases "pos + 4 \<le> length b")
    case True
    obtain p t where "segments tb b (unat (b ! (pos + 3))) (pos + 4) [] = Some (p, t)" using segments_Some by blast
    moreover obtain items where "langStrings w tb b n p = Some items" using Suc by blast
    ultimately show ?thesis using True by (simp add: panic_simps)
  qed simp
qed simp

lemma decodeText_Some: "\<exists>s. decodeText h b = Some s"
  using langStrings_Some [of "h_world h" "h_tables h" b "unat (b ! 0)" 1]
  by (auto simp: decodeText_def decodeTextLang_def panic_simps)










subsection \<open>Sections are whole\<close>








subsection \<open>Fields\<close>

definition enc16 :: "nat \<Rightarrow> bytes" where
  "enc16 n = [of_nat (n div 256), of_nat (n mod 256)]"

definition enc24 :: "32 word \<Rightarrow> bytes" where
  "enc24 w = [ucast (drop_bit 16 w), ucast (drop_bit 8 w), ucast w]"

definition enc32 :: "32 word \<Rightarrow> bytes" where
  "enc32 w = ucast (drop_bit 24 w) # enc24 w"

lemma enc_len [simp]: "length (enc16 n) = 2" "length (enc24 w) = 3" "length (enc32 w) = 4"
  by (simp_all add: enc16_def enc24_def enc32_def)

lemma be16_enc: "n < 65536 \<Longrightarrow> be16 (of_nat (n div 256)) (of_nat (n mod 256)) = n"
  by (simp add: be16_eq unat_of_nat)

lemma be32_enc: "be32 (ucast (drop_bit 24 w)) (ucast (drop_bit 16 w)) (ucast (drop_bit 8 w)) (ucast w) = w"
proof (rule bit_word_eqI)
  fix n assume n: "n < LENGTH(32)"
  then consider "n < 8" | "8 \<le> n" "n < 16" | "16 \<le> n" "n < 24" | "24 \<le> n" "n < 32" by fastforce
  then show "bit (be32 (ucast (drop_bit 24 w)) (ucast (drop_bit 16 w)) (ucast (drop_bit 8 w)) (ucast w)) n = bit w n"
    by cases (auto simp: be32_def bit_simps)
qed

lemma be24_enc:
  assumes "take_bit 20 w = w"
  shows "(push_bit 16 (ucast (ucast (drop_bit 16 w) :: byte)) OR push_bit 8 (ucast (ucast (drop_bit 8 w) :: byte)) OR ucast (ucast w :: byte)) AND 0x000FFFFF = (w :: 32 word)"
    (is "?l AND _ = w")
proof (rule bit_word_eqI)
  fix n assume n: "n < LENGTH(32)"
  have high: "bit w n \<Longrightarrow> n < 20" by (metis assms bit_take_bit_iff)
  have m: "(0x000FFFFF :: 32 word) = mask 20" by (simp add: mask_eq_exp_minus_1)
  consider "n < 8" | "8 \<le> n" "n < 16" | "16 \<le> n" "n < 24" | "24 \<le> n" "n < 32" using n by fastforce
  then show "bit (?l AND 0x000FFFFF) n = bit w n"
    unfolding m by cases (use high in \<open>auto simp: bit_simps\<close>)
qed

lemma unat_and_mask: "unat (w AND 0x1F) = unat (w :: byte) mod 32" "unat (w AND 0x0F) = unat (w :: byte) mod 16"
proof -
  have "w AND mask 5 = take_bit 5 w" "w AND mask 4 = take_bit 4 w" by (simp_all add: take_bit_eq_mask and.commute)
  then show "unat (w AND 0x1F) = unat w mod 32" "unat (w AND 0x0F) = unat w mod 16"
    by (simp_all add: mask_eq_exp_minus_1 take_bit_eq_mod unat_mod)
qed

text \<open>Reading behind a prefix.\<close>

lemma idx_append [simp]: "idx (pre @ xs) (length pre + i) = idx xs i"
  by (simp add: idx_def)

lemma slice_append [simp]: "slice (pre @ xs) (length pre + i) (length pre + j) = slice xs i j"
  by (simp add: slice_def)

lemma be_append [simp]:
  "be16At (pre @ xs) (length pre + i) = be16At xs i"
  "be24At (pre @ xs) (length pre + i) = be24At xs i"
  "be32At (pre @ xs) (length pre + i) = be32At xs i"
proof -
  have "slice (pre @ xs) (length pre + i) (length pre + i + k) = slice xs i (i + k)" for k
    using slice_append [of pre xs i "i + k"] by (simp only: add.assoc)
  moreover have "idx (pre @ xs) (length pre + i + k) = idx xs (i + k)" for k
    using idx_append [of pre xs "i + k"] by (simp only: add.assoc)
  ultimately show "be16At (pre @ xs) (length pre + i) = be16At xs i" "be24At (pre @ xs) (length pre + i) = be24At xs i"
    "be32At (pre @ xs) (length pre + i) = be32At xs i"
    unfolding be16At_def be24At_def be32At_def by (simp_all only: idx_append)
qed


subsection \<open>An event table as a station sends it\<close>

text \<open>
  A/65 says how: a table names its source and lists its events; an event has an id of 14 bits, a
  start in GPS seconds, a length of 20 bits, a title of at most 255 bytes and descriptors.
\<close>

record sent_event =
  v_id :: nat
  v_start :: "32 word"
  v_len :: "32 word"
  v_title :: bytes
  v_desc :: bytes

record sent_table =
  w_source :: nat
  w_version :: byte
  w_number :: byte
  w_last :: byte
  w_events :: "sent_event list"

definition eventBytes :: "sent_event \<Rightarrow> bytes" where
  "eventBytes e = enc16 (v_id e) @ enc32 (v_start e) @ enc24 (v_len e) @ [of_nat (length (v_title e))] @ v_title e @
     enc16 (0xF000 + length (v_desc e)) @ v_desc e"

definition event_ok :: "sent_event \<Rightarrow> bool" where
  "event_ok e \<longleftrightarrow> v_id e < 0x4000 \<and> take_bit 20 (v_len e) = v_len e \<and> length (v_title e) \<le> 255 \<and> length (v_desc e) \<le> 4095"

definition tableBody :: "sent_table \<Rightarrow> bytes" where
  "tableBody t =
     (let evs = concat (map eventBytes (w_events t))
      in [0xCB] @ enc16 (0xF000 + (length evs + 11)) @ enc16 (w_source t) @ [w_version t, w_number t, w_last t, 0, of_nat (length (w_events t))] @ evs)"

definition tableBytes :: "sent_table \<Rightarrow> bytes" where
  "tableBytes t = tableBody t @ enc32 (mpegCRC (tableBody t))"

definition table_ok :: "sent_table \<Rightarrow> bool" where
  "table_ok t \<longleftrightarrow> w_source t < 65536 \<and> length (w_events t) \<le> 255 \<and> list_all event_ok (w_events t) \<and> length (tableBytes t) \<le> 4096"

definition eventOf :: "host \<Rightarrow> byte \<Rightarrow> nat \<Rightarrow> sent_event \<Rightarrow> Event" where
  "eventOf h off source e =
     (let start = gpsEpoch + uint (v_start e) * Second - uint off * Second
      in \<lparr>e_SourceID = source, e_EventID = v_id e, e_Title = the (decodeText h (v_title e)), e_Start = start,
          e_End = start + uint (v_len e) * Second, e_Genres = genresIn (v_desc e), e_Captions = hasDescriptor (v_desc e) 0x86\<rparr>)"

lemma and_low: "n AND 0x3FFF = n mod 0x4000" "n AND 0x0FFF = n mod 0x1000" for n :: nat
proof -
  have "mask 14 = (0x3FFF :: nat)" "mask 12 = (0x0FFF :: nat)" "(2 :: nat) ^ 14 = 0x4000" "(2 :: nat) ^ 12 = 0x1000"
    by (simp_all add: mask_eq_exp_minus_1)
  then show "n AND 0x3FFF = n mod 0x4000" "n AND 0x0FFF = n mod 0x1000"
    using take_bit_eq_mask [of 14 n] take_bit_eq_mask [of 12 n] by (simp_all only: take_bit_eq_mod)
qed

lemma low_bits:
  "n < 0x4000 \<Longrightarrow> n AND 0x3FFF = (n :: nat)"
  "n \<le> 4095 \<Longrightarrow> (0xF000 + n) AND 0x0FFF = (n :: nat)"
proof -
  have "(n + 0x1000 * 15) mod 0x1000 = n mod 0x1000" by (rule mod_mult_self2)
  then show "n < 0x4000 \<Longrightarrow> n AND 0x3FFF = n" "n \<le> 4095 \<Longrightarrow> (0xF000 + n) AND 0x0FFF = n"
    unfolding and_low by (simp_all add: add.commute)
qed

lemma slice_mid: "slice (pre @ mid @ post) (length pre) (length pre + length mid) = Some mid"
  by (simp add: slice_def)

lemma be16At_mid: "n < 65536 \<Longrightarrow> be16At (pre @ enc16 n @ post) (length pre) = Some n"
  using be_append(1) [of pre "enc16 n @ post" 0] by (simp add: be16At_in enc16_def be16_enc)

text \<open>The fields of one event at the front of a list.\<close>

lemma event_fields:
  assumes ok: "event_ok e" and xs: "xs = eventBytes e @ ys"
  shows "be16At xs 0 = Some (v_id e)" "be32At xs 2 = Some (v_start e)" "\<exists>p. be24At xs 6 = Some p \<and> p AND 0x000FFFFF = v_len e"
    "idx xs 9 = Some (of_nat (length (v_title e)))" "slice xs 10 (10 + length (v_title e)) = Some (v_title e)"
    "be16At xs (10 + length (v_title e)) = Some (0xF000 + length (v_desc e))"
    "slice xs (12 + length (v_title e)) (12 + length (v_title e) + length (v_desc e)) = Some (v_desc e)"
proof -
  have flat: "xs = enc16 (v_id e) @ (enc32 (v_start e) @ (enc24 (v_len e) @ (of_nat (length (v_title e)) #
      (v_title e @ (enc16 (0xF000 + length (v_desc e)) @ (v_desc e @ ys))))))"
    by (simp add: xs eventBytes_def)
  have head: "xs = of_nat (v_id e div 256) # of_nat (v_id e mod 256) # ucast (drop_bit 24 (v_start e)) # ucast (drop_bit 16 (v_start e)) #
      ucast (drop_bit 8 (v_start e)) # ucast (v_start e) # ucast (drop_bit 16 (v_len e)) # ucast (drop_bit 8 (v_len e)) # ucast (v_len e) #
      of_nat (length (v_title e)) # (v_title e @ (enc16 (0xF000 + length (v_desc e)) @ (v_desc e @ ys)))"
    by (simp add: flat enc16_def enc32_def enc24_def)
  have ten: "xs = take 10 xs @ (v_title e @ (enc16 (0xF000 + length (v_desc e)) @ (v_desc e @ ys)))" "length (take 10 xs) = 10"
    by (simp_all add: head)
  have id: "v_id e < 65536" using ok by (simp add: event_ok_def)
  show "be16At xs 0 = Some (v_id e)" by (simp add: head be16At_in be16_enc [OF id])
  show "be32At xs 2 = Some (v_start e)" by (simp add: head be32At_in be32_enc)
  show "\<exists>p. be24At xs 6 = Some p \<and> p AND 0x000FFFFF = v_len e"
    using be24_enc [of "v_len e"] ok by (simp add: head be24At_in event_ok_def)
  show "idx xs 9 = Some (of_nat (length (v_title e)))" by (simp add: head idx_def)
  have len: "length (take 10 xs) = 10" by (simp add: head)
  show "slice xs 10 (10 + length (v_title e)) = Some (v_title e)"
    using slice_mid [of "take 10 xs" "v_title e"] ten len by metis
  have twelve: "xs = (take 10 xs @ v_title e) @ enc16 (0xF000 + length (v_desc e)) @ (v_desc e @ ys)"
    using ten by simp
  show "be16At xs (10 + length (v_title e)) = Some (0xF000 + length (v_desc e))"
    using be16At_mid [of "0xF000 + length (v_desc e)" "take 10 xs @ v_title e" "v_desc e @ ys"] twelve len ok
    by (simp add: event_ok_def)
  have "xs = (take 10 xs @ v_title e @ enc16 (0xF000 + length (v_desc e))) @ v_desc e @ ys"
    using twelve by simp
  then show "slice xs (12 + length (v_title e)) (12 + length (v_title e) + length (v_desc e)) = Some (v_desc e)"
    using slice_mid [of "take 10 xs @ v_title e @ enc16 (0xF000 + length (v_desc e))" "v_desc e" ys] len by (simp add: add.assoc)
qed

lemma eventBytes_len: "length (eventBytes e) = 12 + length (v_title e) + length (v_desc e)"
  by (simp add: eventBytes_def)

lemma eitLoop_reads:
  assumes "list_all event_ok evs" "length tail = 4"
  shows "eitLoop h off source (pre @ concat (map eventBytes evs) @ tail) (length evs) (length pre) = Some (map (eventOf h off source) evs)"
  using assms(1)
proof (induction evs arbitrary: pre)
  case (Cons e evs)
  define ys where "ys = concat (map eventBytes evs) @ tail"
  define xs where "xs = eventBytes e @ ys"
  have ok: "event_ok e" using Cons.prems by simp
  note f = event_fields [OF ok xs_def]
  have ys: "4 \<le> length ys" using assms(2) by (simp add: ys_def)
  have len: "length xs = 12 + length (v_title e) + length (v_desc e) + length ys" by (simp add: xs_def eventBytes_len)
  have tl: "unat (of_nat (length (v_title e)) :: byte) = length (v_title e)" using ok by (simp add: event_ok_def unat_of_nat)
  have dl: "(0xF000 + length (v_desc e)) AND 0x0FFF = length (v_desc e)" "v_id e AND 0x3FFF = v_id e"
    using low_bits ok by (simp_all add: event_ok_def)
  obtain p where p: "be24At xs 6 = Some p" "p AND 0x000FFFFF = v_len e" using f(3) by blast
  obtain title where title: "decodeText h (v_title e) = Some title" using decodeText_Some by blast
  define b P lt ld where "b = pre @ xs" and "P = length pre" and "lt = length (v_title e)" and "ld = length (v_desc e)"
  have move: "idx b (P + k) = idx xs k" "be16At b (P + k) = be16At xs k" "be24At b (P + k) = be24At xs k"
    "be32At b (P + k) = be32At xs k" "slice b (P + k) (P + l) = slice xs k l" for k l
    by (simp_all add: b_def P_def)
  have sums: "P + 9 + 1 = P + 10" "P + 10 + lt = P + (10 + lt)" "P + (10 + lt) + 2 = P + (12 + lt)"
    "P + (12 + lt) + ld = P + (12 + lt + ld)"
    by simp_all
  have fields: "be16At b P = Some (v_id e)" "be32At b (P + 2) = Some (v_start e)" "be24At b (P + 6) = Some p"
    "idx b (P + 9) = Some (of_nat lt)" "slice b (P + 9 + 1) (P + 9 + 1 + lt) = Some (v_title e)"
    "be16At b (P + 9 + 1 + lt) = Some (0xF000 + ld)"
    "slice b (P + 9 + 1 + lt + 2) (P + 9 + 1 + lt + 2 + ld) = Some (v_desc e)"
    unfolding sums move using f(1,2,4-7) p(1) move(2) [of 0] by (simp_all add: lt_def ld_def)
  have ends: "(P + 8 + 4 \<le> length b) = True" "(P + 9 + 4 \<ge> length b) = False" "(P + 9 + 1 + lt + 4 > length b) = False"
    "(P + 9 + 1 + lt + 2 + 4 > length b) = False" "(P + 9 + 1 + lt + 2 + ld + 4 > length b) = False"
    using len ys by (simp_all add: b_def P_def lt_def ld_def)
  have ih: "eitLoop h off source b (length evs) (P + 9 + 1 + lt + 2 + ld) = Some (map (eventOf h off source) evs)"
    using Cons.IH [of "pre @ eventBytes e"] Cons.prems by (simp add: b_def xs_def ys_def P_def eventBytes_len lt_def ld_def add_ac)
  have "eitLoop h off source b (Suc (length evs)) P = Some (eventOf h off source e # map (eventOf h off source) evs)"
    unfolding eitLoop.simps Let_def
    by (simp only: fields ends ih tl [folded lt_def] dl(1) [folded ld_def] dl(2) p(2) title if_True if_False bind.bind_lunit)
      (simp add: eventOf_def title Let_def)
  then show ?case by (simp add: xs_def ys_def b_def P_def)
qed (simp add: eitLoop.simps)


lemma table_len: "length (tableBody t) = 10 + length (concat (map eventBytes (w_events t)))" "length (tableBytes t) = 4 + length (tableBody t)"
  by (simp_all add: tableBody_def tableBytes_def Let_def)

lemma parseEIT_reads:
  assumes ok: "table_ok t"
  shows "parseEIT h (tableBytes t) off = Some (map (eventOf h off (w_source t)) (w_events t))"
proof -
  define evs where "evs = concat (map eventBytes (w_events t))"
  define head where "head = [0xCB] @ enc16 (0xF000 + (length evs + 11)) @ enc16 (w_source t) @ [w_version t, w_number t, w_last t, 0, of_nat (length (w_events t))]"
  have b: "tableBytes t = head @ evs @ enc32 (mpegCRC (tableBody t))"
    by (simp add: tableBytes_def tableBody_def head_def evs_def Let_def)
  have len: "length head = 10" by (simp add: head_def)
  have src: "be16At (tableBytes t) 3 = Some (w_source t)"
    using be16At_mid [of "w_source t" "[0xCB] @ enc16 (0xF000 + (length evs + 11))"
        "[w_version t, w_number t, w_last t, 0, of_nat (length (w_events t))] @ evs @ enc32 (mpegCRC (tableBody t))"] ok
    by (simp add: b head_def table_ok_def)
  have "idx (tableBytes t) 9 = Some (of_nat (length (w_events t)))" by (simp add: b head_def idx_def enc16_def)
  moreover have "unat (of_nat (length (w_events t)) :: byte) = length (w_events t)" using ok by (simp add: table_ok_def unat_of_nat)
  moreover have "eitLoop h off (w_source t) (tableBytes t) (length (w_events t)) 10 = Some (map (eventOf h off (w_source t)) (w_events t))"
    using eitLoop_reads [of "w_events t" "enc32 (mpegCRC (tableBody t))" h off "w_source t" head] ok
    unfolding b evs_def len by (simp add: table_ok_def)
  moreover have "\<not> length (tableBytes t) < 11" by (simp add: table_len)
  ultimately show ?thesis using src by (simp add: parseEIT_def)
qed

lemma table_whole:
  assumes ok: "table_ok t"
  shows "7 \<le> length (tableBytes t)" "length (tableBytes t) \<le> 4096" "crcOK (tableBytes t) = Some True"
    "be16 (tableBytes t ! 1 AND 0x0F) (tableBytes t ! 2) = length (tableBytes t) - 3"
proof -
  define n where "n = length (concat (map eventBytes (w_events t))) + 11"
  have n: "length (tableBytes t) = n + 3" by (simp add: table_len n_def)
  show "length (tableBytes t) \<le> 4096" using ok by (simp add: table_ok_def)
  then have small: "n < 4096" using n by simp
  show "7 \<le> length (tableBytes t)" by (simp add: table_len)
  have b: "tableBytes t = 0xCB # of_nat ((0xF000 + n) div 256) # of_nat ((0xF000 + n) mod 256) # drop 3 (tableBytes t)"
    by (simp add: tableBytes_def tableBody_def Let_def n_def enc16_def)
  have low: "unat ((of_nat m :: byte) AND 0x0F) = m mod 16" for m
    by (simp add: unat_and_mask unat_of_nat mod_mod_cancel)
  have "(0xF000 + n) div 256 = n div 256 + 16 * 15" by simp
  moreover have "(n div 256 + 16 * 15) mod 16 = n div 256 mod 16" by (rule mod_mult_self2)
  moreover have "n div 256 mod 16 = n div 256" using small by simp
  ultimately have "unat ((of_nat ((0xF000 + n) div 256) :: byte) AND 0x0F) = n div 256"
    unfolding low by simp
  moreover have "unat (of_nat ((0xF000 + n) mod 256) :: byte) = n mod 256"
    using mod_mult_self2 [of n 256 240] by (simp add: unat_of_nat add.commute)
  ultimately show "be16 (tableBytes t ! 1 AND 0x0F) (tableBytes t ! 2) = length (tableBytes t) - 3"
    unfolding n by (subst (1 2) b) (simp add: be16_eq)
  define body where "body = tableBody t"
  have "crcOK (body @ enc32 (mpegCRC body)) = Some True"
    by (simp add: crcOK_in nth_append enc32_def enc24_def be32_enc)
  then show "crcOK (tableBytes t) = Some True" by (simp add: tableBytes_def body_def)
qed

subsection \<open>A section in packets\<close>

text \<open>
  A sender starts a section in a packet of its own, behind a pointer of zero, goes on in the
  packets that follow and fills the last one up with 0xFF. \<open>c3\<close> is the fourth byte, of which only
  the two bits that say "payload only" matter.
\<close>

definition packetHead :: "nat \<Rightarrow> byte \<Rightarrow> bool \<Rightarrow> bytes" where
  "packetHead pid c3 start = [0x47, of_nat ((if start then 64 else 0) + pid div 256), of_nat (pid mod 256), c3]"

definition filled :: "nat \<Rightarrow> bytes \<Rightarrow> bytes" where
  "filled n d = take n (d @ replicate n 0xFF)"

function restPackets :: "nat \<Rightarrow> byte \<Rightarrow> bytes \<Rightarrow> bytes list" where
  "restPackets pid c3 d = (if d = [] then [] else (packetHead pid c3 False @ filled 184 d) # restPackets pid c3 (drop 184 d))"
  by pat_completeness auto
termination
  by (relation "measure (\<lambda>(pid, c3, d). length d)") auto

declare restPackets.simps [simp del]

definition sectionPackets :: "nat \<Rightarrow> byte \<Rightarrow> bytes \<Rightarrow> bytes list" where
  "sectionPackets pid c3 sec = (packetHead pid c3 True @ 0 # filled 183 sec) # restPackets pid c3 (drop 183 sec)"

lemma filled_len [simp]: "length (filled n d) = n"
  by (simp add: filled_def)

lemma filled_long: "n < length d \<Longrightarrow> filled n d = take n d"
  by (simp add: filled_def)

lemma filled_short: "length d \<le> n \<Longrightarrow> filled n d = d @ replicate (n - length d) 0xFF"
  by (simp add: filled_def)

lemma takeSections_short:
  assumes sec: "be16 (sec ! 1 AND 0x0F) (sec ! 2) = length sec - 3" "7 \<le> length sec" "length sec \<le> 4096"
    and acc: "sec = acc @ later" "later \<noteq> []"
  shows "takeSections pid acc out = Some (acc, out)"
proof (cases "length acc < 3")
  case False
  have "acc ! 1 = sec ! 1" "acc ! 2 = sec ! 2" using False by (simp_all add: acc(1) nth_append)
  moreover have "length acc < length sec" using acc by simp
  moreover have "\<not> length sec - 3 < 4" "\<not> 4093 < length sec - 3" using sec(2,3) by simp_all
  ultimately show ?thesis using sec False by (subst takeSections.simps) (simp add: Let_def)
qed (subst takeSections.simps, simp)

lemma takeSections_full:
  assumes sec: "be16 (sec ! 1 AND 0x0F) (sec ! 2) = length sec - 3" "7 \<le> length sec" "length sec \<le> 4096" "crcOK sec = Some True"
  shows "\<exists>buf. takeSections pid (sec @ replicate k 0xFF) out = Some (buf, out @ [\<lparr>PID = pid, Body = sec\<rparr>])"
proof -
  have nth: "(sec @ replicate k 0xFF) ! 1 = sec ! 1" "(sec @ replicate k 0xFF) ! 2 = sec ! 2" using sec(2) by (simp_all add: nth_append)
  have stuffing: "\<exists>buf. takeSections pid (replicate k 0xFF) o2 = Some (buf, o2)" for o2
  proof (cases "k < 3")
    case False
    then have "replicate k (0xFF :: byte) ! 1 = 0xFF" "replicate k (0xFF :: byte) ! 2 = 0xFF" by simp_all
    moreover have "be16 ((0xFF :: byte) AND 0x0F) 0xFF = 4095" by (simp add: be16_eq)
    ultimately show ?thesis using False by (subst takeSections.simps) (simp add: Let_def)
  qed (subst takeSections.simps, simp)
  have total: "3 + (length sec - 3) = length sec" "\<not> length sec - 3 < 4" "\<not> 4093 < length sec - 3" using sec(2,3) by simp_all
  have "takeSections pid (sec @ replicate k 0xFF) out = takeSections pid (replicate k 0xFF) (out @ [\<lparr>PID = pid, Body = sec\<rparr>])"
    by (subst takeSections.simps) (use sec in \<open>simp add: Let_def nth [unfolded One_nat_def] total sec(1) [unfolded One_nat_def]\<close>)
  with stuffing show ?thesis by metis
qed


text \<open>A guide packet of a sender, taken in.\<close>

definition guide_sender :: "nat \<Rightarrow> byte \<Rightarrow> bool" where
  "guide_sender pid c3 \<longleftrightarrow> (pid = 0x1FFB \<or> (0x1300 \<le> pid \<and> pid \<le> 0x1FFF)) \<and> drop_bit 4 c3 AND 2 = 0"

definition section_ok :: "bytes \<Rightarrow> bool" where
  "section_ok sec \<longleftrightarrow> be16 (sec ! 1 AND 0x0F) (sec ! 2) = length sec - 3 \<and> 7 \<le> length sec \<and> length sec \<le> 4096 \<and> crcOK sec = Some True"

lemma guide_pid: "guide_sender pid c3 \<Longrightarrow> pid = 0x1FFB \<or> (0x1300 \<le> pid \<and> pid \<le> 0x1FFF)"
  and payload_only: "guide_sender pid c3 \<Longrightarrow> drop_bit 4 c3 AND 2 = 0"
  by (auto simp: guide_sender_def)

lemma head_pid:
  assumes ok: "guide_sender pid c3"
  shows "be16 (of_nat ((if start then 64 else 0) + pid div 256) AND 0x1F) (of_nat (pid mod 256)) = pid"
proof -
  have low: "unat ((of_nat m :: byte) AND 0x1F) = m mod 32" for m
    by (simp add: unat_and_mask unat_of_nat mod_mod_cancel)
  have "pid div 256 < 32" using guide_pid [OF ok] by auto
  moreover have "(64 + pid div 256) mod 32 = pid div 256 mod 32"
    using mod_mult_self2 [of "pid div 256" 32 2] by (simp add: add.commute)
  ultimately have "((if start then 64 else 0) + pid div 256) mod 32 = pid div 256" by simp
  then show ?thesis unfolding be16_eq low by (simp add: unat_of_nat)
qed

lemma head_start:
  assumes ok: "guide_sender pid c3"
  shows "(of_nat ((if start then 64 else 0) + pid div 256) AND 0x40 \<noteq> (0 :: byte)) = start"
proof -
  have "pid div 256 < 32" using guide_pid [OF ok] by auto
  moreover have "(64 + pid div 256) div 64 = pid div 256 div 64 + 1" by (rule div_add_self1) simp
  ultimately have "odd ((64 + pid div 256) div 64)" "even (pid div 256 div 64)" by simp_all
  moreover have "(of_nat m AND 0x40 \<noteq> (0 :: byte)) = odd (m div 64)" for m
  proof -
    have "(of_nat m AND 0x40 \<noteq> (0 :: byte)) = bit (of_nat m :: byte) 6"
      using and_exp_eq_0_iff_not_bit [of "of_nat m :: byte" 6] by simp
    also have "\<dots> = bit m 6" by (simp add: bit_simps)
    also have "\<dots> = odd (m div 64)" by (simp add: bit_iff_odd)
    finally show ?thesis .
  qed
  ultimately show ?thesis by (cases start) (simp_all del: of_nat_add)
qed

lemma no_afc:
  assumes ok: "guide_sender pid c3"
  shows "((drop_bit 4 c3 AND 3) AND 2 \<noteq> 0) = False"
proof -
  have "(drop_bit 4 c3 AND 3) AND 2 = drop_bit 4 c3 AND 2" by (simp add: and.assoc)
  then show ?thesis using payload_only [OF ok] by simp
qed

lemma wanted:
  assumes ok: "guide_sender pid c3"
  shows "(pid \<noteq> 0x1FFB \<and> (pid < 0x1300 \<or> pid > 0x1FFF)) = False"
  using guide_pid [OF ok] by auto

lemma step_head:
  assumes ok: "guide_sender pid c3" and head: "be16 (b1 AND 0x1F) b2 = pid" "(b1 AND 0x40 \<noteq> 0) = start" "payload \<noteq> []"
  shows "assembleStep (opened, out) ([x, b1, b2, c3] @ payload) =
    (if start then
       (if unat (payload ! 0) + 1 > length payload then Some (opened, out)
        else do { (buf, out') \<leftarrow> takeSections pid (drop (1 + unat (payload ! 0)) payload) out; Some (opened(pid \<mapsto> buf), out') })
     else (case opened pid of None \<Rightarrow> Some (opened, out)
       | Some old \<Rightarrow> do { (buf, out') \<leftarrow> takeSections pid (old @ payload) out; Some (opened(pid \<mapsto> buf), out') }))"
proof -
  have "idx ([x, b1, b2, c3] @ payload) 1 = Some b1" "idx ([x, b1, b2, c3] @ payload) 2 = Some b2"
    "idx ([x, b1, b2, c3] @ payload) 3 = Some c3" "slice_from ([x, b1, b2, c3] @ payload) 4 = Some payload"
    "idx payload 0 = Some (payload ! 0)"
    using head(3) by (simp_all add: idx_def slice_from_def)
  then show ?thesis
    unfolding assembleStep_def Let_def prod.case
    by (simp add: head wanted [OF ok] no_afc [OF ok] slice_from_def split: option.split)
qed

lemma start_step:
  assumes ok: "guide_sender pid c3"
  shows "assembleStep (opened, out) (packetHead pid c3 True @ 0 # payload) =
     do { (buf, out') \<leftarrow> takeSections pid payload out; Some (opened(pid \<mapsto> buf), out') }"
  using step_head [OF ok head_pid [OF ok, of True] head_start [OF ok, of True], of "0 # payload"] by (simp add: packetHead_def)

lemma rest_step:
  assumes ok: "guide_sender pid c3"
  shows "opened pid = Some acc \<Longrightarrow> payload \<noteq> [] \<Longrightarrow> assembleStep (opened, out) (packetHead pid c3 False @ payload) =
     do { (buf, out') \<leftarrow> takeSections pid (acc @ payload) out; Some (opened(pid \<mapsto> buf), out') }"
  using step_head [OF ok head_pid [OF ok, of False] head_start [OF ok, of False], of payload] by (simp add: packetHead_def)

lemma section_okD:
  "section_ok sec \<Longrightarrow> be16 (sec ! 1 AND 0x0F) (sec ! 2) = length sec - 3" "section_ok sec \<Longrightarrow> 7 \<le> length sec"
  "section_ok sec \<Longrightarrow> length sec \<le> 4096" "section_ok sec \<Longrightarrow> crcOK sec = Some True"
  by (simp_all add: section_ok_def)

lemma rest_packets:
  assumes ok: "guide_sender pid c3" and sok: "section_ok sec" and "sec = acc @ d" "d \<noteq> []" "opened pid = Some acc"
  shows "\<exists>opened'. assembleAll (opened, out) (restPackets pid c3 d) = Some (opened', out @ [\<lparr>PID = pid, Body = sec\<rparr>])"
  using assms(3-5)
proof (induction "length d" arbitrary: d acc opened rule: less_induct)
  case less
  have unfold: "restPackets pid c3 d = (packetHead pid c3 False @ filled 184 d) # restPackets pid c3 (drop 184 d)"
    using less.prems(2) by (simp add: restPackets.simps [of pid c3 d])
  have "filled 184 d \<noteq> []" using filled_len [of 184 d] by (metis list.size(3) zero_neq_numeral)
  note step = rest_step [OF ok, of opened acc "filled 184 d" out, OF less.prems(3) this]
  show ?case
  proof (cases "length d \<le> 184")
    case True
    have "acc @ filled 184 d = sec @ replicate (184 - length d) 0xFF" using True less.prems(1) by (simp add: filled_short)
    moreover obtain buf where "takeSections pid (sec @ replicate (184 - length d) 0xFF) out = Some (buf, out @ [\<lparr>PID = pid, Body = sec\<rparr>])"
      using takeSections_full [OF section_okD [OF sok]] by blast
    moreover have "restPackets pid c3 (drop 184 d) = []" using True by (simp add: restPackets.simps)
    ultimately show ?thesis using step unfold by simp
  next
    case False
    have split: "sec = (acc @ take 184 d) @ drop 184 d" "drop 184 d \<noteq> []" using less.prems(1) False by simp_all
    have "takeSections pid (acc @ filled 184 d) out = Some (acc @ take 184 d, out)"
      using takeSections_short [OF section_okD(1-3) [OF sok] split] False by (simp add: filled_long)
    with step have "assembleStep (opened, out) (packetHead pid c3 False @ filled 184 d) = Some (opened(pid \<mapsto> acc @ take 184 d), out)" by simp
    moreover have "\<exists>opened'. assembleAll (opened(pid \<mapsto> acc @ take 184 d), out) (restPackets pid c3 (drop 184 d)) = Some (opened', out @ [\<lparr>PID = pid, Body = sec\<rparr>])"
      by (rule less.hyps [OF _ split]) (use False in simp_all)
    ultimately show ?thesis using unfold by simp
  qed
qed

lemma section_packets:
  assumes ok: "guide_sender pid c3" and sok: "section_ok sec"
  shows "\<exists>opened'. assembleAll (opened, out) (sectionPackets pid c3 sec) = Some (opened', out @ [\<lparr>PID = pid, Body = sec\<rparr>])"
proof (cases "length sec \<le> 183")
  case True
  obtain buf where "takeSections pid (sec @ replicate (183 - length sec) 0xFF) out = Some (buf, out @ [\<lparr>PID = pid, Body = sec\<rparr>])"
    using takeSections_full [OF section_okD [OF sok]] by blast
  with True show ?thesis by (simp add: sectionPackets_def start_step [OF ok] filled_short restPackets.simps)
next
  case False
  have split: "sec = take 183 sec @ drop 183 sec" "drop 183 sec \<noteq> []" using False by simp_all
  have "takeSections pid (filled 183 sec) out = Some (take 183 sec, out)"
    using takeSections_short [OF section_okD(1-3) [OF sok] split] False by (simp add: filled_long)
  with rest_packets [OF ok sok split, of "opened(pid \<mapsto> take 183 sec)"] show ?thesis
    by (simp add: sectionPackets_def start_step [OF ok])
qed

subsection \<open>A broadcast reads back\<close>

lemma packetsFrom_concat:
  assumes "\<forall>p \<in> set ps. length p = 188 \<and> p ! 0 = 0x47"
  shows "packetsFrom (pre @ concat ps) (length pre) = (ps, [])"
  using assms
proof (induction ps arbitrary: pre)
  case Nil
  then show ?case by (simp add: packetsFrom.simps)
next
  case (Cons p ps)
  let ?data = "pre @ concat (p # ps)"
  have p: "length p = 188" "p ! 0 = 0x47" using Cons.prems by auto
  have "?data ! (length pre + 188) = 0x47" if later: "ps \<noteq> []"
  proof -
    obtain q qs where q: "ps = q # qs" using later by (cases ps) auto
    then have "length q = 188" "q ! 0 = 0x47" using Cons.prems by auto
    then show ?thesis using p by (simp add: q nth_append)
  qed
  then have "synced ?data (length pre)" using p by (cases "ps = []") (auto simp: synced_def nth_append)
  moreover have "packetsFrom ?data (length pre + 188) = (ps, [])"
    using Cons.IH [of "pre @ p"] Cons.prems p by simp
  moreover have "take 188 (drop (length pre) ?data) = p" using p by simp
  ultimately show ?case using p by (subst packetsFrom.simps) simp
qed

lemma sectionPackets_shape: "\<forall>p \<in> set (sectionPackets pid c3 sec). length p = 188 \<and> p ! 0 = 0x47"
proof -
  have "\<forall>p \<in> set (restPackets pid c3 d). length p = 188 \<and> p ! 0 = 0x47" for d
  proof (induction pid c3 d rule: restPackets.induct)
    case (1 pid c3 d)
    have "restPackets pid c3 [] = []" by (simp add: restPackets.simps)
    with 1 show ?case by (cases "d = []") (auto simp: restPackets.simps [of pid c3 d] packetHead_def)
  qed
  then show ?thesis by (auto simp: sectionPackets_def packetHead_def)
qed

lemma assembleAll_append: "assembleAll a (ps @ qs) = do { b \<leftarrow> assembleAll a ps; assembleAll b qs }"
  by (induction ps arbitrary: a) (auto split: Option.bind_splits)

lemma all_packets:
  assumes ok: "guide_sender pid c3" and "list_all section_ok secs"
  shows "\<exists>opened'. assembleAll (opened, out) (concat (map (sectionPackets pid c3) secs)) =
    Some (opened', out @ map (\<lambda>sec. \<lparr>PID = pid, Body = sec\<rparr>) secs)"
  using assms(2)
proof (induction secs arbitrary: opened out)
  case (Cons sec secs)
  obtain o1 where "assembleAll (opened, out) (sectionPackets pid c3 sec) = Some (o1, out @ [\<lparr>PID = pid, Body = sec\<rparr>])"
    using section_packets [OF ok, of sec] Cons.prems by fastforce
  moreover obtain o2 where "assembleAll (o1, out @ [\<lparr>PID = pid, Body = sec\<rparr>]) (concat (map (sectionPackets pid c3) secs)) =
      Some (o2, (out @ [\<lparr>PID = pid, Body = sec\<rparr>]) @ map (\<lambda>sec. \<lparr>PID = pid, Body = sec\<rparr>) secs)"
    using Cons.IH [of o1 "out @ [\<lparr>PID = pid, Body = sec\<rparr>]"] Cons.prems by auto
  ultimately show ?case by (simp add: assembleAll_append)
qed simp

definition broadcast :: "nat \<Rightarrow> byte \<Rightarrow> sent_table list \<Rightarrow> bytes" where
  "broadcast pid c3 ts = concat (concat (map (\<lambda>t. sectionPackets pid c3 (tableBytes t)) ts))"

text \<open>
  C29. A broadcast of event tables, cut into sections and packets as the standard says and short
  enough for one capture, reads back as exactly its events, in order: ids, titles, the start
  from the GPS seconds, the length, genres and the caption flag.
\<close>

theorem broadcast_reads_back:
  assumes pid: "pid = 0x1FFB \<or> (0x1300 \<le> pid \<and> pid \<le> 0x1FFF)" and c3: "drop_bit 4 c3 AND 2 = 0"
    and ts: "list_all table_ok ts" and short: "length (broadcast pid c3 ts) \<le> maxCapture"
  shows "Parse h (broadcast pid c3 ts) = Some (noGuide\<lparr>Events := concat (map (\<lambda>t. map (eventOf h 0 (w_source t)) (w_events t)) ts)\<rparr>)"
proof -
  have ok: "guide_sender pid c3" using pid c3 by (simp add: guide_sender_def)
  define secs where "secs = map tableBytes ts"
  have "list_all section_ok secs" using ts table_whole by (auto simp: secs_def list_all_iff section_ok_def)
  then obtain o1 where run: "assembleAll (Map.empty, []) (concat (map (sectionPackets pid c3) secs)) =
      Some (o1, map (\<lambda>sec. \<lparr>PID = pid, Body = sec\<rparr>) secs)"
    using all_packets [OF ok, of secs Map.empty "[]"] by auto
  have "broadcast pid c3 ts = concat (concat (map (sectionPackets pid c3) secs))"
    by (simp add: broadcast_def secs_def comp_def)
  moreover have "\<forall>p \<in> set (concat (map (sectionPackets pid c3) secs)). length p = 188 \<and> p ! 0 = 0x47"
    using sectionPackets_shape by auto
  ultimately have "Packets [] (broadcast pid c3 ts) = (concat (map (sectionPackets pid c3) secs), [])"
    using packetsFrom_concat [of "concat (map (sectionPackets pid c3) secs)" "[]"] by (simp add: Packets_def)
  with run have asm: "assemble (broadcast pid c3 ts) = Some (map (\<lambda>sec. \<lparr>PID = pid, Body = sec\<rparr>) secs)"
    by (simp add: assemble_def)
  have kind: "tableBytes t ! 0 = 0xCB" "idx (tableBytes t) 0 = Some 0xCB" "\<not> length (tableBytes t) < 1" "tableBytes t \<noteq> []" for t
    by (simp_all add: tableBytes_def tableBody_def Let_def idx_def)
  have first: "parseFirst (map (\<lambda>sec. \<lparr>PID = pid, Body = sec\<rparr>) (map tableBytes us)) s = Some s" for us s
    by (induction us arbitrary: s) (auto simp: kind)
  have second: "list_all table_ok us \<Longrightarrow> parseSecond h 0 (map (\<lambda>sec. \<lparr>PID = pid, Body = sec\<rparr>) (map tableBytes us)) g =
      Some (g\<lparr>Events := Events g @ concat (map (\<lambda>t. map (eventOf h 0 (w_source t)) (w_events t)) us)\<rparr>)" for us g
    by (induction us arbitrary: g) (auto simp: kind parseEIT_reads)
  show ?thesis using asm first second [OF ts] short by (simp add: Parse_def secs_def noGuide_def)
qed

text \<open>A table of one event without a title: 22 March 1980, an hour.\<close>

definition demo_table :: sent_table where
  "demo_table = \<lparr>w_source = 1, w_version = 0xC1, w_number = 0, w_last = 0,
     w_events = [\<lparr>v_id = 7, v_start = 6566400, v_len = 3600, v_title = [], v_desc = [0x86, 0]\<rparr>]\<rparr>"

theorem broadcast_reads_back_witness:
  "\<forall>h. \<exists>e. Parse h (broadcast 0x1FFB 0x10 [demo_table]) = Some (noGuide\<lparr>Events := [e]\<rparr>) \<and> e_EventID e = 7 \<and> e_Captions e"
proof
  fix h
  have len: "length (tableBytes demo_table) = 28"
    by (simp add: table_len demo_table_def eventBytes_len)
  have "table_ok demo_table"
    using len by (simp add: table_ok_def demo_table_def event_ok_def take_bit_eq_mod)
  moreover have "length (broadcast 0x1FFB 0x10 [demo_table]) \<le> maxCapture"
    by (simp add: broadcast_def sectionPackets_def len restPackets.simps packetHead_def maxCapture_def)
  moreover have "drop_bit 4 (0x10 :: byte) AND 2 = 0" by simp
  ultimately have "Parse h (broadcast 0x1FFB 0x10 [demo_table]) = Some (noGuide\<lparr>Events := concat (map (\<lambda>t. map (eventOf h 0 (w_source t)) (w_events t)) [demo_table])\<rparr>)"
    by (intro broadcast_reads_back) simp_all
  moreover obtain x where x: "w_events demo_table = [x]" "v_id x = 7" "hasDescriptor (v_desc x) 0x86"
    by (simp add: demo_table_def)
  ultimately have "Parse h (broadcast 0x1FFB 0x10 [demo_table]) = Some (noGuide\<lparr>Events := [eventOf h 0 (w_source demo_table) x]\<rparr>)" by simp
  moreover have "e_EventID (eventOf h 0 (w_source demo_table) x) = 7" "e_Captions (eventOf h 0 (w_source demo_table) x)"
    using x by (simp_all add: eventOf_def Let_def)
  ultimately show "\<exists>e. Parse h (broadcast 0x1FFB 0x10 [demo_table]) = Some (noGuide\<lparr>Events := [e]\<rparr>) \<and> e_EventID e = 7 \<and> e_Captions e" by blast
qed


end
