(* ===== verification/HuffProps.thy ===== *)
theory HuffProps
  imports Psip "HOL-Library.Sublist"
begin

text \<open>
  The Huffman text of the guide against a sender. \<open>walk\<close> is the abstract view of a tree, the map from bit
  strings to leaves; \<^verbatim>\<open>buildHuffman\<close> is then insertion into a map, and reading a symbol is
  a lookup of the one code that the bits start with.
\<close>

subsection \<open>The leaves of a tree\<close>

fun leafSym :: "huffNode \<Rightarrow> bool list \<Rightarrow> byte option" where
  "leafSym (HuffNode l y d0 d1) [] = (if l then Some y else None)"
| "leafSym (HuffNode l y d0 d1) (x # xs) =
     (case (if x then d1 else d0) of None \<Rightarrow> None | Some n \<Rightarrow> leafSym n xs)"

lemma leafSym_empty [simp]: "leafSym emptyNode p = None"
  by (cases p) auto

lemma leafSym_putCode: "leafSym (putCode bs s t) p = (if p = bs then Some s else leafSym t p)"
proof (induction bs s t arbitrary: p rule: putCode.induct)
  case (1 s l y d0 d1)
  then show ?case by (cases p) auto
next
  case (2 bs s l y d0 d1)
  then show ?case by (cases p) (auto split: option.splits)
next
  case (3 bs s l y d0 d1)
  then show ?case by (cases p) (auto split: option.splits)
qed

definition rootSym :: "trees \<Rightarrow> nat \<Rightarrow> bool list \<Rightarrow> byte option" where
  "rootSym roots p bs = (case roots p of None \<Rightarrow> None | Some n \<Rightarrow> leafSym n bs)"

definition usable :: "huffCode \<Rightarrow> bool" where
  "usable e \<longleftrightarrow> unat (hc_prev e) \<le> 127 \<and> hc_n e \<noteq> 0 \<and> unat (hc_n e) \<le> 16"

lemma rootSym_addCode:
  "rootSym (addCode roots e) p bs =
    (if usable e \<and> p = unat (hc_prev e) \<and> bs = codeBits e then Some (hc_sym e) else rootSym roots p bs)"
  by (auto simp: rootSym_def addCode_def usable_def Let_def leafSym_putCode split: option.split)

text \<open>No code of a context is a prefix of another of that context.\<close>

definition prefix_free :: "huffCode list \<Rightarrow> bool" where
  "prefix_free codes \<longleftrightarrow> (\<forall>e \<in> set codes. \<forall>f \<in> set codes.
     usable e \<and> usable f \<and> hc_prev e = hc_prev f \<and> prefix (codeBits e) (codeBits f) \<longrightarrow> e = f)"

lemma prefix_freeD:
  "prefix_free codes \<Longrightarrow> e \<in> set codes \<Longrightarrow> f \<in> set codes \<Longrightarrow> usable e \<Longrightarrow> usable f \<Longrightarrow>
   hc_prev e = hc_prev f \<Longrightarrow> prefix (codeBits e) (codeBits f) \<Longrightarrow> e = f"
  unfolding prefix_free_def by blast

lemma built_only:
  "rootSym (foldl addCode roots codes) p bs = Some s \<Longrightarrow>
   rootSym roots p bs = Some s \<or> (\<exists>e \<in> set codes. usable e \<and> unat (hc_prev e) = p \<and> codeBits e = bs \<and> hc_sym e = s)"
proof (induction codes arbitrary: roots)
  case (Cons e codes)
  from Cons.IH [of "addCode roots e"] Cons.prems show ?case by (auto simp: rootSym_addCode split: if_splits)
qed simp

lemma built_kept:
  "\<forall>e \<in> set codes. usable e \<and> unat (hc_prev e) = p \<and> codeBits e = bs \<longrightarrow> hc_sym e = s \<Longrightarrow>
   rootSym roots p bs = Some s \<or> (\<exists>e \<in> set codes. usable e \<and> unat (hc_prev e) = p \<and> codeBits e = bs) \<Longrightarrow>
   rootSym (foldl addCode roots codes) p bs = Some s"
proof (induction codes arbitrary: roots)
  case (Cons e codes)
  have "rootSym (addCode roots e) p bs = Some s \<or> (\<exists>e \<in> set codes. usable e \<and> unat (hc_prev e) = p \<and> codeBits e = bs)"
    using Cons.prems by (auto simp: rootSym_addCode)
  then show ?case using Cons.IH [of "addCode roots e"] Cons.prems(1) by simp
qed simp

lemma build_leaf:
  assumes "prefix_free codes" "e \<in> set codes" "usable e"
  shows "rootSym (buildHuffman codes) (unat (hc_prev e)) (codeBits e) = Some (hc_sym e)"
  unfolding buildHuffman_def
proof (rule built_kept)
  show "\<forall>f \<in> set codes. usable f \<and> unat (hc_prev f) = unat (hc_prev e) \<and> codeBits f = codeBits e \<longrightarrow> hc_sym f = hc_sym e"
  proof (intro ballI impI)
    fix f assume f: "f \<in> set codes" "usable f \<and> unat (hc_prev f) = unat (hc_prev e) \<and> codeBits f = codeBits e"
    then have "prefix (codeBits f) (codeBits e)" "hc_prev f = hc_prev e" by (auto simp: word_unat_eq_iff)
    then show "hc_sym f = hc_sym e" using prefix_freeD [OF assms(1) f(1) assms(2)] f assms(3) by blast
  qed
qed (use assms in blast)

lemma build_first:
  assumes "prefix_free codes" "e \<in> set codes" "usable e" "strict_prefix q (codeBits e)"
  shows "rootSym (buildHuffman codes) (unat (hc_prev e)) q = None"
proof (rule ccontr)
  assume "rootSym (buildHuffman codes) (unat (hc_prev e)) q \<noteq> None"
  then obtain s where "rootSym (foldl addCode Map.empty codes) (unat (hc_prev e)) q = Some s" by (auto simp: buildHuffman_def)
  from built_only [OF this] obtain f where f: "f \<in> set codes" "usable f" "unat (hc_prev f) = unat (hc_prev e)" "codeBits f = q"
    by (auto simp: rootSym_def)
  then have "f = e"
    using prefix_freeD [OF assms(1) f(1) assms(2) f(2) assms(3)] assms(4) by (auto simp: word_unat_eq_iff strict_prefix_def)
  then show False using f(4) assms(4) by simp
qed

subsection \<open>Reading bits\<close>

lemma readBit_next:
  assumes "drop i (bitsOf b) = x # xs"
  shows "readBit b i = Some (x, i + 1)" "drop (i + 1) (bitsOf b) = xs"
  using bitsOf_next [OF assms] by (simp_all add: readBit_def)

lemma readSymbol_reads:
  "leafSym t p = Some s \<Longrightarrow> (\<And>q. strict_prefix q p \<Longrightarrow> leafSym t q = None) \<Longrightarrow>
   drop i (bitsOf b) = p @ rest \<Longrightarrow> readSymbol t b i = (Some s, i + length p)"
proof (induction p arbitrary: t i)
  case Nil
  then show ?case by (cases t) (simp split: if_splits)
next
  case (Cons x p)
  obtain l y d0 d1 where t: "t = HuffNode l y d0 d1" by (cases t)
  have "\<not> l" using Cons.prems(2) [of "[]"] by (simp add: t split: if_splits)
  obtain n where n: "(if x then d1 else d0) = Some n" "leafSym n p = Some s"
    using Cons.prems(1) by (simp add: t split: option.splits)
  have "leafSym n q = None" if "strict_prefix q p" for q
    using Cons.prems(2) [of "x # q"] that n(1) by (simp add: t)
  moreover have rb: "readBit b i = Some (x, i + 1)" "drop (i + 1) (bitsOf b) = p @ rest"
    using readBit_next [of i b x "p @ rest"] Cons.prems(3) by simp_all
  ultimately have "readSymbol n b (i + 1) = (Some s, i + 1 + length p)" by (intro Cons.IH n(2)) blast+
  then show ?case using \<open>\<not> l\<close> rb n(1) by (cases x) (simp_all add: t)
qed

lemma readSym_code:
  assumes "prefix_free codes" "e \<in> set codes" "usable e" "drop i (bitsOf b) = codeBits e @ rest"
  shows "readSym (buildHuffman codes (unat (hc_prev e))) b i = (Some (hc_sym e), i + unat (hc_n e))"
proof -
  obtain n where n: "buildHuffman codes (unat (hc_prev e)) = Some n" "leafSym n (codeBits e) = Some (hc_sym e)"
    using build_leaf [OF assms(1-3)] by (auto simp: rootSym_def split: option.splits)
  have "leafSym n q = None" if "strict_prefix q (codeBits e)" for q
    using build_first [OF assms(1-3) that] n(1) by (simp add: rootSym_def)
  from readSymbol_reads [OF n(2) this assms(4)] show ?thesis by (simp add: readSym_def n(1) codeBits_def)
qed

definition rawBits :: "byte \<Rightarrow> bool list" where
  "rawBits c = map (bit c) (rev [0..<8])"

lemma readU8_steps:
  "drop i (bitsOf b) = xs @ rest \<Longrightarrow>
   readU8 b (length xs) v i = (Some (foldl (\<lambda>v x. push_bit 1 v OR (if x then 1 else 0)) v xs), i + length xs)"
proof (induction xs arbitrary: i v)
  case (Cons x xs)
  have "readBit b i = Some (x, i + 1)" "drop (i + 1) (bitsOf b) = xs @ rest"
    using readBit_next [of i b x "xs @ rest"] Cons.prems by simp_all
  then show ?case using Cons.IH [of "i + 1"] by simp
qed simp

lemma bits_value:
  "foldl (\<lambda>v x. push_bit 1 v OR (if x then 1 else 0)) v (map (bit c) (rev [0..<n])) = push_bit n v OR take_bit n (c :: byte)"
proof (induction n arbitrary: v)
  case (Suc n)
  have "push_bit n (push_bit 1 v OR (if bit c n then 1 else 0)) OR take_bit n c = push_bit (Suc n) v OR take_bit (Suc n) c"
    by (rule bit_word_eqI) (auto simp: bit_simps less_Suc_eq)
  moreover have "rev [0..<Suc n] = n # rev [0..<n]" by simp
  ultimately show ?case by (simp only: list.map foldl.simps Suc)
qed simp

lemma raw_value: "foldl (\<lambda>v x. push_bit 1 v OR (if x then 1 else 0)) 0 (rawBits c) = c"
  unfolding rawBits_def bits_value by (simp add: take_bit_word_eq_self)

lemma readU8_raw:
  "drop i (bitsOf b) = rawBits c @ rest \<Longrightarrow> readU8 b 8 0 i = (Some c, i + 8)"
  using readU8_steps [of i b "rawBits c" rest 0] raw_value [of c] by (simp add: rawBits_def)

subsection \<open>A sender\<close>

text \<open>
  Annex C from the sending side, of characters other than 0 and 27. In a context a character goes out as
  its code when the table has one, else behind the escape as eight bits; a character above 127
  leaves the next one raw too, and a raw stretch may come back to the trees by a raw 27, which is what \<open>bk\<close> chooses.
\<close>

definition codeFor :: "huffCode list \<Rightarrow> byte \<Rightarrow> byte \<Rightarrow> bool list option" where
  "codeFor codes ctx c = map_option codeBits (find (\<lambda>e. usable e \<and> hc_prev e = ctx \<and> hc_sym e = c) codes)"

function sendText :: "huffCode list \<Rightarrow> byte \<Rightarrow> bool \<Rightarrow> (bool \<times> byte) list \<Rightarrow> bool list option" where
  "sendText codes ctx False [] = codeFor codes ctx 0"
| "sendText codes ctx True [] = Some (rawBits 0)"
| "sendText codes ctx False ((bk, c) # cs) =
     (case (if unat c < 128 then codeFor codes ctx c else None) of
        Some w \<Rightarrow> map_option ((@) w) (sendText codes c False cs)
      | None \<Rightarrow>
          (case codeFor codes ctx 27 of
             None \<Rightarrow> None
           | Some esc \<Rightarrow> map_option (\<lambda>r. esc @ rawBits c @ r)
               (if unat c < 128 then sendText codes c False cs else sendText codes ctx True cs)))"
| "sendText codes ctx True ((bk, c) # cs) =
     (if bk then map_option ((@) (rawBits 27)) (sendText codes ctx False ((False, c) # cs))
      else map_option ((@) (rawBits c)) (if unat c < 128 then sendText codes c False cs else sendText codes ctx True cs))"
  by pat_completeness auto
termination by (relation "measure (\<lambda>(codes, ctx, raw, cs). 2 * length cs + (if raw then 1 else 0))") auto

lemma readSym_for:
  assumes "prefix_free codes" "codeFor codes ctx c = Some w" "drop i (bitsOf b) = w @ rest"
  shows "readSym (buildHuffman codes (unat ctx)) b i = (Some c, i + length w)" "w \<noteq> []"
proof -
  obtain e where e: "e \<in> set codes" "usable e" "hc_prev e = ctx" "hc_sym e = c" "w = codeBits e"
    using assms(2) by (auto simp: codeFor_def find_Some_iff intro: nth_mem)
  show "readSym (buildHuffman codes (unat ctx)) b i = (Some c, i + length w)"
    using readSym_code [OF assms(1) e(1,2), of i b rest] assms(3) e by (simp add: codeBits_def)
  show "w \<noteq> []" using e(2,5) by (simp add: codeBits_def usable_def unat_eq_0)
qed

text \<open>One symbol of the loop, in each of its modes.\<close>

lemma loop_code:
  assumes pf: "prefix_free codes" and w: "codeFor codes ctx c = Some w" and d: "drop i (bitsOf b) = w @ rest" and "unat prev < 128"
  shows "huffLoop (buildHuffman codes) b (Suc k) out prev ctx False i =
    (if c = 0 then out
     else if c = 27 then huffLoop (buildHuffman codes) b k out prev ctx True (i + length w)
     else if unat c < 128 then huffLoop (buildHuffman codes) b k (out @ encodeRune (uint c)) c c False (i + length w)
     else huffLoop (buildHuffman codes) b k (out @ encodeRune (uint c)) c ctx True (i + length w))"
  using readSym_for [OF pf w d] assms(4) by (simp add: Let_def)

lemma loop_raw:
  assumes d: "drop i (bitsOf b) = rawBits c @ rest"
  shows "huffLoop tr b (Suc k) out prev ctx True i =
    (if c = 0 then out
     else if c = 27 then huffLoop tr b k out ctx ctx False (i + 8)
     else if unat c < 128 then huffLoop tr b k (out @ encodeRune (uint c)) c c False (i + 8)
     else huffLoop tr b k (out @ encodeRune (uint c)) c ctx True (i + 8))"
  using readU8_raw [OF d] by (simp add: Let_def)

lemma drop_more: "drop i xs = ys @ zs \<Longrightarrow> drop (i + length ys) xs = zs"
  by (metis add.commute append_eq_conv_conj drop_drop)

lemma codeFor_nonempty: "codeFor codes ctx c = Some w \<Longrightarrow> 1 \<le> length w"
  by (auto simp: codeFor_def codeBits_def usable_def find_Some_iff Suc_le_eq unat_eq_0)

lemma huffLoop_reads:
  "prefix_free codes \<Longrightarrow> sendText codes ctx raw cs = Some bits \<Longrightarrow> \<forall>(bk, c) \<in> set cs. c \<noteq> 0 \<and> c \<noteq> 27 \<Longrightarrow>
    drop i (bitsOf b) = bits @ rest \<Longrightarrow> length bits \<le> k \<Longrightarrow> unat ctx < 128 \<Longrightarrow> (raw \<or> unat prev < 128) \<Longrightarrow>
    huffLoop (buildHuffman codes) b k out prev ctx raw i = out @ concat (map (\<lambda>(bk, c). encodeRune (uint c)) cs)"
proof (induction codes ctx raw cs arbitrary: bits i k out prev rule: sendText.induct)
  case (1 codes ctx)
  then have w: "codeFor codes ctx 0 = Some bits" by simp
  then obtain m where "k = Suc m" using codeFor_nonempty [OF w] 1(5) by (cases k) auto
  then show ?case using loop_code [OF 1(1) w 1(4)] 1(7) by simp
next
  case (2 codes ctx)
  then have bits: "bits = rawBits 0" by simp
  then obtain m where "k = Suc m" using 2(5) by (cases k) (auto simp: rawBits_def)
  then show ?case using loop_raw [OF 2(4) [unfolded bits]] by simp
next
  case (3 codes ctx bk c cs)
  note pf = 3(4) and sent = 3(5) and real = 3(6) and d = 3(7) and room = 3(8) and low = 3(9) and mode = 3(10)
  have c: "c \<noteq> 0" "c \<noteq> 27" "\<forall>(bk, c) \<in> set cs. c \<noteq> 0 \<and> c \<noteq> 27" using real by auto
  show ?case
  proof (cases "if unat c < 128 then codeFor codes ctx c else None")
    case (Some w)
    then have w: "codeFor codes ctx c = Some w" "unat c < 128" by (auto split: if_splits)
    from sent Some obtain more_bits where rest: "sendText codes c False cs = Some more_bits" "bits = w @ more_bits" by auto
    have d': "drop i (bitsOf b) = w @ more_bits @ rest" using d rest by simp
    obtain m where m: "k = Suc m" "length more_bits \<le> m" using room rest codeFor_nonempty [OF w(1)] by (cases k) auto
    show ?thesis
      unfolding m(1) using loop_code [OF pf w(1) d'] c w(2) mode
        3(3) [OF Some pf rest(1) c(3) drop_more [OF d'] m(2) w(2)] by simp
  next
    case None
    from sent None obtain esc where esc: "codeFor codes ctx 27 = Some esc" by (auto split: option.splits)
    define next_bits where "next_bits = (if unat c < 128 then sendText codes c False cs else sendText codes ctx True cs)"
    from sent None esc obtain more_bits where rest: "next_bits = Some more_bits" "bits = esc @ rawBits c @ more_bits"
      unfolding next_bits_def by (auto split: if_splits)
    have d': "drop i (bitsOf b) = esc @ rawBits c @ more_bits @ rest" using d rest by simp
    note d1 = drop_more [OF d']
    have len: "length (rawBits c) = 8" by (simp add: rawBits_def)
    note d2 = drop_more [OF d1, unfolded len]
    obtain m where m: "k = Suc (Suc m)" "length more_bits \<le> m"
      using room rest codeFor_nonempty [OF esc] len by (cases k; cases "k - 1") auto
    have "huffLoop (buildHuffman codes) b k out prev ctx False i = huffLoop (buildHuffman codes) b (Suc m) out prev ctx True (i + length esc)"
      unfolding m(1) using loop_code [OF pf esc d'] mode by simp
    also have "\<dots> = out @ encodeRune (uint c) @ concat (map (\<lambda>(bk, c). encodeRune (uint c)) cs)"
    proof (cases "unat c < 128")
      case True
      then have "sendText codes c False cs = Some more_bits" using rest(1) by (simp add: next_bits_def)
      from 3(1) [OF None esc True pf this c(3) d2 m(2) True] show ?thesis using loop_raw [OF d1] c True by simp
    next
      case False
      then have "sendText codes ctx True cs = Some more_bits" using rest(1) by (simp add: next_bits_def)
      from 3(2) [OF None esc False pf this c(3) d2 m(2) low] show ?thesis using loop_raw [OF d1] c False by simp
    qed
    finally show ?thesis by simp
  qed
next
  case (4 codes ctx bk c cs)
  note pf = 4(4) and sent = 4(5) and real = 4(6) and d = 4(7) and room = 4(8) and low = 4(9)
  have c: "c \<noteq> 0" "c \<noteq> 27" "\<forall>(bk, c) \<in> set cs. c \<noteq> 0 \<and> c \<noteq> 27" using real by auto
  have len: "length (rawBits x) = 8" for x by (simp add: rawBits_def)
  show ?case
  proof (cases bk)
    case True
    from sent True obtain more_bits where rest: "sendText codes ctx False ((False, c) # cs) = Some more_bits" "bits = rawBits 27 @ more_bits" by auto
    have d': "drop i (bitsOf b) = rawBits 27 @ more_bits @ rest" using d rest by simp
    obtain m where m: "k = Suc m" "length more_bits \<le> m" using room rest len by (cases k) auto
    have "\<forall>(bk, c) \<in> set ((False, c) # cs). c \<noteq> 0 \<and> c \<noteq> 27" using c by auto
    from 4(1) [OF True pf rest(1) this drop_more [OF d', unfolded len] m(2) low, of ctx out] show ?thesis
      unfolding m(1) using loop_raw [OF d'] low by simp
  next
    case False
    define next_bits where "next_bits = (if unat c < 128 then sendText codes c False cs else sendText codes ctx True cs)"
    from sent False obtain more_bits where rest: "next_bits = Some more_bits" "bits = rawBits c @ more_bits"
      unfolding next_bits_def by (auto split: if_splits)
    have d': "drop i (bitsOf b) = rawBits c @ more_bits @ rest" using d rest by simp
    obtain m where m: "k = Suc m" "length more_bits \<le> m" using room rest len by (cases k) auto
    note d2 = drop_more [OF d', unfolded len]
    show ?thesis
    proof (cases "unat c < 128")
      case True
      then have "sendText codes c False cs = Some more_bits" using rest(1) by (simp add: next_bits_def)
      from 4(2) [OF False True pf this c(3) d2 m(2) True] show ?thesis unfolding m(1) using loop_raw [OF d'] c True by simp
    next
      case False' : False
      then have "sendText codes ctx True cs = Some more_bits" using rest(1) by (simp add: next_bits_def)
      from 4(3) [OF False False' pf this c(3) d2 m(2) low] show ?thesis unfolding m(1) using loop_raw [OF d'] c False' by simp
    qed
  qed
qed

text \<open>
  C30. Text of any characters but 0 and 27, sent with the codes of a prefix-free table (a code where the
  context has one, else the escape and raw bits, back to the trees at any point) and
  its end mark, decodes to exactly that text from the trees built of the table, whatever padding follows.
\<close>

theorem huffman_reads_back:
  assumes "prefix_free codes" "sendText codes 0 False cs = Some bits" "bitsOf chunk = bits @ padding"
    and "\<forall>(bk, c) \<in> set cs. c \<noteq> 0 \<and> c \<noteq> 27"
  shows "decodeHuffman (buildHuffman codes) chunk = concat (map (\<lambda>(bk, c). encodeRune (uint c)) cs)"
proof -
  have "length bits \<le> length chunk * 8 + 1"
    using arg_cong [OF assms(3), of length] by (simp add: bitsOf_def)
  then show ?thesis
    unfolding decodeHuffman_def
    using huffLoop_reads [OF assms(1,2,4), of 0 chunk padding "length chunk * 8 + 1" 0 "[]"] assms(3) by simp
qed

text \<open>A table of three codes; the text goes a, raw e-acute, back to the trees, a, end.\<close>

definition demo_codes :: "huffCode list" where
  "demo_codes =
     [\<lparr>hc_prev = 0, hc_sym = 97, hc_n = 1, hc_bits = 1\<rparr>, \<lparr>hc_prev = 97, hc_sym = 27, hc_n = 2, hc_bits = 1\<rparr>,
      \<lparr>hc_prev = 97, hc_sym = 97, hc_n = 1, hc_bits = 1\<rparr>, \<lparr>hc_prev = 97, hc_sym = 0, hc_n = 2, hc_bits = 0\<rparr>]"

theorem huffman_reads_back_witness:
  "decodeHuffman (buildHuffman demo_codes) [0xBD, 0x23, 0x70] = map char_of [97, 0xC3, 0xA9, 97 :: nat]"
proof -
  have "prefix_free demo_codes" "sendText demo_codes 0 False [(False, 97), (False, 0xE9), (True, 97)] = Some (take 22 (bitsOf [0xBD, 0x23, 0x70]))"
    by code_simp+
  moreover have "bitsOf [0xBD, 0x23, 0x70] = take 22 (bitsOf [0xBD, 0x23, 0x70]) @ drop 22 (bitsOf [0xBD, 0x23, 0x70])" by simp
  ultimately have "decodeHuffman (buildHuffman demo_codes) [0xBD, 0x23, 0x70] = concat (map (\<lambda>(bk, c). encodeRune (uint c)) [(False, 97 :: byte), (False, 0xE9), (True, 97)])"
    by (rule huffman_reads_back) auto
  also have "\<dots> = map char_of [97, 0xC3, 0xA9, 97 :: nat]" by code_simp
  finally show ?thesis .
qed

end
