(* ===== verification/ScanTables.thy ===== *)
theory ScanTables
  imports Bits
begin

text \<open>
  The program tables of a transport stream, as \<^verbatim>\<open>server/internal/live/scantype.go\<close> reads them: the packets
  of a PID, the sections they carry, the program map of a program and its picture stream.
  None is an index out of range.
\<close>

abbreviation (input) streamMPEG2 :: nat where "streamMPEG2 \<equiv> 0x02"
abbreviation (input) streamH264 :: nat where "streamH264 \<equiv> 0x1b"
abbreviation (input) streamHEVC :: nat where "streamHEVC \<equiv> 0x24"

text \<open>\<^verbatim>\<open>anyProgram\<close> is -1.\<close>

abbreviation (input) anyProgram :: int where "anyProgram \<equiv> -1"

subsection \<open>Packets of a PID\<close>

definition tsAligned :: "bytes \<Rightarrow> nat \<Rightarrow> bool" where
  "tsAligned data off =
     (if off + 188 > length data \<or> data ! off \<noteq> 0x47 then False
      else if off + 376 \<le> length data \<and> data ! (off + 188) \<noteq> 0x47 then False
      else True)"

definition pid_of :: "bytes \<Rightarrow> nat" where
  "pid_of pkt = be16 (pkt ! 1 AND 0x1f) (pkt ! 2)"

text \<open>What \<^verbatim>\<open>eachPacket\<close> does with one packet: None when it does not call \<^verbatim>\<open>fn\<close>.\<close>

definition packetCall :: "nat \<Rightarrow> bytes \<Rightarrow> (bool \<times> bytes) option" where
  "packetCall pid pkt =
     (let afc = drop_bit 4 (pkt ! 3) AND 3; pusi = (pkt ! 1 AND 0x40 \<noteq> 0) in
      if pid_of pkt \<noteq> pid then None
      else if afc = 2 \<or> afc = 0 then None
      else if afc = 3 then
        (if 5 + unat (pkt ! 4) > 188 then None else Some (pusi, drop (5 + unat (pkt ! 4)) pkt))
      else Some (pusi, drop 4 pkt))"

text \<open>The calls of \<^verbatim>\<open>fn\<close>, in order.\<close>

function eachPacket :: "bytes \<Rightarrow> nat \<Rightarrow> nat \<Rightarrow> (bool \<times> bytes) list" where
  "eachPacket data pid off =
     (if off + 188 \<le> length data then
        if \<not> tsAligned data off then eachPacket data pid (off + 1)
        else
          (case packetCall pid (take 188 (drop off data)) of
             None \<Rightarrow> eachPacket data pid (off + 188)
           | Some c \<Rightarrow> c # eachPacket data pid (off + 188))
      else [])"
  by pat_completeness auto
termination
  by (relation "measure (\<lambda>(data, pid, off). length data - off)") auto

declare eachPacket.simps [simp del]

subsection \<open>Sections\<close>

text \<open>The state is the sections so far and the one being collected, empty for nil.\<close>

definition flush :: "bytes list \<times> bytes \<Rightarrow> bytes list \<times> bytes" where
  "flush s = (let (out, cur) = s in if cur = [] then (out, cur) else (out @ [cur], []))"

definition sectionStep :: "bytes list \<times> bytes \<Rightarrow> bool \<times> bytes \<Rightarrow> bytes list \<times> bytes" where
  "sectionStep s call =
     (let (out, cur) = s; (start, payload) = call in
      if \<not> start then (out, cur @ payload)
      else if payload = [] then flush (out, cur)
      else
        let pointer = unat (payload ! 0) in
        if 1 + pointer > length payload then flush (out, cur)
        else
          let cur1 = (if pointer > 0 \<and> cur \<noteq> [] then cur @ take pointer (drop 1 payload) else cur);
              (out1, _) = flush (out, cur1)
          in (out1, drop (1 + pointer) payload))"

definition sections :: "bytes \<Rightarrow> nat \<Rightarrow> bytes list" where
  "sections data pid = fst (flush (foldl sectionStep ([], []) (eachPacket data pid 0)))"

definition sectionEnd :: "bytes \<Rightarrow> nat" where
  "sectionEnd sec =
     (if length sec < 3 then 0
      else
        let n = be16 (sec ! 1 AND 0x0f) (sec ! 2); stop = 3 + int n - 4;
            clipped = (if stop > int (length sec) then int (length sec) else stop)
        in if clipped < 0 then 0 else nat clipped)"

function patFrom :: "bytes \<Rightarrow> nat \<Rightarrow> int \<Rightarrow> nat \<Rightarrow> nat option" where
  "patFrom sec stop program off =
     (if off + 4 \<le> stop then
        do { a \<leftarrow> idx sec off; b \<leftarrow> idx sec (off + 1); c \<leftarrow> idx sec (off + 2); d \<leftarrow> idx sec (off + 3);
             if be16 a b = 0 then patFrom sec stop program (off + 4)
             else if program = 0 \<or> int (be16 a b) = program then Some (be16 (c AND 0x1f) d)
             else patFrom sec stop program (off + 4) }
      else Some 0)"
  by pat_completeness auto
termination
  by (relation "measure (\<lambda>(sec, stop, program, off). stop - off)") auto

declare patFrom.simps [simp del]

definition patPMT :: "bytes \<Rightarrow> int \<Rightarrow> nat option" where
  "patPMT sec program = patFrom sec (sectionEnd sec) program 8"

function firstFrom :: "bytes \<Rightarrow> nat \<Rightarrow> nat \<Rightarrow> int option" where
  "firstFrom sec stop off =
     (if off + 4 \<le> stop then
        do { a \<leftarrow> idx sec off; b \<leftarrow> idx sec (off + 1);
             if be16 a b \<noteq> 0 then Some (int (be16 a b)) else firstFrom sec stop (off + 4) }
      else Some anyProgram)"
  by pat_completeness auto
termination
  by (relation "measure (\<lambda>(sec, stop, off). stop - off)") auto

declare firstFrom.simps [simp del]

definition firstProgram :: "bytes \<Rightarrow> int option" where
  "firstProgram sec = firstFrom sec (sectionEnd sec) 8"

text \<open>
  The stream loop that \<^verbatim>\<open>pmtVideo\<close>, \<^verbatim>\<open>pmtSound\<close> and \<^verbatim>\<open>pmtElementary\<close> share: the type and the PID of every
  stream the map lists. Each of them takes from that list what it looks for.
\<close>

function streamsFrom :: "bytes \<Rightarrow> nat \<Rightarrow> nat \<Rightarrow> (nat \<times> nat) list option" where
  "streamsFrom sec stop off =
     (if off + 5 \<le> stop then
        do { t \<leftarrow> idx sec off; a \<leftarrow> idx sec (off + 1); b \<leftarrow> idx sec (off + 2); c \<leftarrow> idx sec (off + 3); d \<leftarrow> idx sec (off + 4);
             rest \<leftarrow> streamsFrom sec stop (off + 5 + be16 (c AND 0x0f) d);
             Some ((unat t, be16 (a AND 0x1f) b) # rest) }
      else Some [])"
  by pat_completeness auto
termination
  by (relation "measure (\<lambda>(sec, stop, off). stop - off)") auto

declare streamsFrom.simps [simp del]

definition pmtStreams :: "bytes \<Rightarrow> (nat \<times> nat) list option" where
  "pmtStreams sec = do { a \<leftarrow> idx sec 10; b \<leftarrow> idx sec 11; streamsFrom sec (sectionEnd sec) (12 + be16 (a AND 0x0f) b) }"

definition pmtVideo :: "bytes \<Rightarrow> (nat \<times> nat) option" where
  "pmtVideo sec =
     (if length sec < 12 then Some (0, 0)
      else do { ss \<leftarrow> pmtStreams sec;
                Some (case find (\<lambda>(t, p). t = streamMPEG2 \<or> t = streamH264 \<or> t = streamHEVC) ss of
                        Some (t, p) \<Rightarrow> (p, t)
                      | None \<Rightarrow> (0, 0)) })"

subsection \<open>The picture stream of a program\<close>

fun findPMT :: "bytes list \<Rightarrow> int \<Rightarrow> nat \<Rightarrow> nat option" where
  "findPMT [] program pmt = Some pmt"
| "findPMT (sec # secs) program pmt =
     (if length sec < 12 \<or> sec ! 0 \<noteq> 0x00 then findPMT secs program pmt
      else do { p \<leftarrow> patPMT sec program; if p \<noteq> 0 then Some p else findPMT secs program p })"

fun findVideo :: "bytes list \<Rightarrow> (nat \<times> nat) option" where
  "findVideo [] = Some (0, 0)"
| "findVideo (sec # secs) =
     (if length sec < 12 \<or> sec ! 0 \<noteq> 0x02 then findVideo secs
      else do { (p, k) \<leftarrow> pmtVideo sec; if p \<noteq> 0 then Some (p, k) else findVideo secs })"

definition programVideo :: "bytes \<Rightarrow> int \<Rightarrow> (nat \<times> nat \<times> nat) option" where
  "programVideo data program =
     do { pmt \<leftarrow> findPMT (sections data 0) program 0;
          if pmt = 0 then Some (0, 0, 0)
          else do { (p, k) \<leftarrow> findVideo (sections data pmt); Some (if p \<noteq> 0 then (pmt, p, k) else (pmt, 0, 0)) } }"

definition pesPayload :: "bytes \<Rightarrow> bytes" where
  "pesPayload b =
     (if length b < 9 \<or> b ! 0 \<noteq> 0 \<or> b ! 1 \<noteq> 0 \<or> b ! 2 \<noteq> 1 then []
      else let off = 9 + unat (b ! 8) in if off > length b then [] else drop off b)"

definition elementary :: "bytes \<Rightarrow> nat \<Rightarrow> bytes" where
  "elementary data pid =
     concat (map (\<lambda>(start, payload). if start then pesPayload payload else payload) (eachPacket data pid 0))"

end
