(* ===== verification/Scan.thy ===== *)
theory Scan
  imports Complex_Main ScanTables "HOL-Library.State_Monad"
begin

text \<open>
  What the picture headers of a stream say: \<^verbatim>\<open>server/internal/live/scantype.go\<close>, from the bytes of an elementary
  stream. MPEG-2 and H.264 walk an option monad over a bit reader, where None is \<^verbatim>\<open>ok == false\<close>;
  HEVC walks a state monad whose state remembers a read past the end. A \<^verbatim>\<open>uint\<close> here never leaves
  64 bits: no read is wider than 32 bits, an Exp-Golomb value is below \<open>2 ^ 32\<close>. A \<^verbatim>\<open>float64\<close> rate is the rational.
\<close>

subsection \<open>The bit reader\<close>

type_synonym rd = "bytes \<times> nat"

definition bitsValue :: "bool list \<Rightarrow> nat" where
  "bitsValue xs = foldl (\<lambda>v x. 2 * v + (if x then 1 else 0)) 0 xs"

definition u :: "nat \<Rightarrow> rd \<Rightarrow> (nat \<times> rd) option" where
  "u n r =
     (let (b, off) = r in
      if off + n > length b * 8 then None
      else Some (bitsValue (map (bitAt b) [off..<off + n]), (b, off + n)))"

function ueZeros :: "nat \<Rightarrow> rd \<Rightarrow> (nat \<times> rd) option" where
  "ueZeros zeros r =
     (case u 1 r of
        None \<Rightarrow> None
      | Some (x, r1) \<Rightarrow>
          if x = 1 then Some (zeros, r1)
          else if zeros + 1 > 31 then None
          else ueZeros (zeros + 1) r1)"
  by pat_completeness auto
termination
  by (relation "measure (\<lambda>(zeros, r). 32 - zeros)") auto

declare ueZeros.simps [simp del]

definition ue :: "rd \<Rightarrow> (nat \<times> rd) option" where
  "ue r =
     do { (zeros, r1) \<leftarrow> ueZeros 0 r;
          if zeros = 0 then Some (0, r1)
          else do { (rest, r2) \<leftarrow> u zeros r1; Some (2 ^ zeros - 1 + rest, r2) } }"

definition se :: "rd \<Rightarrow> (int \<times> rd) option" where
  "se r = do { (v, r1) \<leftarrow> ue r; Some (if v mod 2 = 0 then - int (v div 2) else int (v div 2) + 1, r1) }"

text \<open>\<open>n\<close> values one after the other, as the loop over the offsets of a picture order count.\<close>

fun skipSe :: "nat \<Rightarrow> rd \<Rightarrow> rd option" where
  "skipSe 0 r = Some r"
| "skipSe (Suc n) r = do { (_, r1) \<leftarrow> se r; skipSe n r1 }"

definition unescapeAt :: "bytes \<Rightarrow> bool" where
  "unescapeAt b \<longleftrightarrow> 2 < length b \<and> b ! 0 = 0 \<and> b ! 1 = 0 \<and> b ! 2 = 3"

function unescape :: "bytes \<Rightarrow> bytes" where
  "unescape [] = []"
| "unescape (x # b) = (if unescapeAt (x # b) then 0 # 0 # unescape (drop 2 b) else x # unescape b)"
  by pat_completeness auto
termination
  by (relation "measure length") auto

subsection \<open>H.264\<close>

definition highProfile :: "nat \<Rightarrow> bool" where
  "highProfile profile \<longleftrightarrow> profile \<in> {100, 110, 122, 244, 44, 83, 86, 118, 128, 138, 139, 134, 135}"

fun scaleList :: "nat \<Rightarrow> int \<Rightarrow> int \<Rightarrow> rd \<Rightarrow> rd option" where
  "scaleList 0 prev nxt r = Some r"
| "scaleList (Suc j) prev nxt r =
     (if nxt \<noteq> 0 then
        do { (delta, r1) \<leftarrow> se r;
             let nxt1 = go_rem (prev + delta + 256) 256 in
             scaleList j (if nxt1 \<noteq> 0 then nxt1 else prev) nxt1 r1 }
      else scaleList j prev nxt r)"

fun scaleLists :: "nat list \<Rightarrow> rd \<Rightarrow> rd option" where
  "scaleLists [] r = Some r"
| "scaleLists (i # is) r =
     do { (present, r1) \<leftarrow> u 1 r;
          if present = 0 then scaleLists is r1
          else do { r2 \<leftarrow> scaleList (if i \<ge> 6 then 64 else 16) 8 8 r1; scaleLists is r2 } }"

definition skipScaling :: "nat \<Rightarrow> rd \<Rightarrow> rd option" where
  "skipScaling chroma r = scaleLists [0..<if chroma = 3 then 12 else 8] r"

text \<open>
  \<^verbatim>\<open>frameMBsOnly\<close> and \<^verbatim>\<open>spsSize\<close> read the first part of a parameter set the same way: up to the scaling
  lists, with the chroma format (1 when the profile does not say), and then the picture order count.
\<close>

definition spsHead :: "rd \<Rightarrow> (nat \<times> rd) option" where
  "spsHead r0 =
     do { (profile, r1) \<leftarrow> u 8 r0; (_, r2) \<leftarrow> u 8 r1; (_, r3) \<leftarrow> u 8 r2; (_, r4) \<leftarrow> ue r3;
          if highProfile profile then
            do { (chroma, r5) \<leftarrow> ue r4;
                 r6 \<leftarrow> (if chroma = 3 then map_option snd (u 1 r5) else Some r5);
                 (_, r7) \<leftarrow> ue r6; (_, r8) \<leftarrow> ue r7; (_, r9) \<leftarrow> u 1 r8; (present, r10) \<leftarrow> u 1 r9;
                 r11 \<leftarrow> (if present = 1 then skipScaling chroma r10 else Some r10);
                 Some (chroma, r11) }
          else Some (1, r4) }"

definition spsOrder :: "rd \<Rightarrow> rd option" where
  "spsOrder r0 =
     do { (_, r1) \<leftarrow> ue r0; (poc, r2) \<leftarrow> ue r1;
          if poc = 0 then map_option snd (ue r2)
          else if poc = 1 then
            do { (_, r3) \<leftarrow> u 1 r2; (_, r4) \<leftarrow> se r3; (_, r5) \<leftarrow> se r4; (n, r6) \<leftarrow> ue r5; skipSe n r6 }
          else Some r2 }"

definition frameMBsOnly :: "bytes \<Rightarrow> bool option" where
  "frameMBsOnly rbsp =
     do { (_, r1) \<leftarrow> spsHead (rbsp, 0); r2 \<leftarrow> spsOrder r1;
          (_, r3) \<leftarrow> ue r2; (_, r4) \<leftarrow> u 1 r3; (_, r5) \<leftarrow> ue r4; (_, r6) \<leftarrow> ue r5; (flag, _) \<leftarrow> u 1 r6;
          Some (flag = 1) }"

definition cropUnits :: "nat \<Rightarrow> nat \<Rightarrow> int \<times> int" where
  "cropUnits chroma frame =
     (if chroma = 0 then (1, 2 - int frame)
      else
        let (subW, subH) = (if chroma = 1 then (2, 2) else if chroma = 2 then (2, 1) else (1, 1))
        in (subW, subH * (2 - int frame)))"

text \<open>The crop flag and the crop of a size.\<close>

definition spsCrop :: "nat \<Rightarrow> nat \<Rightarrow> int \<Rightarrow> int \<Rightarrow> rd \<Rightarrow> ((int \<times> int) \<times> rd) option" where
  "spsCrop chroma frame w h r9 =
     do { (crop, r10) \<leftarrow> u 1 r9;
          if crop = 1 then
            do { (left, r11) \<leftarrow> ue r10; (right, r12) \<leftarrow> ue r11; (top, r13) \<leftarrow> ue r12; (bottom, r14) \<leftarrow> ue r13;
                 Some ((w - int (left + right) * fst (cropUnits chroma frame), h - int (top + bottom) * snd (cropUnits chroma frame)), r14) }
          else Some ((w, h), r10) }"

text \<open>The cropped size, and the reader at the VUI flag.\<close>

definition spsSize :: "rd \<Rightarrow> ((int \<times> int) \<times> rd) option" where
  "spsSize r0 =
     do { (chroma, r1) \<leftarrow> spsHead r0; r2 \<leftarrow> spsOrder r1;
          (_, r3) \<leftarrow> ue r2; (_, r4) \<leftarrow> u 1 r3; (mbW, r5) \<leftarrow> ue r4; (mbH, r6) \<leftarrow> ue r5; (frame, r7) \<leftarrow> u 1 r6;
          r8 \<leftarrow> (if frame = 0 then map_option snd (u 1 r7) else Some r7);
          (_, r9) \<leftarrow> u 1 r8;
          (wh, r10) \<leftarrow> spsCrop chroma frame (int (mbW + 1) * 16) (int (mbH + 1) * 16 * (if frame = 0 then 2 else 1)) r9;
          if fst wh < 16 \<or> snd wh < 16 then None else Some (wh, r10) }"

definition rateName :: "rat \<Rightarrow> string" where
  "rateName fps =
     (case find (\<lambda>(known, name). \<bar>fps - known\<bar> < 5 / 1000)
        [(23976 / 1000, ''23.976''), (24, ''24''), (25, ''25''), (2997 / 100, ''29.97''), (30, ''30''), (50, ''50''),
         (5994 / 100, ''59.94''), (60, ''60''), (125 / 10, ''12.5'')] of
        Some (known, name) \<Rightarrow> name
      | None \<Rightarrow> [])"

text \<open>The timing of the VUI, units and scale; None where \<^verbatim>\<open>vuiRate\<close> returns the empty string before the division.\<close>

definition vuiTiming :: "rd \<Rightarrow> (nat \<times> nat) option" where
  "vuiTiming r0 =
     do { (vui, r1) \<leftarrow> u 1 r0;
          if vui = 0 then None
          else do { (aspect, r2) \<leftarrow> u 1 r1;
            r3 \<leftarrow> (if aspect = 1 then do { (idc, r) \<leftarrow> u 8 r2; if idc = 255 then map_option snd (u 32 r) else Some r } else Some r2);
            (overscan, r4) \<leftarrow> u 1 r3;
            r5 \<leftarrow> (if overscan = 1 then map_option snd (u 1 r4) else Some r4);
            (signal, r6) \<leftarrow> u 1 r5;
            r7 \<leftarrow> (if signal = 1 then
                     do { (_, r) \<leftarrow> u 4 r6; (colour, ra) \<leftarrow> u 1 r; if colour = 1 then map_option snd (u 24 ra) else Some ra }
                   else Some r6);
            (chromaLoc, r8) \<leftarrow> u 1 r7;
            r9 \<leftarrow> (if chromaLoc = 1 then do { (_, r) \<leftarrow> ue r8; map_option snd (ue r) } else Some r8);
            (timing, r10) \<leftarrow> u 1 r9;
            if timing = 0 then None
            else do { (units, r11) \<leftarrow> u 32 r10; (scale, r12) \<leftarrow> u 32 r11;
                      if units = 0 \<or> scale = 0 then None else Some (units, scale) } } }"

definition vuiRate :: "rd \<Rightarrow> string" where
  "vuiRate r = (case vuiTiming r of None \<Rightarrow> [] | Some (units, scale) \<Rightarrow> rateName (of_nat scale / of_nat (2 * units)))"

text \<open>A start code at a position, as every loop over an elementary stream tests it.\<close>

definition startCode :: "bytes \<Rightarrow> nat \<Rightarrow> bool" where
  "startCode es i \<longleftrightarrow> \<not> (es ! i \<noteq> 0 \<or> es ! (i + 1) \<noteq> 0 \<or> es ! (i + 2) \<noteq> 1)"

function h264ScanFrom :: "bytes \<Rightarrow> nat \<Rightarrow> string option" where
  "h264ScanFrom es i =
     (if i + 5 < length es then
        if \<not> startCode es i \<or> es ! (i + 3) AND 0x1f \<noteq> 7 then h264ScanFrom es (i + 1)
        else
          (case frameMBsOnly (unescape (drop (i + 4) es)) of
             Some flag \<Rightarrow> Some (if flag then ''progressive'' else ''tt'')
           | None \<Rightarrow> h264ScanFrom es (i + 1))
      else None)"
  by pat_completeness auto
termination
  by (relation "measure (\<lambda>(es, i). length es - i)") auto

declare h264ScanFrom.simps [simp del]

definition h264Scan :: "bytes \<Rightarrow> string option" where
  "h264Scan es = h264ScanFrom es 0"

record notedPicture =
  np_Width :: int
  np_Height :: int
  np_FPS :: string

definition sizeOK :: "int \<Rightarrow> int \<Rightarrow> bool" where
  "sizeOK w h \<longleftrightarrow> w \<ge> 16 \<and> h \<ge> 16 \<and> w \<le> 7680 \<and> h \<le> 4320"

function h264PictureFrom :: "bytes \<Rightarrow> nat \<Rightarrow> notedPicture option" where
  "h264PictureFrom es i =
     (if i + 5 < length es then
        if \<not> startCode es i \<or> es ! (i + 3) AND 0x1f \<noteq> 7 then h264PictureFrom es (i + 1)
        else
          (case spsSize (unescape (drop (i + 4) es), 0) of
             Some ((w, h), r) \<Rightarrow>
               if sizeOK w h then Some \<lparr>np_Width = w, np_Height = h, np_FPS = vuiRate r\<rparr> else h264PictureFrom es (i + 1)
           | None \<Rightarrow> h264PictureFrom es (i + 1))
      else None)"
  by pat_completeness auto
termination
  by (relation "measure (\<lambda>(es, i). length es - i)") auto

declare h264PictureFrom.simps [simp del]

definition h264Picture :: "bytes \<Rightarrow> notedPicture option" where
  "h264Picture es = h264PictureFrom es 0"

end
