(* ===== verification/ScanHevc.thy ===== *)
theory ScanHevc
  imports Scan
begin

text \<open>
  MPEG-2 and HEVC headers, and what the whole buffer says: the rest of the pure part of
  \<^verbatim>\<open>server/internal/live/scantype.go\<close>.
\<close>

subsection \<open>MPEG-2\<close>

record mpegCounts =
  mc_sawSeq :: bool
  mc_progressive :: bool
  mc_pics :: nat
  mc_prog :: nat
  mc_rff :: nat
  mc_interlaced :: bool

definition noCounts :: mpegCounts where
  "noCounts = \<lparr>mc_sawSeq = False, mc_progressive = False, mc_pics = 0, mc_prog = 0, mc_rff = 0, mc_interlaced = False\<rparr>"

definition extensionAt :: "bytes \<Rightarrow> nat \<Rightarrow> mpegCounts \<Rightarrow> mpegCounts" where
  "extensionAt es i c =
     (let kind = drop_bit 4 (es ! (i + 4)) in
      if kind = 1 then c\<lparr>mc_sawSeq := True, mc_progressive := (es ! (i + 5) AND 0x08 \<noteq> 0)\<rparr>
      else if kind = 8 then
        let c1 = c\<lparr>mc_pics := mc_pics c + 1\<rparr> in
        if es ! (i + 8) AND 0x80 \<noteq> 0 then
          let c2 = c1\<lparr>mc_prog := mc_prog c1 + 1\<rparr>
          in if es ! (i + 7) AND 0x02 \<noteq> 0 then c2\<lparr>mc_rff := mc_rff c2 + 1\<rparr> else c2
        else c1\<lparr>mc_interlaced := True\<rparr>
      else c)"

function mpegFrom :: "bytes \<Rightarrow> nat \<Rightarrow> mpegCounts \<Rightarrow> mpegCounts" where
  "mpegFrom es i c =
     (if i + 8 < length es then
        mpegFrom es (i + 1) (if \<not> startCode es i \<or> es ! (i + 3) \<noteq> 0xB5 then c else extensionAt es i c)
      else c)"
  by pat_completeness auto
termination
  by (relation "measure (\<lambda>(es, i, c). length es - i)") auto

declare mpegFrom.simps [simp del]

definition filmCadence :: "nat \<Rightarrow> nat \<Rightarrow> nat \<Rightarrow> bool" where
  "filmCadence pics prog rff =
     (if pics < 4 \<or> prog \<noteq> pics \<or> rff = 0 \<or> rff = pics then False
      else let ratio = of_nat rff / of_nat pics :: rat in ratio \<ge> 25 / 100 \<and> ratio \<le> 75 / 100)"

definition mpeg2Scan :: "bytes \<Rightarrow> string option" where
  "mpeg2Scan es =
     (let c = mpegFrom es 0 noCounts in
      if mc_progressive c then Some ''progressive''
      else if mc_interlaced c then Some ''tt''
      else if filmCadence (mc_pics c) (mc_prog c) (mc_rff c) then Some ''film''
      else if mc_sawSeq c \<and> mc_pics c \<ge> 8 then Some ''tt''
      else None)"

definition mpeg2Rate :: "byte \<Rightarrow> string" where
  "mpeg2Rate code =
     (case map_of [(1, ''23.976''), (2, ''24''), (3, ''25''), (4, ''29.97''), (5, ''30''), (6, ''50''), (7, ''59.94''), (8, ''60'')] code of
        Some name \<Rightarrow> name
      | None \<Rightarrow> [])"

function mpeg2PictureFrom :: "bytes \<Rightarrow> nat \<Rightarrow> notedPicture option" where
  "mpeg2PictureFrom es i =
     (if i + 7 < length es then
        if \<not> startCode es i \<or> es ! (i + 3) \<noteq> 0xB3 then mpeg2PictureFrom es (i + 1)
        else
          let w = push_bit 4 (uint (es ! (i + 4))) OR uint (drop_bit 4 (es ! (i + 5)));
              h = int (be16 (es ! (i + 5) AND 0x0f) (es ! (i + 6)));
              fps = mpeg2Rate (es ! (i + 7) AND 0x0f)
          in if sizeOK w h then Some \<lparr>np_Width = w, np_Height = h, np_FPS = fps\<rparr> else mpeg2PictureFrom es (i + 1)
      else None)"
  by pat_completeness auto
termination
  by (relation "measure (\<lambda>(es, i). length es - i)") auto

declare mpeg2PictureFrom.simps [simp del]

definition mpeg2Picture :: "bytes \<Rightarrow> notedPicture option" where
  "mpeg2Picture es = mpeg2PictureFrom es 0"

subsection \<open>HEVC\<close>

text \<open>
  \<^verbatim>\<open>hevcBits\<close>: the reader and \<^verbatim>\<open>bad\<close>. Once bad it stays bad and every read gives zero, so where the reader
  stands then does not matter.
\<close>

record hevcBits =
  hb_r :: rd
  hb_bad :: bool

definition lift_read :: "(rd \<Rightarrow> ('a \<times> rd) option) \<Rightarrow> 'a \<Rightarrow> (hevcBits, 'a) state" where
  "lift_read f zero = State (\<lambda>b.
     if hb_bad b then (zero, b)
     else (case f (hb_r b) of None \<Rightarrow> (zero, b\<lparr>hb_bad := True\<rparr>) | Some (v, r) \<Rightarrow> (v, b\<lparr>hb_r := r\<rparr>)))"

definition skipBits :: "nat \<Rightarrow> rd \<Rightarrow> (nat \<times> rd) option" where
  "skipBits n r = (let (b, off) = r in if off + n > length b * 8 then None else Some (0, (b, off + n)))"

definition hu :: "nat \<Rightarrow> (hevcBits, nat) state" where
  "hu n = lift_read (if n > 32 then skipBits n else u n) 0"

definition hue :: "(hevcBits, nat) state" where
  "hue = lift_read ue 0"

definition hse :: "(hevcBits, unit) state" where
  "hse = lift_read (\<lambda>r. map_option (\<lambda>(_, r1). ((), r1)) (se r)) ()"

definition isBad :: "(hevcBits, bool) state" where
  "isBad = State (\<lambda>b. (hb_bad b, b))"

definition setBad :: "(hevcBits, unit) state" where
  "setBad = State (\<lambda>b. ((), b\<lparr>hb_bad := True\<rparr>))"

text \<open>\<open>n\<close> rounds; \<open>untilBad\<close> is a loop whose condition also reads \<^verbatim>\<open>!b.bad\<close>.\<close>

primrec rounds :: "nat \<Rightarrow> (hevcBits, 'a) state \<Rightarrow> (hevcBits, unit) state" where
  "rounds 0 m = State_Monad.return ()"
| "rounds (Suc n) m = do { m; rounds n m }"

primrec untilBad :: "nat \<Rightarrow> (hevcBits, 'a) state \<Rightarrow> (hevcBits, unit) state" where
  "untilBad 0 m = State_Monad.return ()"
| "untilBad (Suc n) m = do { bad \<leftarrow> isBad; if bad then State_Monad.return () else do { m; untilBad n m } }"

primrec flagPairs :: "nat \<Rightarrow> (hevcBits, (nat \<times> nat) list) state" where
  "flagPairs 0 = State_Monad.return []"
| "flagPairs (Suc n) = do { p \<leftarrow> hu 1; l \<leftarrow> hu 1; rest \<leftarrow> flagPairs n; State_Monad.return ((p, l) # rest) }"

primrec skipLayers :: "(nat \<times> nat) list \<Rightarrow> (hevcBits, unit) state" where
  "skipLayers [] = State_Monad.return ()"
| "skipLayers (pl # pls) = do { hu (88 * fst pl + 8 * snd pl); skipLayers pls }"

definition skipPTL :: "nat \<Rightarrow> (hevcBits, unit) state" where
  "skipPTL sub =
     do { hu (88 + 8);
          pls \<leftarrow> flagPairs (min sub 8);
          (if sub > 0 then do { hu (2 * (8 - sub)); State_Monad.return () } else State_Monad.return ());
          skipLayers pls }"

definition scalingMatrix :: "nat \<Rightarrow> (hevcBits, unit) state" where
  "scalingMatrix sz =
     do { pred \<leftarrow> hu 1;
          if pred = 0 then do { hue; State_Monad.return () }
          else do { (if sz > 1 then hse else State_Monad.return ()); rounds (min 64 (2 ^ (4 + 2 * sz))) hse } }"

definition skipScalingList :: "(hevcBits, unit) state" where
  "skipScalingList =
     do { untilBad 6 (scalingMatrix 0); untilBad 6 (scalingMatrix 1); untilBad 6 (scalingMatrix 2); untilBad 2 (scalingMatrix 3) }"

text \<open>The flags of a set predicted from one of \<open>n - 1\<close> pictures: how many it keeps.\<close>

primrec keptPictures :: "nat \<Rightarrow> nat \<Rightarrow> (hevcBits, nat) state" where
  "keptPictures 0 kept = State_Monad.return kept"
| "keptPictures (Suc n) kept =
     do { bad \<leftarrow> isBad;
          if bad then State_Monad.return kept
          else do { used \<leftarrow> hu 1;
                    delta \<leftarrow> (if used = 1 then State_Monad.return 1 else hu 1);
                    keptPictures n (if used = 1 \<or> delta = 1 then kept + 1 else kept) } }"

text \<open>\<open>n\<close> sets to go, after one of \<open>prev\<close> pictures (\<open>first\<close> when there is none before it).\<close>

primrec termSets :: "nat \<Rightarrow> bool \<Rightarrow> nat \<Rightarrow> (hevcBits, unit) state" where
  "termSets 0 first prev = State_Monad.return ()"
| "termSets (Suc n) first prev =
     do { bad \<leftarrow> isBad;
          if bad then State_Monad.return ()
          else do { predicted \<leftarrow> (if first then State_Monad.return 0 else hu 1);
            if predicted = 1 then
              do { hu 1; hue; kept \<leftarrow> keptPictures (prev + 1) 0; termSets n False kept }
            else
              do { neg \<leftarrow> hue; pos \<leftarrow> hue;
                   if neg > 16 \<or> pos > 16 then setBad
                   else do { rounds (neg + pos) (do { hue; hu 1 }); termSets n False (neg + pos) } } } }"

definition skipShortTermSets :: "nat \<Rightarrow> (hevcBits, unit) state" where
  "skipShortTermSets n = (if n > 64 then setBad else termSets n True 0)"

record hevcSPSFacts =
  hs_w :: int
  hs_h :: int
  hs_vui :: bool
  hs_fields :: bool
  hs_units :: nat
  hs_scale :: nat

text \<open>\<^verbatim>\<open>hevcSPS\<close> in its three parts: the size, the walk to the VUI, the VUI.\<close>

definition hevcSize :: "(hevcBits, nat \<times> int \<times> int) state" where
  "hevcSize =
     do { hu 4; sub \<leftarrow> hu 3; hu 1; skipPTL sub; hue; chroma \<leftarrow> hue;
          (if chroma = 3 then hu 1 else State_Monad.return 0);
          w \<leftarrow> hue; h \<leftarrow> hue; window \<leftarrow> hu 1;
          if window = 1 then
            do { c0 \<leftarrow> hue; c1 \<leftarrow> hue; c2 \<leftarrow> hue; c3 \<leftarrow> hue;
                 let (sx, sy) = (if chroma = 1 then (2, 2) else if chroma = 2 then (2, 1) else (1, 1)) in
                 State_Monad.return (sub, int w - sx * int (c0 + c1), int h - sy * int (c2 + c3)) }
          else State_Monad.return (sub, int w, int h) }"

definition hevcToVUI :: "nat \<Rightarrow> (hevcBits, unit) state" where
  "hevcToVUI sub =
     do { hue; hue; poc \<leftarrow> hue; every \<leftarrow> hu 1;
          untilBad (sub + 1 - (if every = 1 then 0 else sub)) (do { hue; hue; hue });
          rounds 6 hue;
          scaling \<leftarrow> hu 1; present \<leftarrow> (if scaling = 1 then hu 1 else State_Monad.return 0);
          (if scaling = 1 \<and> present = 1 then skipScalingList else State_Monad.return ());
          hu 2; pcm \<leftarrow> hu 1;
          (if pcm = 1 then do { hu 8; hue; hue; hu 1; State_Monad.return () } else State_Monad.return ());
          n \<leftarrow> hue; skipShortTermSets n;
          long \<leftarrow> hu 1;
          (if long = 1 then do { m \<leftarrow> hue; untilBad m (hu (poc + 4 + 1)) } else State_Monad.return ());
          hu 2; State_Monad.return () }"

definition hevcVUI :: "hevcSPSFacts \<Rightarrow> (hevcBits, hevcSPSFacts) state" where
  "hevcVUI facts =
     do { aspect \<leftarrow> hu 1; idc \<leftarrow> (if aspect = 1 then hu 8 else State_Monad.return 0);
          (if aspect = 1 \<and> idc = 255 then hu 32 else State_Monad.return 0);
          overscan \<leftarrow> hu 1; (if overscan = 1 then hu 1 else State_Monad.return 0);
          signal \<leftarrow> hu 1;
          (if signal = 1 then do { hu 4; colour \<leftarrow> hu 1; if colour = 1 then hu 24 else State_Monad.return 0 } else State_Monad.return 0);
          chromaLoc \<leftarrow> hu 1; (if chromaLoc = 1 then do { hue; hue } else State_Monad.return 0);
          hu 1; fields \<leftarrow> hu 1; hu 1;
          display \<leftarrow> hu 1; (if display = 1 then rounds 4 hue else State_Monad.return ());
          timing \<leftarrow> hu 1;
          (units, scale) \<leftarrow> (if timing = 1 then do { a \<leftarrow> hu 32; b \<leftarrow> hu 32; State_Monad.return (a, b) } else State_Monad.return (0, 0));
          bad \<leftarrow> isBad;
          State_Monad.return (if bad then facts
                              else facts\<lparr>hs_vui := True, hs_fields := (fields = 1), hs_units := units, hs_scale := scale\<rparr>) }"

definition hevcWalk :: "(hevcBits, hevcSPSFacts option) state" where
  "hevcWalk =
     do { (sub, w, h) \<leftarrow> hevcSize; bad \<leftarrow> isBad;
          if bad \<or> w \<le> 0 \<or> h \<le> 0 then State_Monad.return None
          else do {
            let facts = \<lparr>hs_w = w, hs_h = h, hs_vui = False, hs_fields = False, hs_units = 0, hs_scale = 0\<rparr> in
            do { hevcToVUI sub; vui \<leftarrow> hu 1;
                 if vui = 0 then do { bad2 \<leftarrow> isBad; State_Monad.return (Some (facts\<lparr>hs_vui := \<not> bad2\<rparr>)) }
                 else do { f \<leftarrow> hevcVUI facts; State_Monad.return (Some f) } } } }"

definition run_bits :: "(hevcBits, 'a) state \<Rightarrow> bytes \<Rightarrow> 'a" where
  "run_bits m b = fst (run_state m \<lparr>hb_r = (b, 0), hb_bad = False\<rparr>)"

definition hevcSPS :: "bytes \<Rightarrow> hevcSPSFacts option" where
  "hevcSPS rbsp = run_bits hevcWalk rbsp"

definition hevcVPS :: "(hevcBits, nat \<times> nat) state" where
  "hevcVPS =
     do { hu 12; sub \<leftarrow> hu 3; hu 17; skipPTL sub; every \<leftarrow> hu 1;
          untilBad (sub + 1 - (if every = 1 then 0 else sub)) (do { hue; hue; hue });
          maxLayer \<leftarrow> hu 6; sets \<leftarrow> hue;
          if sets > 1023 then State_Monad.return (0, 0)
          else do { hu (sets * (maxLayer + 1)); timing \<leftarrow> hu 1;
                    (units, scale) \<leftarrow> (if timing = 1 then do { a \<leftarrow> hu 32; b \<leftarrow> hu 32; State_Monad.return (a, b) } else State_Monad.return (0, 0));
                    bad \<leftarrow> isBad;
                    State_Monad.return (if bad then (0, 0) else (units, scale)) } }"

definition nalIs :: "byte \<Rightarrow> nat \<Rightarrow> bool" where
  "nalIs x kind \<longleftrightarrow> unat (drop_bit 1 x AND 0x3f) = kind"

function vpsFrom :: "bytes \<Rightarrow> nat \<Rightarrow> nat \<times> nat" where
  "vpsFrom es i =
     (if i + 6 < length es then
        if \<not> startCode es i \<or> \<not> nalIs (es ! (i + 3)) 32 then vpsFrom es (i + 1)
        else run_bits hevcVPS (unescape (drop (i + 5) es))
      else (0, 0))"
  by pat_completeness auto
termination
  by (relation "measure (\<lambda>(es, i). length es - i)") auto

declare vpsFrom.simps [simp del]

definition hevcVPSTiming :: "bytes \<Rightarrow> nat \<times> nat" where
  "hevcVPSTiming es = vpsFrom es 0"

definition hevcRate :: "nat \<Rightarrow> nat \<Rightarrow> bool \<Rightarrow> string" where
  "hevcRate units scale fielded =
     (if units = 0 \<or> scale = 0 then []
      else let fps = of_nat scale / of_nat units in rateName (if fielded then fps / 2 else fps))"

definition hevcFPS :: "bytes \<Rightarrow> hevcSPSFacts \<Rightarrow> string" where
  "hevcFPS es sps =
     (if hs_vui sps then
        let (units, scale) = (if hs_units sps = 0 then hevcVPSTiming es else (hs_units sps, hs_scale sps))
        in hevcRate units scale (hs_fields sps)
      else [])"

function hevcPictureFrom :: "bytes \<Rightarrow> nat \<Rightarrow> notedPicture option" where
  "hevcPictureFrom es i =
     (if i + 6 < length es then
        if \<not> startCode es i \<or> \<not> nalIs (es ! (i + 3)) 33 then hevcPictureFrom es (i + 1)
        else
          (case hevcSPS (unescape (drop (i + 5) es)) of
             None \<Rightarrow> hevcPictureFrom es (i + 1)
           | Some sps \<Rightarrow>
               if hs_w sps < 16 \<or> hs_h sps < 16 \<or> hs_w sps > 7680 \<or> hs_h sps > 4320 then hevcPictureFrom es (i + 1)
               else Some \<lparr>np_Width = hs_w sps, np_Height = hs_h sps, np_FPS = hevcFPS es sps\<rparr>)
      else None)"
  by pat_completeness auto
termination
  by (relation "measure (\<lambda>(es, i). length es - i)") auto

declare hevcPictureFrom.simps [simp del]

definition hevcPicture :: "bytes \<Rightarrow> notedPicture option" where
  "hevcPicture es = hevcPictureFrom es 0"

subsection \<open>A buffer of the stream\<close>

text \<open>\<^verbatim>\<open>bytes.IndexByte(data, 0x47)\<close>, and the packet boundary it moves the buffer to.\<close>

definition fromSync :: "bytes \<Rightarrow> bytes" where
  "fromSync data =
     (case find (\<lambda>i. data ! i = 0x47) [0..<length data] of
        Some i \<Rightarrow> if i > 0 \<and> i < 188 then drop i data else data
      | None \<Rightarrow> data)"

definition scanES :: "nat \<Rightarrow> bytes \<Rightarrow> string option" where
  "scanES kind es =
     (if kind = streamMPEG2 then mpeg2Scan es
      else if kind = streamH264 then h264Scan es
      else if kind = streamHEVC then (if hevcPicture es \<noteq> None then Some ''progressive'' else None)
      else None)"

text \<open>The outer option is the index out of range, the inner one \<^verbatim>\<open>ok\<close>.\<close>

definition scanType :: "bytes \<Rightarrow> int \<Rightarrow> string option option" where
  "scanType data0 program =
     (let data = fromSync data0 in
      do { (pmt, video, kind) \<leftarrow> programVideo data program;
           Some (if video = 0 \<or> (pmt = 0 \<and> program \<noteq> 0) then None else scanES kind (elementary data video)) })"

definition pictureFacts :: "bytes \<Rightarrow> int \<Rightarrow> notedPicture option option" where
  "pictureFacts data0 program =
     (let data = fromSync data0 in
      do { (pmt, video, kind) \<leftarrow> programVideo data program;
           Some (if video = 0 then None
                 else
                   let es = elementary data video in
                   if kind = streamMPEG2 then mpeg2Picture es
                   else if kind = streamH264 then h264Picture es
                   else if kind = streamHEVC then hevcPicture es
                   else None) })"

definition headerRate :: "bytes \<Rightarrow> int \<Rightarrow> string option" where
  "headerRate data program = map_option (\<lambda>p. case p of Some np \<Rightarrow> np_FPS np | None \<Rightarrow> []) (pictureFacts data program)"

definition storedFieldOrder :: "string \<Rightarrow> string" where
  "storedFieldOrder order = (if order = ''film'' then ''tt'' else order)"

definition interlacedOrder :: "string \<Rightarrow> bool" where
  "interlacedOrder order \<longleftrightarrow> order \<in> {''tt'', ''bb'', ''tb'', ''bt''}"

end
