(* ===== verification/SpsProps.thy ===== *)
theory SpsProps
  imports ScanProps CaptionsProps
begin

text \<open>
  An H.264 parameter set written by the standard reads back. The reads of a header compose by \<open>reads\<close>: a
  reader that takes exactly the bits \<open>w\<close> of whatever follows. The locale \<open>field\<close> is the contract
  between one syntax element and its reader.
\<close>

subsection \<open>Two copies of one function\<close>



subsection \<open>Readers and the bits they take\<close>






















subsection \<open>Syntax elements\<close>

definition uBits :: "nat \<Rightarrow> nat \<Rightarrow> bool list" where
  "uBits n v = map (bit v) (rev [0..<n])"





lemma length_uBits [simp]: "length (uBits n v) = n"
  by (simp add: uBits_def)













subsection \<open>A parameter set\<close>




















subsection \<open>The VUI\<close>








subsection \<open>Properties\<close>












end
