(* ===== verification/ProgramFilter.thy ===== *)
theory ProgramFilter
  imports ScanTables
begin

text \<open>
  The pipe that narrows a multiplex to one program for an encoder:
  \<^verbatim>\<open>server/internal/live/programfilter.go\<close>. A Write returns the pipe, the bytes it wrote to the encoder's input and
  whether it told \<^verbatim>\<open>onBreak\<close>; None is an index out of range. The clock on the wall is read once per Write
  (\<open>now\<close>); what a write to the encoder returns changes nothing in the pipe and is left out, as is the log.
\<close>

definition programFilterCap :: nat where "programFilterCap = 2 * 1024 * 1024"
definition tailCap :: nat where "tailCap = 16 * 1024 * 1024"
abbreviation (input) breakLimit :: nat where "breakLimit \<equiv> 5"
abbreviation (input) pesJump :: int where "pesJump \<equiv> 900000"
abbreviation (input) pesAgree :: nat where "pesAgree \<equiv> 3"
abbreviation (input) pesBack :: int where "pesBack \<equiv> 90000"

record pesCount =
  pc_sound :: nat
  pc_video :: nat
  pc_heard :: nat

record pesClock =
  ck_last :: int
  ck_cand :: int
  ck_agree :: nat
  ck_dropping :: bool
  ck_shift :: byte

text \<open>\<open>pp_restart\<close>: \<^verbatim>\<open>onBreak\<close> and \<^verbatim>\<open>sw\<close> are set. A map from PIDs to \<^verbatim>\<open>true\<close> is the list of its keys.\<close>

record programPipe =
  pp_program :: int
  pp_ready :: bool
  pp_pass :: bool
  pp_synced :: bool
  pp_keep :: "nat list"
  pp_pmtPID :: nat
  pp_pmtVer :: int
  pp_pmtPkts :: bytes
  pp_video :: nat
  pp_kind :: nat
  pp_started :: bool
  pp_skipped :: nat
  pp_pat :: bytes
  pp_cc :: byte
  pp_hold :: bytes
  pp_rest :: bytes
  pp_clocks :: "nat \<rightharpoonup> pesClock"
  pp_warned :: gotime
  pp_restart :: bool
  pp_broken :: bool
  pp_catching :: bool
  pp_pending :: bytes
  pp_tail :: bytes
  pp_breaks :: "gotime list"
  pp_count :: "pesCount option"

definition silent :: "pesCount option \<Rightarrow> bool" where
  "silent c = (case c of None \<Rightarrow> False | Some n \<Rightarrow> pc_sound n > 0 \<and> pc_video n \<ge> 20 \<and> pc_heard n = 0)"

definition newPipe :: "int \<Rightarrow> bool \<Rightarrow> gotime list \<Rightarrow> pesCount option \<Rightarrow> programPipe" where
  "newPipe program restart breaks cnt =
     \<lparr>pp_program = program, pp_ready = False, pp_pass = False, pp_synced = False, pp_keep = [], pp_pmtPID = 0, pp_pmtVer = -1,
      pp_pmtPkts = [], pp_video = 0, pp_kind = 0, pp_started = False, pp_skipped = 0, pp_pat = replicate 188 0, pp_cc = 0,
      pp_hold = [], pp_rest = [], pp_clocks = Map.empty, pp_warned = 0, pp_restart = restart, pp_broken = False, pp_catching = False,
      pp_pending = [], pp_tail = [], pp_breaks = breaks, pp_count = cnt\<rparr>"

subsection \<open>Packets\<close>

definition syncAt :: "bytes \<Rightarrow> nat \<Rightarrow> bool" where
  "syncAt data i \<longleftrightarrow> (\<forall>k \<in> {0, 1, 2}. data ! (i + 188 * k) = 0x47)"

text \<open>\<^verbatim>\<open>syncOffset(data, 3)\<close>; None is -1.\<close>

definition syncOffset :: "bytes \<Rightarrow> nat option" where
  "syncOffset data = find (syncAt data) [0..<length data - 376]"

text \<open>The whole packets and what is left for the next write.\<close>

function packetsOf :: "bytes \<Rightarrow> nat \<Rightarrow> bytes \<Rightarrow> bytes \<times> bytes" where
  "packetsOf data off out =
     (if off + 376 < length data then
        if data ! off \<noteq> 0x47 \<or> data ! (off + 188) \<noteq> 0x47 \<or> data ! (off + 376) \<noteq> 0x47 then packetsOf data (off + 1) out
        else packetsOf data (off + 188) (out @ take 188 (drop off data))
      else (out, drop off data))"
  by pat_completeness auto
termination
  by (relation "measure (\<lambda>(data, off, out). length data - off)") auto

declare packetsOf.simps [simp del]

definition tsPayload :: "bytes \<Rightarrow> bytes" where
  "tsPayload pkt =
     (let afc = drop_bit 4 (pkt ! 3) AND 3 in
      if afc = 1 then drop 4 pkt
      else if afc = 3 then (if 5 + unat (pkt ! 4) \<le> length pkt then drop (5 + unat (pkt ! 4)) pkt else [])
      else [])"

definition sequenceAt :: "nat \<Rightarrow> bytes \<Rightarrow> nat \<Rightarrow> bool" where
  "sequenceAt kind es i \<longleftrightarrow>
     es ! i = 0 \<and> es ! (i + 1) = 0 \<and> es ! (i + 2) = 1 \<and>
     (kind = streamMPEG2 \<and> es ! (i + 3) = 0xb3 \<or>
      kind = streamH264 \<and> es ! (i + 3) AND 0x1f = 7 \<or>
      kind = streamHEVC \<and> drop_bit 1 (es ! (i + 3)) AND 0x3f \<in> {32, 33})"

definition sequenceStart :: "bytes \<Rightarrow> nat \<Rightarrow> bool" where
  "sequenceStart payload kind = (let es = pesPayload payload in \<exists>i \<in> set [0..<length es - 3]. sequenceAt kind es i)"

definition ptsField :: "bytes \<Rightarrow> int" where
  "ptsField b =
     push_bit 30 (uint (drop_bit 1 (b ! 0) AND 0x07)) OR push_bit 22 (uint (b ! 1)) OR push_bit 15 (uint (drop_bit 1 (b ! 2)))
     OR push_bit 7 (uint (b ! 3)) OR uint (drop_bit 1 (b ! 4))"

definition pesTime :: "bytes \<Rightarrow> int option" where
  "pesTime b =
     (if length b < 14 \<or> b ! 0 \<noteq> 0 \<or> b ! 1 \<noteq> 0 \<or> b ! 2 \<noteq> 1 then None
      else if \<not> (b ! 3 = 0xbd \<or> b ! 3 \<ge> 0xc0 \<and> b ! 3 \<le> 0xef) then None
      else if drop_bit 6 (b ! 7) = 2 then Some (ptsField (drop 9 b))
      else if drop_bit 6 (b ! 7) = 3 then (if length b < 19 then None else Some (ptsField (drop 14 b)))
      else None)"

definition ptsDelta :: "int \<Rightarrow> int \<Rightarrow> int" where
  "ptsDelta a b = (let d = (a - b) AND (2 ^ 33 - 1) in if d \<ge> 2 ^ 32 then d - 2 ^ 33 else d)"

definition ptsGap :: "int \<Rightarrow> int \<Rightarrow> int" where
  "ptsGap a b = (let d = ptsDelta a b in if d < 0 then - d else d)"

subsection \<open>Tables\<close>

definition pmtElementary :: "bytes \<Rightarrow> nat list option" where
  "pmtElementary sec = map_option (filter (\<lambda>p. p \<noteq> 0 \<and> p \<noteq> 0x1FFF) \<circ> map snd) (pmtStreams sec)"

definition pmtSound :: "bytes \<Rightarrow> nat option" where
  "pmtSound sec =
     map_option (\<lambda>ss. case find (\<lambda>(t, p). t \<in> {0x03, 0x04, 0x0f, 0x11, 0x81, 0x87}) ss of Some (t, p) \<Rightarrow> p | None \<Rightarrow> 0) (pmtStreams sec)"

definition pmtVersion :: "bytes \<Rightarrow> int option" where
  "pmtVersion pkt =
     (let payload = tsPayload pkt in
      if length payload < 7 then None
      else
        let off = 1 + unat (payload ! 0) in
        if off + 6 > length payload \<or> payload ! off \<noteq> 0x02 then None
        else Some (uint (drop_bit 1 (payload ! (off + 5)) AND 0x1f)))"

text \<open>\<^verbatim>\<open>mpegCRC\<close> over the table of its 256 remainders.\<close>

definition crcStep :: "32 word \<Rightarrow> 32 word" where
  "crcStep crc = (if crc AND 0x80000000 \<noteq> 0 then push_bit 1 crc XOR 0x04c11db7 else push_bit 1 crc)"

definition mpegCRCTable :: "byte \<Rightarrow> 32 word" where
  "mpegCRCTable i = (crcStep ^^ 8) (push_bit 24 (ucast i))"

definition mpegCRC :: "bytes \<Rightarrow> 32 word" where
  "mpegCRC data = foldl (\<lambda>crc b. push_bit 8 crc XOR mpegCRCTable (ucast (drop_bit 24 crc) XOR b)) 0xffffffff data"

definition singleProgramPAT :: "int \<Rightarrow> nat \<Rightarrow> nat \<Rightarrow> bytes" where
  "singleProgramPAT program pmtPID tsID =
     (let body = [of_nat (tsID div 256), of_nat tsID, 0xc1, 0x00, 0x00, word_of_int (program div 256), word_of_int program,
                  0xe0 OR of_nat (pmtPID div 256), of_nat pmtPID];
          n = length body + 4;
          sec = [0x00, 0xb0 OR of_nat (n div 256), of_nat n] @ body;
          crc = mpegCRC sec;
          whole = sec @ [ucast (drop_bit 24 crc), ucast (drop_bit 16 crc), ucast (drop_bit 8 crc), ucast crc]
      in [0x47, 0x40, 0x00, 0x10, 0x00] @ whole @ replicate (188 - (5 + length whole)) 0xff)"

text \<open>\<^verbatim>\<open>useMap\<close>: whether the section is this program's whole map, and the pipe with its streams kept.\<close>

definition useMap :: "bytes \<Rightarrow> programPipe \<Rightarrow> (bool \<times> programPipe) option" where
  "useMap sec p =
     (if length sec < 12 \<or> sec ! 0 \<noteq> 0x02 then Some (False, p)
      else if sectionEnd sec + 4 > length sec then Some (False, p)
      else if int (be16 (sec ! 3) (sec ! 4)) \<noteq> pp_program p then Some (False, p)
      else do { pids \<leftarrow> pmtElementary sec;
        if pids = [] then Some (False, p)
        else do { (video, kind) \<leftarrow> pmtVideo sec; sound \<leftarrow> pmtSound sec;
          let pcr = be16 (sec ! 8 AND 0x1f) (sec ! 9);
              keep = [0, pp_pmtPID p] @ (if pcr \<noteq> 0x1FFF then [pcr] else []) @ pids
          in Some (True, p\<lparr>pp_keep := keep, pp_pmtVer := uint (drop_bit 1 (sec ! 5) AND 0x1f), pp_video := video, pp_kind := kind,
               pp_count := map_option (\<lambda>c. if pc_sound c = 0 then c\<lparr>pc_sound := sound\<rparr> else c) (pp_count p)\<rparr>) } })"

text \<open>The walk over the program tables: the program, the transport stream, the map's PID (0 for none), and \<open>absent\<close>.\<close>

fun learnPAT :: "bytes list \<Rightarrow> int \<Rightarrow> nat \<Rightarrow> bool \<Rightarrow> (int \<times> nat \<times> nat \<times> bool) option" where
  "learnPAT [] program tsID absent = Some (program, tsID, 0, absent)"
| "learnPAT (sec # secs) program tsID absent =
     (if length sec < 8 \<or> sec ! 0 \<noteq> 0x00 then learnPAT secs program tsID absent
      else if sectionEnd sec + 4 > length sec then learnPAT secs program tsID absent
      else do {
        program1 \<leftarrow> (if program = anyProgram then firstProgram sec else Some program);
        pid \<leftarrow> patPMT sec program1;
        if pid \<noteq> 0 then Some (program1, be16 (sec ! 3) (sec ! 4), pid, False)
        else learnPAT secs program1 (be16 (sec ! 3) (sec ! 4)) True })"

fun useFirst :: "bytes list \<Rightarrow> programPipe \<Rightarrow> (bool \<times> programPipe) option" where
  "useFirst [] p = Some (False, p)"
| "useFirst (sec # secs) p = do { (used, p1) \<leftarrow> useMap sec p; if used then Some (True, p1) else useFirst secs p1 }"

definition learn :: "bytes \<Rightarrow> programPipe \<Rightarrow> (bool \<times> programPipe) option" where
  "learn buf p =
     do { (program, tsID, pmt, absent) \<leftarrow> learnPAT (sections buf 0) (pp_program p) 0 False;
          let p1 = p\<lparr>pp_program := program\<rparr> in
          if pmt = 0 then Some (False, if absent then p1\<lparr>pp_pass := True\<rparr> else p1)
          else do { (used, p2) \<leftarrow> useFirst (sections buf pmt) (p1\<lparr>pp_pmtPID := pmt\<rparr>);
                    Some (if used then (True, p2\<lparr>pp_pat := singleProgramPAT program pmt tsID, pp_ready := True\<rparr>) else (False, p2)) } }"

subsection \<open>Timelines\<close>

text \<open>\<^verbatim>\<open>canBreak\<close> forgets the breaks of more than a minute ago.\<close>

definition canBreak :: "gotime \<Rightarrow> programPipe \<Rightarrow> bool \<times> programPipe" where
  "canBreak now p =
     (if \<not> pp_restart p then (False, p)
      else
        let p1 = p\<lparr>pp_breaks := dropWhile (\<lambda>t. t < now - Minute) (pp_breaks p)\<rparr> in
        if length (pp_breaks p1) < breakLimit then (True, p1)
        else (False, if time_sub now (pp_warned p1) > 10 * Second then p1\<lparr>pp_warned := now\<rparr> else p1))"

definition setClock :: "nat \<Rightarrow> pesClock \<Rightarrow> programPipe \<Rightarrow> programPipe" where
  "setClock pid c p = p\<lparr>pp_clocks := (pp_clocks p)(pid \<mapsto> c)\<rparr>"

definition stopCatching :: "programPipe \<Rightarrow> programPipe" where
  "stopCatching p = p\<lparr>pp_catching := False, pp_pending := []\<rparr>"

text \<open>A header off the timeline \<open>c\<close>: the end of \<^verbatim>\<open>keepPES\<close>.\<close>

definition offTimeline :: "gotime \<Rightarrow> nat \<Rightarrow> bytes \<Rightarrow> int \<Rightarrow> pesClock \<Rightarrow> programPipe \<Rightarrow> bool \<times> programPipe" where
  "offTimeline now pid pkt ts c p =
     (let agreed = (ck_agree c > 0 \<and> ptsGap ts (ck_cand c) \<le> pesJump);
          c1 = c\<lparr>ck_agree := if agreed then ck_agree c + 1 else 1, ck_cand := ts\<rparr>;
          p1 = (if agreed then p
                else
                  let (may, pa) = (if pid = pp_video p then canBreak now p else (False, p));
                      pb = (if may \<and> ptsDelta ts (ck_last c) < 0 then pa\<lparr>pp_catching := True, pp_pending := pkt\<rparr> else pa)
                  in if time_sub now (pp_warned pb) > 10 * Second then pb\<lparr>pp_warned := now\<rparr> else pb);
          p2 = (if pp_catching p1 \<and> length (pp_pending p1) > tailCap then stopCatching p1 else p1)
      in if ck_agree c1 \<ge> pesAgree then
           if pid = pp_video p2 \<and> pp_catching p2 \<and> ptsDelta ts (ck_last c1) < 0 then
             (False, (setClock pid c1 p2)\<lparr>pp_breaks := pp_breaks p2 @ [now], pp_broken := True\<rparr>)
           else
             let p3 = (if pid = pp_video p2 then stopCatching p2 else p2)
             in (True, setClock pid (c1\<lparr>ck_last := ts, ck_agree := 0, ck_dropping := False\<rparr>) p3)
         else (False, setClock pid (c1\<lparr>ck_dropping := True, ck_shift := ck_shift c1 + 1\<rparr>) p2))"

definition keepPES :: "gotime \<Rightarrow> nat \<Rightarrow> bytes \<Rightarrow> programPipe \<Rightarrow> bool \<times> programPipe" where
  "keepPES now pid pkt p =
     (if pid = pp_pmtPID p \<or> pkt ! 3 AND 0x10 = 0 then (True, p)
      else if pkt ! 1 AND 0x40 = 0 then
        (case pp_clocks p pid of
           Some c \<Rightarrow> if ck_dropping c then (False, setClock pid (c\<lparr>ck_shift := ck_shift c + 1\<rparr>) p) else (True, p)
         | None \<Rightarrow> (True, p))
      else
        (case pesTime (tsPayload pkt) of
           None \<Rightarrow> (True, case pp_clocks p pid of Some c \<Rightarrow> setClock pid (c\<lparr>ck_dropping := False\<rparr>) p | None \<Rightarrow> p)
         | Some ts \<Rightarrow>
             (case pp_clocks p pid of
                None \<Rightarrow> (True, setClock pid \<lparr>ck_last = ts, ck_cand = 0, ck_agree = 0, ck_dropping = False, ck_shift = 0\<rparr> p)
              | Some c \<Rightarrow>
                  if ptsDelta ts (ck_last c) \<le> pesJump \<and> ptsDelta ts (ck_last c) \<ge> - pesBack then
                    (True, setClock pid (c\<lparr>ck_last := ts, ck_agree := 0, ck_dropping := False\<rparr>)
                             (if pid = pp_video p then stopCatching p else p))
                  else offTimeline now pid pkt ts c p)))"

subsection \<open>The filter\<close>

text \<open>The packet of the program table, with the next counter.\<close>

definition patPacket :: "programPipe \<Rightarrow> bytes" where
  "patPacket p = (pp_pat p)[3 := 0x10 OR (pp_cc p AND 0x0f)]"

definition nextPat :: "programPipe \<Rightarrow> programPipe" where
  "nextPat p = p\<lparr>pp_cc := (pp_cc p + 1) AND 0x0f\<rparr>"

text \<open>What happens to every packet before it is kept or not.\<close>

definition catchPacket :: "bytes \<Rightarrow> programPipe \<Rightarrow> programPipe" where
  "catchPacket pkt p =
     (if pp_catching p then
        let p1 = p\<lparr>pp_pending := pp_pending p @ pkt\<rparr> in if length (pp_pending p1) > tailCap then stopCatching p1 else p1
      else p)"

definition noteMapPacket :: "nat \<Rightarrow> bytes \<Rightarrow> programPipe \<Rightarrow> programPipe" where
  "noteMapPacket pid pkt p =
     (if pid = pp_pmtPID p then
        let p1 = (if pkt ! 1 AND 0x40 \<noteq> 0 then p\<lparr>pp_pmtPkts := []\<rparr> else p)
        in if length (pp_pmtPkts p1) < 188 * 4 then p1\<lparr>pp_pmtPkts := pp_pmtPkts p1 @ pkt\<rparr> else p1
      else p)"

fun followMaps :: "bytes list \<Rightarrow> programPipe \<Rightarrow> programPipe option" where
  "followMaps [] p = Some p"
| "followMaps (sec # secs) p =
     (if length sec > 5 \<and> sec ! 0 = 0x02 \<and> uint (drop_bit 1 (sec ! 5) AND 0x1f) \<noteq> pp_pmtVer p then
        do { (_, p1) \<leftarrow> useMap sec p; followMaps secs p1 }
      else followMaps secs p)"

definition followMap :: "nat \<Rightarrow> bytes \<Rightarrow> programPipe \<Rightarrow> programPipe option" where
  "followMap pid pkt p =
     (if pid = pp_pmtPID p \<and> pkt ! 1 AND 0x40 \<noteq> 0 \<and> pmtVersion pkt \<noteq> Some (pp_pmtVer p)
      then followMaps (sections pkt pid) p else Some p)"

definition countPacket :: "nat \<Rightarrow> bytes \<Rightarrow> programPipe \<Rightarrow> programPipe" where
  "countPacket pid pkt p =
     (case pp_count p of
        None \<Rightarrow> p
      | Some c \<Rightarrow>
          if pkt ! 1 AND 0x40 = 0 then p
          else if pid = pp_video p then p\<lparr>pp_count := Some (c\<lparr>pc_video := pc_video c + 1\<rparr>)\<rparr>
          else if pid = pc_sound c \<and> pesTime (tsPayload pkt) \<noteq> None then p\<lparr>pp_count := Some (c\<lparr>pc_heard := pc_heard c + 1\<rparr>)\<rparr>
          else p)"

definition renumber :: "nat \<Rightarrow> bytes \<Rightarrow> programPipe \<Rightarrow> bytes" where
  "renumber pid pkt p =
     (case pp_clocks p pid of
        Some c \<Rightarrow>
          if ck_shift c \<noteq> 0 \<and> pkt ! 3 AND 0x30 \<noteq> 0 then pkt[3 := (pkt ! 3 AND 0xf0) OR ((pkt ! 3 - ck_shift c) AND 0x0f)] else pkt
      | None \<Rightarrow> pkt)"

text \<open>One packet: what it adds to the output, and the pipe. A break sets \<open>pp_broken\<close>.\<close>

definition filterPacket :: "gotime \<Rightarrow> bytes \<Rightarrow> programPipe \<Rightarrow> (bytes \<times> programPipe) option" where
  "filterPacket now pkt p0 =
     (let pid = pid_of pkt; p = catchPacket pkt p0 in
      if pid = 0 then Some (patPacket p, nextPat p)
      else do {
        p1 \<leftarrow> followMap pid pkt (noteMapPacket pid pkt p);
        if pid \<notin> set (pp_keep p1) then Some ([], p1)
        else
          (case keepPES now pid pkt p1 of
             (False, p2) \<Rightarrow> Some ([], p2)
           | (True, p2) \<Rightarrow> let p3 = countPacket pid pkt p2 in Some (renumber pid pkt p3, p3)) })"

text \<open>\<^verbatim>\<open>filter\<close>. At a break the rest of the data and of the buffer go behind what was held since the new timeline began.\<close>

function filter_data :: "gotime \<Rightarrow> bytes \<Rightarrow> programPipe \<Rightarrow> (bytes \<times> programPipe) option" where
  "filter_data now data p =
     (if 188 \<le> length data then
        do { (o1, p1) \<leftarrow> filterPacket now (take 188 data) p;
             if pp_broken p1 then
               Some (o1, p1\<lparr>pp_tail := pp_pending p1 @ drop 188 data @ pp_rest p1, pp_rest := [], pp_pending := [], pp_catching := False\<rparr>)
             else do { (o2, p2) \<leftarrow> filter_data now (drop 188 data) p1; Some (o1 @ o2, p2) } }
      else Some ([], p))"
  by pat_completeness auto
termination
  by (relation "measure (\<lambda>(now, data, p). length data)") auto

declare filter_data.simps [simp del]

text \<open>\<^verbatim>\<open>start\<close>: from the first sequence header on, with the tables in front.\<close>

function startAt :: "bytes \<Rightarrow> nat \<Rightarrow> programPipe \<Rightarrow> nat option" where
  "startAt out off p =
     (if off + 188 \<le> length out then
        let pkt = take 188 (drop off out) in
        if pid_of pkt \<noteq> pp_video p \<or> pkt ! 1 AND 0x40 = 0 then startAt out (off + 188) p
        else if \<not> sequenceStart (tsPayload pkt) (pp_kind p) then startAt out (off + 188) p
        else Some off
      else None)"
  by pat_completeness auto
termination
  by (relation "measure (\<lambda>(out, off, p). length out - off)") auto

declare startAt.simps [simp del]

definition start_data :: "bytes \<Rightarrow> programPipe \<Rightarrow> bytes \<times> programPipe" where
  "start_data out p =
     (if pp_video p = 0 then (out, p\<lparr>pp_started := True\<rparr>)
      else
        (case startAt out 0 p of
           Some off \<Rightarrow> (patPacket p @ pp_pmtPkts p @ drop off out, (nextPat p)\<lparr>pp_started := True\<rparr>)
         | None \<Rightarrow>
             let p1 = p\<lparr>pp_skipped := pp_skipped p + length out\<rparr> in
             if pp_skipped p1 > programFilterCap then (out, p1\<lparr>pp_started := True\<rparr>) else ([], p1)))"

subsection \<open>Writes\<close>

definition giveUp :: "programPipe \<Rightarrow> bytes \<times> programPipe" where
  "giveUp p = (pp_hold p @ pp_rest p, p\<lparr>pp_pass := True, pp_hold := [], pp_rest := []\<rparr>)"

text \<open>The end of Write, on packets of a program that is known.\<close>

definition writeKnown :: "gotime \<Rightarrow> bytes \<Rightarrow> programPipe \<Rightarrow> (bytes \<times> programPipe) option" where
  "writeKnown now pkts p =
     do { (out, p1) \<leftarrow> filter_data now pkts p; Some (if pp_started p1 then (out, p1) else start_data out p1) }"

definition writePackets :: "gotime \<Rightarrow> programPipe \<Rightarrow> (bytes \<times> programPipe) option" where
  "writePackets now p =
     (let (pkts, rest) = packetsOf (pp_rest p) 0 []; p1 = p\<lparr>pp_rest := rest\<rparr> in
      if pp_ready p1 then writeKnown now pkts p1
      else
        do { (known, p2) \<leftarrow> learn (pp_hold p1 @ pkts) (p1\<lparr>pp_hold := pp_hold p1 @ pkts\<rparr>);
             if \<not> known then
               (if \<not> pp_pass p2 \<and> length (pp_hold p2) < programFilterCap then Some ([], p2) else Some (giveUp p2))
             else writeKnown now (pp_hold p2) (p2\<lparr>pp_hold := []\<rparr>) })"

text \<open>A pipe that is not broken.\<close>

definition writeWhole :: "gotime \<Rightarrow> bytes \<Rightarrow> programPipe \<Rightarrow> (bytes \<times> programPipe) option" where
  "writeWhole now chunk p =
     (if pp_pass p then Some (chunk, p)
      else
        let p1 = p\<lparr>pp_rest := pp_rest p @ chunk\<rparr> in
        if \<not> pp_synced p1 then
          (case syncOffset (pp_rest p1) of
             None \<Rightarrow> if length (pp_rest p1) < 188 * 16 then Some ([], p1) else Some (giveUp p1)
           | Some i \<Rightarrow> writePackets now (p1\<lparr>pp_synced := True, pp_rest := drop i (pp_rest p1)\<rparr>))
        else writePackets now p1)"

text \<open>
  \<^verbatim>\<open>Write\<close>: \<open>given\<close> says whether the next encode's input is queued. The bytes are those to the input the
  pipe has afterwards; with one queued, that is the new one.
\<close>

definition Write :: "gotime \<Rightarrow> bool \<Rightarrow> bytes \<Rightarrow> programPipe \<Rightarrow> (bytes \<times> programPipe) option" where
  "Write now given chunk p =
     (if pp_broken p then
        let p1 = (if length (pp_tail p) + length chunk \<le> tailCap then p\<lparr>pp_tail := pp_tail p @ chunk\<rparr> else p) in
        if \<not> given then Some ([], p1)
        else writeWhole now (pp_tail p1) (newPipe (pp_program p1) (pp_restart p1) (pp_breaks p1) (pp_count p1))
      else writeWhole now chunk p)"

definition Close :: "programPipe \<Rightarrow> bytes \<times> programPipe" where
  "Close p = (if \<not> pp_pass p \<and> \<not> pp_ready p \<and> \<not> pp_broken p then giveUp p else ([], p))"

end
