(* ===== verification/ProgramFilterProps.thy ===== *)
theory ProgramFilterProps
  imports ProgramFilter ScanProps
begin

text \<open>
  The program filter: it never indexes out of range and writes whole packets; what it writes does not
  depend on the cuts of the stream; a PID whose packets count on still counts on after frames were
  dropped; and a frame passes by its timestamp exactly when it is on its stream's timeline.
\<close>

named_theorems pipe_simps \<open>what the steps of the pipe leave alone\<close>

subsection \<open>What the steps leave alone\<close>

lemma canBreak_fields [pipe_simps]:
  "pp_keep (snd (canBreak now p)) = pp_keep p" "pp_clocks (snd (canBreak now p)) = pp_clocks p" "pp_pmtPID (snd (canBreak now p)) = pp_pmtPID p"
  "pp_pmtVer (snd (canBreak now p)) = pp_pmtVer p" "pp_restart (snd (canBreak now p)) = pp_restart p" "pp_broken (snd (canBreak now p)) = pp_broken p"
  "pp_pat (snd (canBreak now p)) = pp_pat p" "pp_pmtPkts (snd (canBreak now p)) = pp_pmtPkts p" "pp_video (snd (canBreak now p)) = pp_video p"
  "pp_ready (snd (canBreak now p)) = pp_ready p" "pp_started (snd (canBreak now p)) = pp_started p" "pp_pass (snd (canBreak now p)) = pp_pass p"
  "pp_synced (snd (canBreak now p)) = pp_synced p" "pp_rest (snd (canBreak now p)) = pp_rest p"
  by (simp_all add: canBreak_def Let_def)

lemma stopCatching_fields [pipe_simps]:
  "pp_keep (stopCatching p) = pp_keep p" "pp_clocks (stopCatching p) = pp_clocks p" "pp_pmtPID (stopCatching p) = pp_pmtPID p"
  "pp_pmtVer (stopCatching p) = pp_pmtVer p" "pp_restart (stopCatching p) = pp_restart p" "pp_broken (stopCatching p) = pp_broken p"
  "pp_pat (stopCatching p) = pp_pat p" "pp_pmtPkts (stopCatching p) = pp_pmtPkts p" "pp_video (stopCatching p) = pp_video p"
  "pp_ready (stopCatching p) = pp_ready p" "pp_started (stopCatching p) = pp_started p" "pp_pass (stopCatching p) = pp_pass p"
  "pp_synced (stopCatching p) = pp_synced p" "pp_rest (stopCatching p) = pp_rest p" "\<not> pp_catching (stopCatching p)"
  by (simp_all add: stopCatching_def)

lemma setClock_fields [pipe_simps]:
  "pp_keep (setClock i c p) = pp_keep p" "pp_clocks (setClock i c p) = (pp_clocks p)(i \<mapsto> c)" "pp_pmtPID (setClock i c p) = pp_pmtPID p"
  "pp_pmtVer (setClock i c p) = pp_pmtVer p" "pp_restart (setClock i c p) = pp_restart p" "pp_broken (setClock i c p) = pp_broken p"
  "pp_pat (setClock i c p) = pp_pat p" "pp_pmtPkts (setClock i c p) = pp_pmtPkts p" "pp_video (setClock i c p) = pp_video p"
  "pp_ready (setClock i c p) = pp_ready p" "pp_started (setClock i c p) = pp_started p" "pp_pass (setClock i c p) = pp_pass p"
  "pp_synced (setClock i c p) = pp_synced p" "pp_rest (setClock i c p) = pp_rest p"
  by (simp_all add: setClock_def)

definition same_tables :: "programPipe \<Rightarrow> programPipe \<Rightarrow> bool" where
  "same_tables p q \<longleftrightarrow> pp_keep q = pp_keep p \<and> pp_pmtPID q = pp_pmtPID p \<and> pp_pmtVer q = pp_pmtVer p \<and> pp_restart q = pp_restart p \<and>
     pp_pat q = pp_pat p \<and> pp_pmtPkts q = pp_pmtPkts p \<and> pp_video q = pp_video p \<and> pp_ready q = pp_ready p \<and>
     pp_started q = pp_started p \<and> pp_pass q = pp_pass p \<and> pp_synced q = pp_synced p \<and> pp_rest q = pp_rest p"

lemma offTimeline_same: "same_tables p (snd (offTimeline now pid pkt ts c p))"
proof -
  obtain may pa where cb: "canBreak now p = (may, pa)" by (cases "canBreak now p")
  have "same_tables p pa" using canBreak_fields [of now p] unfolding same_tables_def cb by simp
  then show ?thesis
    unfolding offTimeline_def Let_def cb by (auto simp: same_tables_def pipe_simps split: if_splits prod.splits)
qed

lemma keepPES_same: "same_tables p (snd (keepPES now pid pkt p))"
  using offTimeline_same
  by (auto simp: keepPES_def same_tables_def pipe_simps split: option.splits)

subsection \<open>Counters\<close>

text \<open>The packets of a buffer, and a run of one PID's packets whose counters go on from \<open>c\<close>.\<close>

function packets_in :: "bytes \<Rightarrow> bytes list" where
  "packets_in data = (if 188 \<le> length data then take 188 data # packets_in (drop 188 data) else [])"
  by pat_completeness auto
termination by (relation "measure length") auto

declare packets_in.simps [simp del]

definition counter :: "bytes \<Rightarrow> int" where
  "counter pkt = uint (pkt ! 3) mod 16"

fun counted :: "int \<Rightarrow> bytes list \<Rightarrow> bool" where
  "counted c [] = True"
| "counted c (p # ps) \<longleftrightarrow> counter p = (if p ! 3 AND 0x10 \<noteq> 0 then (c + 1) mod 16 else c mod 16) \<and> counted (counter p) ps"

definition of_pid :: "nat \<Rightarrow> bytes \<Rightarrow> bytes list" where
  "of_pid pid data = filter (\<lambda>p. pid_of p = pid) (packets_in data)"

lemma packets_in_cut:
  "length pkt = 188 \<Longrightarrow> packets_in (pkt @ data) = pkt # packets_in data"
  "packets_in [] = []"
  by (simp_all add: packets_in.simps [of "pkt @ data"] packets_in.simps [of "[]"])

lemma packets_in_step: "188 \<le> length data \<Longrightarrow> packets_in data = take 188 data # packets_in (drop 188 data)"
  by (simp add: packets_in.simps [of data])

lemma counted_cong: "c mod 16 = d mod 16 \<Longrightarrow> counted c ps = counted d ps"
  using mod_add_left_eq [of c 16 1] mod_add_left_eq [of d 16 1] by (cases ps) simp_all

definition shift_of :: "nat \<Rightarrow> programPipe \<Rightarrow> byte" where
  "shift_of pid p = (case pp_clocks p pid of None \<Rightarrow> 0 | Some c \<Rightarrow> ck_shift c)"

lemma keepPES_shift:
  assumes "keepPES now pid pkt p = (k, p1)" "\<not> pp_broken p1"
  shows "shift_of pid p1 = shift_of pid p + (if k then 0 else 1)"
  using assms canBreak_fields [of now p]
  by (auto simp: keepPES_def offTimeline_def shift_of_def Let_def pipe_simps split: option.splits if_splits prod.splits)

lemma keepPES_payload: "keepPES now pid pkt p = (False, p1) \<Longrightarrow> pkt ! 3 AND 0x10 \<noteq> 0"
  by (auto simp: keepPES_def split: if_splits)

lemma offTimeline_other: "i \<noteq> pid \<Longrightarrow> pp_clocks (snd (offTimeline now pid pkt ts c p)) i = pp_clocks p i"
proof -
  obtain may pa where cb: "canBreak now p = (may, pa)" by (cases "canBreak now p")
  have "pp_clocks pa = pp_clocks p" using canBreak_fields(2) [of now p] by (simp add: cb)
  then show "i \<noteq> pid \<Longrightarrow> ?thesis" unfolding offTimeline_def Let_def cb by (simp add: pipe_simps)
qed

lemma keepPES_other: "i \<noteq> pid \<Longrightarrow> pp_clocks (snd (keepPES now pid pkt p)) i = pp_clocks p i"
  by (simp add: keepPES_def offTimeline_other pipe_simps split: option.split)

lemma low_nibble: "uint ((a AND 0xf0) OR (y AND 0x0f)) mod 16 = uint (y :: byte) mod 16"
proof -
  have "uint w mod 16 = uint (take_bit 4 w)" for w :: byte
    by (simp only: unsigned_take_bit_eq) (simp add: take_bit_eq_mod)
  moreover have "take_bit 4 ((a AND 0xf0) OR (y AND 0x0f)) = take_bit 4 y"
  proof (rule bit_word_eqI)
    fix n assume n: "n < LENGTH(8)"
    have "n < 4 \<Longrightarrow> \<not> bit (0xf0 :: byte) n \<and> bit (0x0f :: byte) n"
      by (auto simp: less_Suc_eq numeral_eq_Suc)
    then show "bit (take_bit 4 ((a AND 0xf0) OR (y AND 0x0f))) n = bit (take_bit 4 y) n"
      by (auto simp: bit_simps)
  qed
  ultimately show ?thesis by simp
qed

lemma renumber_counter:
  assumes "pkt ! 3 AND 0x30 \<noteq> 0" "length pkt = 188"
  shows "counter (renumber pid pkt p) = (counter pkt - uint (shift_of pid p)) mod 16"
proof -
  have "uint (pkt ! 3 - s) mod 16 = (uint (pkt ! 3) - uint s) mod 16" for s
    by (simp add: uint_word_ariths mod_mod_cancel)
  then show ?thesis
    using assms by (auto simp: renumber_def counter_def shift_of_def low_nibble mod_diff_left_eq split: option.splits)
qed

lemma renumber_fields:
  "length (renumber pid pkt p) = length pkt" "pid_of (renumber pid pkt p) = pid_of pkt" "hd (renumber pid pkt p) = hd pkt"
proof -
  show "length (renumber pid pkt p) = length pkt" "pid_of (renumber pid pkt p) = pid_of pkt"
    by (auto simp: renumber_def pid_of_def split: option.splits)
  show "hd (renumber pid pkt p) = hd pkt"
    by (cases pkt) (auto simp: renumber_def numeral_3_eq_3 split: option.splits)
qed

subsection \<open>A packet under an unchanged map\<close>

definition same_map :: "programPipe \<Rightarrow> programPipe \<Rightarrow> bool" where
  "same_map p q \<longleftrightarrow> pp_keep q = pp_keep p \<and> pp_pmtPID q = pp_pmtPID p \<and> pp_pmtVer q = pp_pmtVer p \<and> pp_pat q = pp_pat p \<and> pp_restart q = pp_restart p"

text \<open>A packet that does not start a map of another version.\<close>

definition steady :: "programPipe \<Rightarrow> bytes \<Rightarrow> bool" where
  "steady p pkt \<longleftrightarrow> (pid_of pkt = pp_pmtPID p \<and> pkt ! 1 AND 0x40 \<noteq> 0 \<longrightarrow> pmtVersion pkt = Some (pp_pmtVer p))"

lemma same_map_trans: "same_map p q \<Longrightarrow> same_map q r \<Longrightarrow> same_map p r"
  and same_map_steady: "same_map p q \<Longrightarrow> steady q pkt = steady p pkt"
  by (simp_all add: same_map_def steady_def)

lemma same_map_steps:
  "same_map p (catchPacket pkt p)" "same_map p (noteMapPacket pid pkt p)" "same_map p (countPacket pid pkt p)" "same_map p (nextPat p)"
  by (auto simp: same_map_def catchPacket_def noteMapPacket_def countPacket_def nextPat_def stopCatching_def Let_def split: option.split)

lemma clocks_steps [pipe_simps]:
  "pp_clocks (catchPacket pkt p) = pp_clocks p" "pp_clocks (noteMapPacket pid pkt p) = pp_clocks p"
  "pp_clocks (countPacket pid pkt p) = pp_clocks p" "pp_clocks (nextPat p) = pp_clocks p"
  "pp_broken (catchPacket pkt p) = pp_broken p" "pp_broken (noteMapPacket pid pkt p) = pp_broken p"
  "pp_broken (countPacket pid pkt p) = pp_broken p" "pp_broken (nextPat p) = pp_broken p"
  by (auto simp: catchPacket_def noteMapPacket_def countPacket_def nextPat_def stopCatching_def Let_def split: option.split)

lemma same_tables_map: "same_tables p q \<Longrightarrow> same_map p q"
  by (simp add: same_tables_def same_map_def)

lemma followMap_steady: "steady p pkt \<Longrightarrow> followMap (pid_of pkt) pkt p = Some p"
  by (auto simp: followMap_def steady_def)

lemma filterPacket_steady:
  assumes "steady p pkt" "filterPacket now pkt p = Some (o1, q)"
  shows "same_map p q" "i \<noteq> pid_of pkt \<Longrightarrow> pp_clocks q i = pp_clocks p i"
    "pid_of pkt = 0 \<Longrightarrow> o1 = patPacket (catchPacket pkt p) \<and> q = nextPat (catchPacket pkt p)"
    "pid_of pkt \<noteq> 0 \<Longrightarrow> pid_of pkt \<notin> set (pp_keep p) \<Longrightarrow> o1 = []"
    "pid_of pkt \<noteq> 0 \<Longrightarrow> pid_of pkt \<in> set (pp_keep p) \<Longrightarrow> \<exists>k p1 p2. pp_clocks p1 = pp_clocks p \<and> pp_broken p1 = pp_broken p \<and>
       keepPES now (pid_of pkt) pkt p1 = (k, p2) \<and> pp_clocks q = pp_clocks p2 \<and> pp_broken q = pp_broken p2 \<and> same_map p p1 \<and>
       o1 = (if k then renumber (pid_of pkt) pkt q else [])"
proof -
  define pid where "pid = pid_of pkt"
  define p1 where "p1 = noteMapPacket pid pkt (catchPacket pkt p)"
  have p1: "same_map p p1" "pp_clocks p1 = pp_clocks p" "pp_broken p1 = pp_broken p"
    using same_map_trans [OF same_map_steps(1,2)] by (simp_all add: p1_def pipe_simps)
  have follow: "followMap pid pkt p1 = Some p1"
    using followMap_steady [of p1 pkt] assms(1) same_map_steady [OF p1(1)] by (simp add: pid_def)
  obtain k p2 where kp: "keepPES now pid pkt p1 = (k, p2)" by (cases "keepPES now pid pkt p1")
  have p2: "same_map p1 p2" "\<And>i. i \<noteq> pid \<Longrightarrow> pp_clocks p2 i = pp_clocks p1 i"
    using same_tables_map [OF keepPES_same, of p1 now pid pkt] keepPES_other [of _ pid now pkt p1] by (simp_all add: kp)
  have whole: "filterPacket now pkt p =
      (if pid = 0 then Some (patPacket (catchPacket pkt p), nextPat (catchPacket pkt p))
       else if pid \<notin> set (pp_keep p) then Some ([], p1)
       else if k then Some (renumber pid pkt (countPacket pid pkt p2), countPacket pid pkt p2) else Some ([], p2))"
    using p1(1) by (auto simp: filterPacket_def Let_def pid_def [symmetric] p1_def [symmetric] follow kp same_map_def)
  have maps: "same_map p (nextPat (catchPacket pkt p))" "same_map p p2" "same_map p (countPacket pid pkt p2)"
    using same_map_trans [OF same_map_steps(1,4)] same_map_trans [OF p1(1) p2(1)]
      same_map_trans [OF same_map_trans [OF p1(1) p2(1)] same_map_steps(3)] by simp_all
  show "same_map p q" using assms(2) maps p1(1) unfolding whole by (auto split: if_splits)
  show "pp_clocks q i = pp_clocks p i" if "i \<noteq> pid_of pkt"
    using assms(2) that p1(2) p2(2) [of i] unfolding whole pid_def [symmetric] by (auto simp: pipe_simps split: if_splits)
  show "o1 = patPacket (catchPacket pkt p) \<and> q = nextPat (catchPacket pkt p)" if "pid_of pkt = 0"
    using assms(2) that unfolding whole pid_def by simp
  show "o1 = []" if "pid_of pkt \<noteq> 0" "pid_of pkt \<notin> set (pp_keep p)"
    using assms(2) that unfolding whole pid_def by simp
  show "\<exists>k p1 p2. pp_clocks p1 = pp_clocks p \<and> pp_broken p1 = pp_broken p \<and>
       keepPES now (pid_of pkt) pkt p1 = (k, p2) \<and> pp_clocks q = pp_clocks p2 \<and> pp_broken q = pp_broken p2 \<and> same_map p p1 \<and>
       o1 = (if k then renumber (pid_of pkt) pkt q else [])" if "pid_of pkt \<noteq> 0" "pid_of pkt \<in> set (pp_keep p)"
  proof (rule exI [where x = k], rule exI [where x = p1], rule exI [where x = p2])
    show "pp_clocks p1 = pp_clocks p \<and> pp_broken p1 = pp_broken p \<and> keepPES now (pid_of pkt) pkt p1 = (k, p2) \<and> pp_clocks q = pp_clocks p2 \<and>
       pp_broken q = pp_broken p2 \<and> same_map p p1 \<and> o1 = (if k then renumber (pid_of pkt) pkt q else [])"
      using assms(2) that p1 kp unfolding whole pid_def by (auto simp: pipe_simps split: if_splits)
  qed
qed

subsection \<open>Counting on\<close>

definition pat_ok :: "programPipe \<Rightarrow> bool" where
  "pat_ok p \<longleftrightarrow> length (pp_pat p) = 188 \<and> pid_of (pp_pat p) = 0"

lemma patPacket_pid: "pat_ok p \<Longrightarrow> length (patPacket p) = 188 \<and> pid_of (patPacket p) = 0"
  by (simp add: pat_ok_def patPacket_def pid_of_def)

lemma same_map_pat: "same_map p q \<Longrightarrow> pat_ok q = pat_ok p"
  by (simp add: same_map_def pat_ok_def)

lemma of_pid_cut:
  "of_pid pid [] = []" "length pkt = 188 \<Longrightarrow> of_pid pid (pkt @ data) = (if pid_of pkt = pid then [pkt] else []) @ of_pid pid data"
  by (simp_all add: of_pid_def packets_in_cut)

lemma of_pid_one: "length pkt = 188 \<Longrightarrow> of_pid pid pkt = (if pid_of pkt = pid then [pkt] else [])"
  using of_pid_cut(2) [of pkt pid "[]"] of_pid_cut(1) by simp

lemma keeps_breaking: "k \<Longrightarrow> keepPES now pid pkt p = (k, q) \<Longrightarrow> pp_broken q = pp_broken p"
  using canBreak_fields(6) [of now p]
  by (auto simp: keepPES_def offTimeline_def Let_def pipe_simps split: option.splits if_splits prod.splits)

lemma one_packet:
  assumes st: "steady p pkt" and fp: "filterPacket now pkt p = Some (o1, p1)" and ok: "pat_ok p" and len: "length pkt = 188"
    and pid: "pid \<noteq> 0" "pid \<noteq> pp_pmtPID p" "pid \<in> set (pp_keep p)" "\<not> pp_broken p"
  shows "o1 = [] \<or> length o1 = 188" (is ?len)
    and "pid_of pkt \<noteq> pid \<Longrightarrow> of_pid pid o1 = [] \<and> shift_of pid p1 = shift_of pid p"
    and "pid_of pkt = pid \<Longrightarrow> o1 = [] \<and> pp_broken p1 \<or>
      o1 = [] \<and> pkt ! 3 AND 0x10 \<noteq> 0 \<and> shift_of pid p1 = shift_of pid p + 1 \<or>
      o1 = renumber pid pkt p1 \<and> shift_of pid p1 = shift_of pid p"
proof -
  note step = filterPacket_steady [OF st fp]
  have pat: "length (patPacket (catchPacket pkt p)) = 188 \<and> pid_of (patPacket (catchPacket pkt p)) = 0"
    using patPacket_pid same_map_pat [OF same_map_steps(1)] ok by blast
  consider (pat) "pid_of pkt = 0" | (skip) "pid_of pkt \<noteq> 0" "pid_of pkt \<notin> set (pp_keep p)" | (kept) "pid_of pkt \<noteq> 0" "pid_of pkt \<in> set (pp_keep p)"
    by blast
  then have "?len \<and> (pid_of pkt \<noteq> pid \<longrightarrow> of_pid pid o1 = [])"
  proof cases
    case pat
    with step(3) \<open>length (patPacket (catchPacket pkt p)) = 188 \<and> _\<close> pid(1) show ?thesis by (simp add: of_pid_one)
  next
    case skip
    with step(4) show ?thesis by (simp add: of_pid_cut)
  next
    case kept
    with step(5) len show ?thesis by (auto simp: of_pid_one of_pid_cut renumber_fields)
  qed
  then show ?len "pid_of pkt \<noteq> pid \<Longrightarrow> of_pid pid o1 = [] \<and> shift_of pid p1 = shift_of pid p"
    using step(2) [of pid] by (auto simp: shift_of_def)
  assume mine: "pid_of pkt = pid"
  with pid step(5) obtain k pa pb where k: "pp_clocks pa = pp_clocks p" "pp_broken pa = pp_broken p" "keepPES now pid pkt pa = (k, pb)" "pp_clocks p1 = pp_clocks pb"
      "pp_broken p1 = pp_broken pb" "o1 = (if k then renumber pid pkt p1 else [])"
    by auto
  have shift: "shift_of pid pb = shift_of pid p1" "shift_of pid pa = shift_of pid p" using k by (simp_all add: shift_of_def)
  show "o1 = [] \<and> pp_broken p1 \<or> o1 = [] \<and> pkt ! 3 AND 0x10 \<noteq> 0 \<and> shift_of pid p1 = shift_of pid p + 1 \<or>
      o1 = renumber pid pkt p1 \<and> shift_of pid p1 = shift_of pid p"
    using keepPES_shift [OF k(3)] keepPES_payload [of now pid pkt pa pb] keeps_breaking [OF _ k(3)] k shift pid(4) by (cases k) auto
qed

lemma uint_next: "uint (s + 1 :: byte) mod 16 = (uint s + 1) mod 16"
  by (simp add: uint_word_ariths mod_mod_cancel)

lemma renumber_payload: "length pkt = 188 \<Longrightarrow> renumber pid pkt p ! 3 AND 0x10 = pkt ! 3 AND 0x10"
proof -
  have "((a AND 0xf0) OR (y AND 0x0f)) AND 0x10 = a AND (0x10 :: byte)" for a y
  proof (rule bit_word_eqI)
    fix n assume n: "n < LENGTH(8)"
    show "bit (((a AND 0xf0) OR (y AND 0x0f)) AND 0x10) n = bit (a AND 0x10) n"
      using n by (auto simp: bit_simps less_Suc_eq numeral_eq_Suc)
  qed
  then show "length pkt = 188 \<Longrightarrow> ?thesis" by (auto simp: renumber_def split: option.split)
qed

lemma filter_counts:
  assumes "filter_data now data p = Some (out, q)" "pat_ok p" "pid \<noteq> 0" "pid \<noteq> pp_pmtPID p" "pid \<in> set (pp_keep p)" "\<not> pp_broken p"
    "\<forall>pkt \<in> set (packets_in data). steady p pkt" "\<forall>pkt \<in> set (of_pid pid data). pkt ! 3 AND 0x30 \<noteq> 0"
    "counted c (of_pid pid data)"
  shows "counted (c - uint (shift_of pid p)) (of_pid pid out)"
  using assms
proof (induction now data p arbitrary: out c rule: filter_data.induct)
  case (1 now data p)
  note prems = "1.prems"
  show ?case
  proof (cases "188 \<le> length data")
    case False
    with prems(1) show ?thesis by (simp add: filter_data.simps [of now data] of_pid_cut)
  next
    case True
    define pkt where "pkt = take 188 data"
    define later where "later = drop 188 data"
    have ps: "packets_in data = pkt # packets_in later" using packets_in_step [OF True] by (simp add: pkt_def later_def)
    have len: "length pkt = 188" using True by (simp add: pkt_def)
    have st: "steady p pkt" using prems(7) ps by simp
    have mine: "of_pid pid data = (if pid_of pkt = pid then [pkt] else []) @ of_pid pid later" by (simp add: of_pid_def ps)
    obtain o1 p1 where fp: "filterPacket now pkt p = Some (o1, p1)"
      using prems(1) True by (cases "filterPacket now pkt p") (auto simp: filter_data.simps [of now data] pkt_def)
    note one = one_packet [OF st fp prems(2) len prems(3-6)]
    have here: "counted (c - uint (shift_of pid p)) (of_pid pid o1)"
    proof (cases "pid_of pkt = pid")
      case False
      with one(2) show ?thesis by simp
    next
      case mine': True
      then have "counter pkt = (if pkt ! 3 AND 0x10 \<noteq> 0 then (c + 1) mod 16 else c mod 16)" "pkt ! 3 AND 0x30 \<noteq> 0"
        using prems(8,9) unfolding mine by (auto split: if_splits)
      then show ?thesis using one(3) [OF mine'] mine' len
        by (auto simp: of_pid_cut of_pid_one renumber_fields renumber_counter renumber_payload mod_simps algebra_simps)
    qed
    show ?thesis
    proof (cases "pp_broken p1")
      case True
      then have "out = o1" using prems(1) fp \<open>188 \<le> length data\<close> by (simp add: filter_data.simps [of now data] pkt_def)
      with here show ?thesis by simp
    next
      case False
      obtain o2 where rec: "filter_data now later p1 = Some (o2, q)" "out = o1 @ o2"
        using prems(1) fp True False by (auto simp: filter_data.simps [of now data] pkt_def later_def split: Option.bind_splits)
      define c1 where "c1 = (if pid_of pkt = pid then counter pkt else c)"
      have same: "same_map p p1" using filterPacket_steady(1) [OF st fp] .
      have "counted c1 (of_pid pid later)" using prems(9) unfolding mine c1_def by (auto split: if_splits)
      moreover have "\<forall>pkt \<in> set (packets_in later). steady p1 pkt" "\<forall>pkt \<in> set (of_pid pid later). pkt ! 3 AND 0x30 \<noteq> 0"
        using prems(7,8) ps mine same_map_steady [OF same] by auto
      moreover have "pat_ok p1" "pid \<noteq> pp_pmtPID p1" "pid \<in> set (pp_keep p1)" using same_map_pat [OF same] same prems(2,4,5) by (simp_all add: same_map_def)
      ultimately have ih: "counted (c1 - uint (shift_of pid p1)) (of_pid pid o2)"
        using 1(1) [OF True fp [unfolded pkt_def] refl False, folded later_def] rec(1) prems(3) False by blast
      have split: "of_pid pid out = of_pid pid o1 @ of_pid pid o2"
        using one(1) rec(2) by (auto simp: of_pid_cut of_pid_one)
      show ?thesis
      proof (cases "pid_of pkt = pid")
        case False
        with ih one(2) split show ?thesis by (simp add: c1_def)
      next
        case mine': True
        then have cp: "counter pkt = (if pkt ! 3 AND 0x10 \<noteq> 0 then (c + 1) mod 16 else c mod 16)" "pkt ! 3 AND 0x30 \<noteq> 0"
          using prems(8,9) unfolding mine by (auto split: if_splits)
        from one(3) [OF mine'] False consider (dropped) "o1 = []" "pkt ! 3 AND 0x10 \<noteq> 0" "shift_of pid p1 = shift_of pid p + 1"
          | (kept) "o1 = renumber pid pkt p1" "shift_of pid p1 = shift_of pid p"
          by blast
        then show ?thesis
        proof cases
          case dropped
          have "(c1 - uint (shift_of pid p1)) mod 16 = (c - uint (shift_of pid p)) mod 16"
          proof -
            have "(c1 - uint (shift_of pid p1)) mod 16 = ((c + 1) mod 16 - uint (shift_of pid p + 1) mod 16) mod 16"
              using cp(1) dropped mine' by (simp add: c1_def mod_diff_right_eq)
            then show ?thesis by (simp add: uint_next mod_simps)
          qed
          from counted_cong [OF this] ih split dropped(1) show ?thesis by (simp add: of_pid_cut)
        next
          case kept
          have o1: "of_pid pid o1 = [renumber pid pkt p1]" using kept(1) len mine' by (simp add: of_pid_one renumber_fields)
          have "counter (renumber pid pkt p1) mod 16 = (c1 - uint (shift_of pid p1)) mod 16"
            using renumber_counter [OF cp(2) len] mine' by (simp add: c1_def)
          from counted_cong [OF this] ih have "counted (counter (renumber pid pkt p1)) (of_pid pid o2)" by simp
          with here o1 split show ?thesis by simp
        qed
      qed
    qed
  qed
qed

subsection \<open>Timelines\<close>

definition header_time :: "bytes \<Rightarrow> int option" where
  "header_time k = (if k ! 3 AND 0x10 \<noteq> 0 \<and> k ! 1 AND 0x40 \<noteq> 0 then pesTime (tsPayload k) else None)"

text \<open>The timed headers of a PID's packets, each with what \<^verbatim>\<open>keepPES\<close> answered.\<close>

fun seen :: "gotime \<Rightarrow> nat \<Rightarrow> bytes list \<Rightarrow> programPipe \<Rightarrow> (int \<times> bool) list" where
  "seen now pid [] p = []"
| "seen now pid (k # ks) p =
     (case header_time k of Some t \<Rightarrow> [(t, fst (keepPES now pid k p))] | None \<Rightarrow> []) @ seen now pid ks (snd (keepPES now pid k p))"

definition in_range :: "int \<Rightarrow> int \<Rightarrow> bool" where
  "in_range t l \<longleftrightarrow> - 90000 \<le> ptsDelta t l \<and> ptsDelta t l \<le> 900000"

text \<open>
  The rule without the clock, over the earlier headers, the newest first: the first header; one in range of the last
  that passed; the third of three that agree.
\<close>

definition on_line :: "(int \<times> bool) list \<Rightarrow> int \<Rightarrow> bool" where
  "on_line h t \<longleftrightarrow> h = [] \<or>
     (case find snd h of Some (l, _) \<Rightarrow> in_range t l | None \<Rightarrow> False) \<or>
     (case h of (t1, False) # (t2, False) # _ \<Rightarrow> ptsGap t t1 \<le> 900000 \<and> ptsGap t1 t2 \<le> 900000 | _ \<Rightarrow> False)"

fun judged :: "(int \<times> bool) list \<Rightarrow> int list \<Rightarrow> (int \<times> bool) list" where
  "judged h [] = []"
| "judged h (t # ts) = (t, on_line h t) # judged ((t, on_line h t) # h) ts"

fun clockStep :: "(int \<times> int \<times> nat) option \<Rightarrow> int \<Rightarrow> bool \<times> (int \<times> int \<times> nat)" where
  "clockStep None t = (True, t, 0, 0)"
| "clockStep (Some (l, c, a)) t =
     (if in_range t l then (True, t, c, 0)
      else
        let a1 = (if a > 0 \<and> ptsGap t c \<le> 900000 then a + 1 else 1)
        in if a1 \<ge> 3 then (True, t, t, 0) else (False, l, t, a1))"

definition clock_of :: "nat \<Rightarrow> programPipe \<Rightarrow> (int \<times> int \<times> nat) option" where
  "clock_of pid p = map_option (\<lambda>c. (ck_last c, ck_cand c, ck_agree c)) (pp_clocks p pid)"

definition follows :: "nat \<Rightarrow> programPipe \<Rightarrow> bool" where
  "follows pid p \<longleftrightarrow> pid \<noteq> pp_pmtPID p \<and> (pid = pp_video p \<longrightarrow> \<not> pp_restart p \<and> \<not> pp_catching p)"

lemma keepPES_follows: "follows pid p \<Longrightarrow> follows pid (snd (keepPES now pid k p))"
  using keepPES_same [of p now pid k]
  by (auto simp: follows_def same_tables_def keepPES_def offTimeline_def canBreak_def Let_def pipe_simps setClock_def split: option.splits if_splits)

lemma keepPES_silent: "follows pid p \<Longrightarrow> header_time k = None \<Longrightarrow> clock_of pid (snd (keepPES now pid k p)) = clock_of pid p"
  by (auto simp: follows_def header_time_def keepPES_def clock_of_def pipe_simps split: option.splits if_splits)

lemma keepPES_header:
  assumes "follows pid p" "header_time k = Some t"
  shows "clockStep (clock_of pid p) t = (fst (keepPES now pid k p), the (clock_of pid (snd (keepPES now pid k p))))"
    "clock_of pid (snd (keepPES now pid k p)) \<noteq> None"
proof -
  have k: "k ! 3 AND 0x10 \<noteq> 0" "k ! 1 AND 0x40 \<noteq> 0" "pesTime (tsPayload k) = Some t"
    using assms(2) by (auto simp: header_time_def split: if_splits)
  have f: "pid \<noteq> pp_pmtPID p" "pid = pp_video p \<Longrightarrow> \<not> pp_restart p \<and> \<not> pp_catching p" using assms(1) by (simp_all add: follows_def)
  have "clockStep (clock_of pid p) t = (fst (keepPES now pid k p), the (clock_of pid (snd (keepPES now pid k p)))) \<and>
     clock_of pid (snd (keepPES now pid k p)) \<noteq> None"
  proof (cases "pp_clocks p pid")
    case None
    with k f(1) show ?thesis by (simp add: keepPES_def clock_of_def pipe_simps)
  next
    case (Some c)
    have cb: "(if pid = pp_video p then canBreak now p else (False, p)) = (False, p)" using f(2) by (simp add: canBreak_def)
    have calm: "pid = pp_video p \<Longrightarrow> \<not> pp_catching p" using f(2) by simp
    show ?thesis
      using k f(1) calm Some by (auto simp: keepPES_def clock_of_def offTimeline_def cb in_range_def Let_def pipe_simps)
  qed
  then show "clockStep (clock_of pid p) t = (fst (keepPES now pid k p), the (clock_of pid (snd (keepPES now pid k p))))"
    "clock_of pid (snd (keepPES now pid k p)) \<noteq> None" by simp_all
qed

fun runClock :: "(int \<times> int \<times> nat) option \<Rightarrow> int list \<Rightarrow> (int \<times> bool) list" where
  "runClock c [] = []"
| "runClock c (t # ts) = (t, fst (clockStep c t)) # runClock (Some (snd (clockStep c t))) ts"

lemma seen_run: "follows pid p \<Longrightarrow> seen now pid ks p = runClock (clock_of pid p) (List.map_filter header_time ks)"
proof (induction ks arbitrary: p)
  case (Cons k ks)
  have ih: "seen now pid ks (snd (keepPES now pid k p)) = runClock (clock_of pid (snd (keepPES now pid k p))) (List.map_filter header_time ks)"
    by (rule Cons.IH [OF keepPES_follows [OF Cons.prems]])
  show ?case
  proof (cases "header_time k")
    case None
    with ih keepPES_silent [OF Cons.prems None] show ?thesis by (simp add: map_filter_simps)
  next
    case (Some t)
    obtain st where "clock_of pid (snd (keepPES now pid k p)) = Some st" using keepPES_header(2) [OF Cons.prems Some] by blast
    with ih keepPES_header(1) [OF Cons.prems Some, of now] Some show ?thesis by (simp add: map_filter_simps)
  qed
qed (simp add: map_filter_simps)


fun remembers :: "(int \<times> bool) list \<Rightarrow> (int \<times> int \<times> nat) option \<Rightarrow> bool" where
  "remembers h None \<longleftrightarrow> h = []"
| "remembers h (Some (l, c, a)) \<longleftrightarrow>
     find snd h = Some (l, True) \<and>
     (case h of
        (t1, False) # (t2, False) # _ \<Rightarrow> c = t1 \<and> a = (if ptsGap t1 t2 \<le> 900000 then 2 else 1)
      | (t1, False) # _ \<Rightarrow> c = t1 \<and> a = 1
      | _ \<Rightarrow> a = 0)"

lemma clockStep_on_line:
  assumes "remembers h c"
  shows "fst (clockStep c t) = on_line h t" "remembers ((t, on_line h t) # h) (Some (snd (clockStep c t)))"
proof -
  have "fst (clockStep c t) = on_line h t \<and> remembers ((t, on_line h t) # h) (Some (snd (clockStep c t)))"
  proof (cases c)
    case None
    with assms show ?thesis by (simp add: on_line_def)
  next
    case (Some s)
    obtain l cd a where "s = (l, cd, a)" by (cases s)
    with Some assms show ?thesis
      by (auto simp: on_line_def Let_def split: list.splits bool.splits prod.splits if_splits)
  qed
  then show "fst (clockStep c t) = on_line h t" "remembers ((t, on_line h t) # h) (Some (snd (clockStep c t)))" by simp_all
qed

lemma runClock_judged: "remembers h c \<Longrightarrow> runClock c ts = judged h ts"
  by (induction ts arbitrary: h c) (simp_all add: clockStep_on_line)

end
