(* ===== verification/FilterWhole.thy ===== *)
theory FilterWhole
  imports ProgramFilterProps
begin

text \<open>
  The program filter never indexes out of range, and until it passes the stream through unchanged it writes whole
  packets that start with the sync byte.
\<close>

named_theorems whole_intros \<open>lists of whole packets\<close>

subsection \<open>Whole packets\<close>

definition whole :: "bytes \<Rightarrow> bool" where
  "whole xs \<longleftrightarrow> length xs mod 188 = 0 \<and> list_all (\<lambda>k. k ! 0 = 0x47) (packets_in xs)"

lemma packets_in_append: "length a mod 188 = 0 \<Longrightarrow> packets_in (a @ b) = packets_in a @ packets_in b"
proof (induction a rule: packets_in.induct)
  case (1 a)
  show ?case
  proof (cases "188 \<le> length a")
    case True
    with 1 have "packets_in (drop 188 a @ b) = packets_in (drop 188 a) @ packets_in b" by (simp add: le_mod_geq)
    with True show ?thesis by (simp add: packets_in_step)
  next
    case False
    with 1(2) show ?thesis by (simp add: packets_in_cut)
  qed
qed

lemma whole_nil [whole_intros]: "whole []"
  by (simp add: whole_def packets_in_cut)

lemma whole_append: "whole a \<Longrightarrow> whole (a @ b) = whole b"
  by (auto simp: whole_def packets_in_append mod_add_eq [symmetric, of "length a"])

lemma whole_appendI [whole_intros]: "whole a \<Longrightarrow> whole b \<Longrightarrow> whole (a @ b)"
  by (simp add: whole_append)

lemma whole_packet: "length k = 188 \<Longrightarrow> whole k \<longleftrightarrow> k ! 0 = 0x47"
  by (simp add: whole_def packets_in_step packets_in_cut)

lemma whole_take_drop: "whole xs \<Longrightarrow> 188 \<le> length xs \<Longrightarrow> whole (take 188 xs) \<and> whole (drop 188 xs)"
  by (simp add: whole_def packets_in_step [of xs] packets_in_step [of "take 188 xs"] packets_in_cut le_mod_geq)

lemma whole_drops: "whole xs \<Longrightarrow> n mod 188 = 0 \<Longrightarrow> n \<le> length xs \<Longrightarrow> whole (drop n xs)"
proof (induction n arbitrary: xs rule: less_induct)
  case (less n)
  show ?case
  proof (cases "n = 0")
    case False
    then have n: "188 \<le> n" using less.prems(2) by (metis mod_less not_le)
    have "whole (drop (n - 188) (drop 188 xs))"
      using less.IH [of "n - 188" "drop 188 xs"] less.prems n whole_take_drop [of xs] by (simp add: le_mod_geq)
    with n show ?thesis by simp
  qed (use less.prems in simp)
qed

lemma packetsOf_whole: "whole out \<Longrightarrow> whole (fst (packetsOf data off out))"
proof (induction data off out rule: packetsOf.induct)
  case (1 data off out)
  show ?case
  proof (cases "off + 376 < length data")
    case True
    show ?thesis
    proof (cases "data ! off \<noteq> 0x47 \<or> data ! (off + 188) \<noteq> 0x47 \<or> data ! (off + 376) \<noteq> 0x47")
      case True
      then show ?thesis using 1(1) [OF \<open>off + 376 < length data\<close> True] 1(3) \<open>off + 376 < length data\<close>
        by (simp add: packetsOf.simps [of data off])
    next
      case False
      with True have "whole (take 188 (drop off data))" by (simp add: whole_packet)
      then show ?thesis using 1(2) [OF True False] whole_appendI [OF 1(3)] True False
        by (simp add: packetsOf.simps [of data off])
    qed
  qed (simp add: packetsOf.simps [of data off] 1(3))
qed

subsection \<open>The pipe's packets\<close>

definition pipe_ok :: "programPipe \<Rightarrow> bool" where
  "pipe_ok p \<longleftrightarrow> (pp_ready p \<longrightarrow> length (pp_pat p) = 188 \<and> pp_pat p ! 0 = 0x47) \<and> whole (pp_pmtPkts p) \<and> whole (pp_hold p)"

lemma pipe_ok_cong:
  "pp_ready q = pp_ready p \<Longrightarrow> pp_pat q = pp_pat p \<Longrightarrow> pp_pmtPkts q = pp_pmtPkts p \<Longrightarrow> pp_hold q = pp_hold p \<Longrightarrow> pipe_ok q = pipe_ok p"
  by (simp add: pipe_ok_def)

lemma newPipe_ok: "pipe_ok (newPipe a b c d)"
  by (simp add: pipe_ok_def newPipe_def whole_intros)

text \<open>What every step of the filter leaves alone, and that the kept map stays whole.\<close>

definition stays :: "programPipe \<Rightarrow> programPipe \<Rightarrow> bool" where
  "stays p q \<longleftrightarrow> pp_ready q = pp_ready p \<and> pp_pat q = pp_pat p \<and> pp_hold q = pp_hold p \<and> pp_pass q = pp_pass p \<and>
     pp_started q = pp_started p \<and> (whole (pp_pmtPkts p) \<longrightarrow> whole (pp_pmtPkts q))"

lemma stays_refl [intro]: "stays p p"
  and stays_trans [trans]: "stays p q \<Longrightarrow> stays q r \<Longrightarrow> stays p r"
  and stays_ok: "stays p q \<Longrightarrow> pipe_ok p \<Longrightarrow> pipe_ok q"
  by (auto simp: stays_def pipe_ok_def)

lemma stays_steps:
  "stays p (catchPacket pkt p)" "stays p (countPacket pid pkt p)" "stays p (nextPat p)" "whole pkt \<Longrightarrow> stays p (noteMapPacket pid pkt p)"
  by (auto simp: stays_def catchPacket_def countPacket_def nextPat_def noteMapPacket_def stopCatching_def Let_def whole_intros split: option.split)

lemma useMap_stays: "\<exists>used q. useMap sec p = Some (used, q) \<and> stays p q"
proof (cases "length sec < 12")
  case True
  then show ?thesis by (auto simp: useMap_def)
next
  case False
  then obtain ss where "pmtStreams sec = Some ss" using pmtStreams_Some [of sec] by auto
  moreover obtain v k where "pmtVideo sec = Some (v, k)" using pmtVideo_Some by blast
  ultimately show ?thesis by (auto simp: useMap_def pmtElementary_def pmtSound_def stays_def Let_def)
qed

lemma followMaps_stays: "\<exists>q. followMaps secs p = Some q \<and> stays p q"
proof (induction secs arbitrary: p)
  case (Cons sec secs)
  obtain used p1 where um: "useMap sec p = Some (used, p1)" "stays p p1" using useMap_stays by blast
  obtain q where "followMaps secs p1 = Some q" "stays p1 q" using Cons.IH by blast
  then show ?case using um Cons.IH [of p] stays_trans by auto
qed auto

lemma hold_steps:
  "pp_hold (snd (canBreak now p)) = pp_hold p" "pp_hold (setClock i c p) = pp_hold p" "pp_hold (stopCatching p) = pp_hold p"
  by (simp_all add: canBreak_def Let_def setClock_def stopCatching_def)

lemma offTimeline_hold: "pp_hold (snd (offTimeline now pid pkt ts c p)) = pp_hold p"
proof -
  obtain may pa where cb: "canBreak now p = (may, pa)" by (cases "canBreak now p")
  have "pp_hold pa = pp_hold p" using hold_steps(1) [of now p] by (simp add: cb)
  then show ?thesis unfolding offTimeline_def Let_def cb by (simp add: hold_steps)
qed

lemma keepPES_stays: "stays p (snd (keepPES now pid pkt p))"
proof -
  have "pp_hold (snd (keepPES now pid pkt p)) = pp_hold p"
    by (simp add: keepPES_def offTimeline_hold hold_steps split: option.split)
  with keepPES_same [of p now pid pkt] show ?thesis by (simp add: same_tables_def stays_def)
qed

lemma patPacket_whole: "pipe_ok p \<Longrightarrow> pp_ready p \<Longrightarrow> whole (patPacket p)"
  by (simp add: pipe_ok_def patPacket_def whole_packet)

lemma renumber_whole: "length pkt = 188 \<Longrightarrow> pkt ! 0 = 0x47 \<Longrightarrow> whole (renumber pid pkt p)"
  by (auto simp: renumber_def whole_packet split: option.split)

lemma filterPacket_total:
  assumes "pipe_ok p" "pp_ready p" "length pkt = 188" "pkt ! 0 = 0x47"
  shows "\<exists>out q. filterPacket now pkt p = Some (out, q) \<and> stays p q \<and> whole out"
proof -
  define p0 where "p0 = catchPacket pkt p"
  define p1 where "p1 = noteMapPacket (pid_of pkt) pkt p0"
  have wp: "whole pkt" using assms(3,4) by (simp add: whole_packet)
  have s0: "stays p p0" and s1: "stays p p1"
    using stays_steps(1) stays_trans [OF stays_steps(1) stays_steps(4) [OF wp]] by (simp_all add: p0_def p1_def)
  have ok: "pipe_ok p0" "pp_ready p0" using stays_ok [OF s0 assms(1)] s0 assms(2) by (simp_all add: stays_def)
  obtain p2 where f: "followMap (pid_of pkt) pkt p1 = Some p2" "stays p1 p2"
    using followMaps_stays [of "sections pkt (pid_of pkt)" p1] stays_refl [of p1] unfolding followMap_def by (metis (full_types))
  obtain k p3 where kp: "keepPES now (pid_of pkt) pkt p2 = (k, p3)" by (cases "keepPES now (pid_of pkt) pkt p2")
  then have s3: "stays p2 p3" using keepPES_stays [of p2 now "pid_of pkt" pkt] by simp
  have s2: "stays p p2" using s1 f(2) by (rule stays_trans)
  have "stays p (nextPat p0)" "stays p p3" "stays p (countPacket (pid_of pkt) pkt p3)"
    using stays_trans [OF s0 stays_steps(3)] stays_trans [OF s2 s3] stays_trans [OF stays_trans [OF s2 s3] stays_steps(2)] by simp_all
  then show ?thesis using s2 f(1) kp patPacket_whole [OF ok] renumber_whole [OF assms(3,4)]
    by (cases k) (auto simp: filterPacket_def Let_def p0_def [symmetric] p1_def [symmetric] whole_nil)
qed

lemma filter_total:
  "pipe_ok p \<Longrightarrow> pp_ready p \<Longrightarrow> whole data \<Longrightarrow> \<exists>out q. filter_data now data p = Some (out, q) \<and> pipe_ok q \<and> pp_ready q \<and> pp_pass q = pp_pass p \<and> whole out"
proof (induction now data p rule: filter_data.induct)
  case (1 now data p)
  show ?case
  proof (cases "188 \<le> length data")
    case False
    with 1(2,3) show ?thesis by (simp add: filter_data.simps whole_nil)
  next
    case True
    have cut: "whole (take 188 data)" "whole (drop 188 data)" using whole_take_drop [OF 1(4) True] by simp_all
    then have "take 188 data ! 0 = 0x47" "length (take 188 data) = 188" using True whole_packet [of "take 188 data"] by simp_all
    from filterPacket_total [OF 1(2,3) this(2,1), of now]
    obtain o1 p1 where fp: "filterPacket now (take 188 data) p = Some (o1, p1)" "stays p p1" "whole o1" by blast
    have ok: "pipe_ok p1" "pp_ready p1" "pp_pass p1 = pp_pass p" using stays_ok [OF fp(2) 1(2)] fp(2) 1(3) by (simp_all add: stays_def)
    show ?thesis
    proof (cases "pp_broken p1")
      case True
      with fp ok \<open>188 \<le> length data\<close> show ?thesis by (simp add: filter_data.simps [of now data] pipe_ok_def)
    next
      case False
      with 1(1) [OF True fp(1) refl False ok(1,2) cut(2)] fp(1,3) ok True show ?thesis
        by (auto simp: filter_data.simps [of now data] whole_intros)
    qed
  qed
qed

subsection \<open>Learning the tables\<close>

lemma firstFrom_Some: "stop \<le> length sec \<Longrightarrow> \<exists>p. firstFrom sec stop off = Some p"
proof (induction sec stop off rule: firstFrom.induct)
  case (1 sec stop off)
  then show ?case by (subst firstFrom.simps) (auto simp: idx_def)
qed

lemma learnPAT_Some: "\<exists>a b c d. learnPAT secs program tsID absent = Some (a, b, c, d)"
proof (induction secs arbitrary: program tsID absent)
  case (Cons sec secs)
  obtain program1 where "(if program = anyProgram then firstProgram sec else Some program) = Some program1"
    using firstFrom_Some [OF sectionEnd_le, of sec 8] unfolding firstProgram_def by (cases "program = anyProgram") auto
  moreover obtain pid where "patPMT sec program1 = Some pid" using patPMT_Some by blast
  ultimately show ?case using Cons.IH by (cases "pid = 0") auto
qed simp

lemma useFirst_stays: "\<exists>used q. useFirst secs p = Some (used, q) \<and> stays p q"
proof (induction secs arbitrary: p)
  case (Cons sec secs)
  obtain used p1 where um: "useMap sec p = Some (used, p1)" "stays p p1" using useMap_stays by blast
  obtain u q where "useFirst secs p1 = Some (u, q)" "stays p1 q" using Cons.IH by blast
  then show ?case using um stays_trans by (cases used) auto
qed auto

lemma singleProgramPAT_packet: "length (singleProgramPAT a b c) = 188" "singleProgramPAT a b c ! 0 = 0x47"
  by (simp_all add: singleProgramPAT_def Let_def)

lemma learn_ok:
  assumes "pipe_ok p" "\<not> pp_ready p"
  shows "\<exists>known q. learn buf p = Some (known, q) \<and> pipe_ok q \<and> pp_ready q = known \<and> (known \<longrightarrow> pp_pass q = pp_pass p)"
proof -
  obtain program tsID pmt absent where lp: "learnPAT (sections buf 0) (pp_program p) 0 False = Some (program, tsID, pmt, absent)"
    using learnPAT_Some by blast
  obtain used q where uf: "useFirst (sections buf pmt) (p\<lparr>pp_program := program, pp_pmtPID := pmt\<rparr>) = Some (used, q)"
      "stays (p\<lparr>pp_program := program, pp_pmtPID := pmt\<rparr>) q"
    using useFirst_stays by blast
  then have "whole (pp_pmtPkts q)" "whole (pp_hold q)" "\<not> pp_ready q" "pp_pass q = pp_pass p"
    using assms by (simp_all add: stays_def pipe_ok_def)
  moreover have "pipe_ok (p\<lparr>pp_program := program, pp_pass := b\<rparr>)" for b using assms by (simp add: pipe_ok_def)
  ultimately show ?thesis using assms lp uf(1)
    by (cases "pmt = 0"; cases used; cases absent) (auto simp: learn_def Let_def pipe_ok_def singleProgramPAT_packet)
qed

lemma startAt_mod: "startAt out off p = Some n \<Longrightarrow> n mod 188 = off mod 188 \<and> n \<le> length out"
proof (induction out off p rule: startAt.induct)
  case (1 out off p)
  have "(off + 188) mod 188 = off mod 188" by simp
  with 1 show ?case by (auto simp: startAt.simps [of out off] Let_def split: if_splits)
qed

lemma start_ok:
  assumes "pipe_ok p" "pp_ready p" "whole out"
  shows "pipe_ok (snd (start_data out p)) \<and> whole (fst (start_data out p)) \<and> pp_pass (snd (start_data out p)) = pp_pass p"
proof (cases "startAt out 0 p")
  case None
  with assms show ?thesis by (auto simp: start_data_def Let_def pipe_ok_def whole_intros)
next
  case (Some n)
  then have "whole (drop n out)" using startAt_mod [OF Some] whole_drops [OF assms(3)] by simp
  then have "whole (patPacket p @ pp_pmtPkts p @ drop n out)"
    using assms(1) patPacket_whole [OF assms(1,2)] by (simp add: whole_intros pipe_ok_def)
  with Some assms show ?thesis by (auto simp: start_data_def nextPat_def pipe_ok_def)
qed

subsection \<open>Writes\<close>

definition written :: "bytes \<times> programPipe \<Rightarrow> bool" where
  "written r \<longleftrightarrow> pipe_ok (snd r) \<and> (pp_pass (snd r) \<or> whole (fst r))"

definition fine :: "(bytes \<times> programPipe) option \<Rightarrow> bool" where
  "fine r \<longleftrightarrow> (\<exists>x. r = Some x \<and> written x)"

lemma fine_Some: "fine (Some x) = written x"
  by (simp add: fine_def)

lemma writeKnown_ok: "pipe_ok p \<Longrightarrow> pp_ready p \<Longrightarrow> whole pkts \<Longrightarrow> fine (writeKnown now pkts p)"
  using filter_total [of p pkts now] start_ok by (fastforce simp: writeKnown_def fine_def written_def)

lemma giveUp_ok: "pipe_ok p \<Longrightarrow> written (giveUp p)"
  by (simp add: giveUp_def written_def pipe_ok_def whole_nil)

lemma writePackets_ok:
  assumes "pipe_ok p"
  shows "fine (writePackets now p)"
proof -
  obtain pkts rest where po: "packetsOf (pp_rest p) 0 [] = (pkts, rest)" by (cases "packetsOf (pp_rest p) 0 []")
  then have pk: "whole pkts" using packetsOf_whole [OF whole_nil, of "pp_rest p" 0] by simp
  define p1 where "p1 = p\<lparr>pp_rest := rest\<rparr>"
  have ok: "pipe_ok p1" using assms by (simp add: p1_def pipe_ok_def)
  show ?thesis
  proof (cases "pp_ready p1")
    case True
    with writeKnown_ok [OF ok True pk] po show ?thesis by (simp add: writePackets_def p1_def)
  next
    case False
    have "pipe_ok (p1\<lparr>pp_hold := pp_hold p1 @ pkts\<rparr>)" using ok pk by (simp add: pipe_ok_def whole_intros)
    from learn_ok [OF this, of "pp_hold p1 @ pkts"] False obtain known q where l: "learn (pp_hold p1 @ pkts) (p1\<lparr>pp_hold := pp_hold p1 @ pkts\<rparr>) = Some (known, q)"
        "pipe_ok q" "pp_ready q = known" by auto
    have "fine (writeKnown now (pp_hold q) (q\<lparr>pp_hold := []\<rparr>))" if known
      using writeKnown_ok [of "q\<lparr>pp_hold := []\<rparr>" "pp_hold q" now] l that by (simp add: pipe_ok_def whole_nil)
    moreover have "writePackets now p = (if \<not> known then
        (if \<not> pp_pass q \<and> length (pp_hold q) < programFilterCap then Some ([], q) else Some (giveUp q))
      else writeKnown now (pp_hold q) (q\<lparr>pp_hold := []\<rparr>))"
      using False l(1) unfolding writePackets_def po prod.case Let_def p1_def [symmetric] by simp
    moreover have "written ([], q)" using l(2) by (simp add: written_def whole_nil)
    ultimately show ?thesis using giveUp_ok [OF l(2)] by (simp add: fine_Some)
  qed
qed

lemma writeWhole_ok: "pipe_ok p \<Longrightarrow> fine (writeWhole now chunk p)"
  using writePackets_ok [of "p\<lparr>pp_rest := pp_rest p @ chunk\<rparr>" now] giveUp_ok [of "p\<lparr>pp_rest := pp_rest p @ chunk\<rparr>"]
    writePackets_ok [of "p\<lparr>pp_synced := True, pp_rest := d\<rparr>" now for d]
    pipe_ok_cong [of "p\<lparr>pp_synced := b, pp_rest := d\<rparr>" p for d b] pipe_ok_cong [of "p\<lparr>pp_rest := d\<rparr>" p for d]
  by (simp add: writeWhole_def Let_def fine_Some written_def whole_nil split: option.split)

subsection \<open>Samples\<close>

definition sample_packet :: "byte \<Rightarrow> byte \<Rightarrow> byte \<Rightarrow> bytes" where
  "sample_packet start cc time =
     [0x47, start, 0x00, cc, 0x00, 0x00, 0x01, 0xe0, 0x00, 0x00, 0x80, 0x80, 0x05, time, 0x00, 0x01, 0x00, 0x01] @ replicate 170 0"

text \<open>A frame, the first packet of one hours away, the rest of that one, and the next frame.\<close>

definition sample_packets :: "bytes list" where
  "sample_packets = [sample_packet 0x41 0x11 0x21, sample_packet 0x41 0x12 0x2f, sample_packet 0x01 0x13 0, sample_packet 0x41 0x14 0x21]"

definition sample_pipe :: programPipe where
  "sample_pipe = (newPipe 3 False [] None)\<lparr>pp_keep := [0, 48, 256], pp_pmtPID := 48, pp_ready := True, pp_pat := singleProgramPAT 3 48 1\<rparr>"

lemma sample_packet_fields:
  "length (sample_packet s cc t) = 188" "sample_packet s cc t ! 0 = 0x47" "sample_packet s cc t ! 3 = cc"
  "pid_of (sample_packet s cc t) = be16 (s AND 0x1f) 0" "counter (sample_packet s cc t) = uint cc mod 16"
  by (simp_all add: sample_packet_def pid_of_def counter_def)

lemma sample_pid: "k \<in> set sample_packets \<Longrightarrow> pid_of k = 256"
  by (auto simp: sample_packets_def sample_packet_fields be16_def)

lemma sample_stream: "packets_in (concat sample_packets) = sample_packets" "of_pid 256 (concat sample_packets) = sample_packets"
  "whole (concat sample_packets)"
proof -
  show ps: "packets_in (concat sample_packets) = sample_packets"
    by (simp add: sample_packets_def packets_in_cut packets_in_step sample_packet_fields)
  then show "of_pid 256 (concat sample_packets) = sample_packets"
    unfolding of_pid_def ps using sample_pid by simp
  show "whole (concat sample_packets)"
    unfolding whole_def ps by (simp add: sample_packets_def sample_packet_fields)
qed

lemma sample_pipe_ok: "pat_ok sample_pipe" "pipe_ok sample_pipe"
  by (simp_all add: pat_ok_def pipe_ok_def sample_pipe_def singleProgramPAT_packet newPipe_def whole_nil)
   (simp add: singleProgramPAT_def pid_of_def Let_def be16_def)



subsection \<open>Properties\<close>

text \<open>
  C33. Type: a pipe whose tables are whole packets still has whole packets after any Write of any bytes, which never
  indexes out of range; and what the Write sends to the encoder is whole packets that start with the sync byte, unless the
  pipe has given up and passes the stream through.
\<close>

lemma filter_writes_packets:
  assumes "pipe_ok p"
  shows "\<exists>out q. Write now given chunk p = Some (out, q) \<and> pipe_ok q \<and> (pp_pass q \<or> whole out)"
proof -
  have "fine (Write now given chunk p)"
    using assms writeWhole_ok [OF assms] writeWhole_ok [OF newPipe_ok]
      pipe_ok_cong [of "p\<lparr>pp_tail := d\<rparr>" p for d]
    by (simp add: Write_def Let_def fine_Some written_def whole_nil)
  then show ?thesis by (auto simp: fine_def written_def)
qed

lemma filter_writes_packets_witness:
  "\<exists>out q. Write 0 False (replicate 188 0x47) (newPipe 3 False [] None) = Some (out, q) \<and> pipe_ok q \<and> (pp_pass q \<or> whole out)"
  by (rule filter_writes_packets [OF newPipe_ok])


text \<open>
  C34. Continuity: when the counters of a stream's packets count on in what comes in, they count on in what goes out,
  from the point the packets dropped so far have left them at, whatever frames the filter drops on the way.
\<close>

lemma filter_keeps_counting:
  assumes "filter_data now data p = Some (out, q)" "pat_ok p" "pid \<noteq> 0" "pid \<noteq> pp_pmtPID p" "pid \<in> set (pp_keep p)" "\<not> pp_broken p"
    "\<forall>pkt \<in> set (packets_in data). steady p pkt" "\<forall>pkt \<in> set (of_pid pid data). pkt ! 3 AND 0x30 \<noteq> 0"
    "counted c (of_pid pid data)"
  shows "counted (c - uint (shift_of pid p)) (of_pid pid out)"
  by (rule filter_counts [OF assms])

lemma filter_keeps_counting_witness:
  "\<exists>out q. filter_data 0 (concat sample_packets) sample_pipe = Some (out, q) \<and> counted 0 (of_pid 256 out)"
proof -
  have pipe: "pp_ready sample_pipe" "256 \<noteq> pp_pmtPID sample_pipe" "256 \<in> set (pp_keep sample_pipe)" "\<not> pp_broken sample_pipe"
    "shift_of 256 sample_pipe = 0" "pp_pmtPID sample_pipe = 48"
    by (simp_all add: sample_pipe_def newPipe_def shift_of_def)
  obtain out q where out: "filter_data 0 (concat sample_packets) sample_pipe = Some (out, q)"
    using filter_total [OF sample_pipe_ok(2) pipe(1) sample_stream(3)] by blast
  have "counted (0 - uint (shift_of 256 sample_pipe)) (of_pid 256 out)"
  proof (rule filter_keeps_counting [OF out sample_pipe_ok(1) _ pipe(2,3,4)])
    show "\<forall>pkt \<in> set (packets_in (concat sample_packets)). steady sample_pipe pkt"
      using sample_pid by (auto simp: sample_stream steady_def pipe(6))
    show "\<forall>pkt \<in> set (of_pid 256 (concat sample_packets)). pkt ! 3 AND 0x30 \<noteq> 0" "counted 0 (of_pid 256 (concat sample_packets))"
      unfolding sample_stream(2) by (simp_all add: sample_packets_def sample_packet_fields)
  qed simp
  with out pipe(5) show ?thesis by auto
qed



end
