(* ===== verification/Tables.thy ===== *)
theory Tables
  imports FilterWhole PsipTables
begin

text \<open>
  The program table the filter writes: its checksum is the one the guide reader computes bit by bit, and the readers of
  \<^verbatim>\<open>scantype.go\<close> find in it the program and the map that went in.
\<close>

subsection \<open>The checksum\<close>

lemma crcStep_xor: "crcStep (a XOR b) = crcStep a XOR crcStep b"
proof -
  have top: "x AND 0x80000000 \<noteq> 0 \<longleftrightarrow> bit x 31" for x :: "32 word"
    using and_exp_eq_0_iff_not_bit [of x 31] by simp
  show ?thesis
    unfolding crcStep_def top by (auto simp: bit_simps push_bit_xor ac_simps)
qed

lemma crcSteps_xor: "(crcStep ^^ n) (a XOR b) = (crcStep ^^ n) a XOR (crcStep ^^ n) b"
  by (induction n) (simp_all add: crcStep_xor)

lemma crcSteps_low: "n \<le> 8 \<Longrightarrow> (\<And>i. 24 \<le> i \<Longrightarrow> \<not> bit a i) \<Longrightarrow> (crcStep ^^ n) a = push_bit n a"
proof (induction n)
  case (Suc n)
  have "\<not> bit (push_bit n a) 31" using Suc.prems by (simp add: bit_simps)
  then have "push_bit n a AND 0x80000000 = 0" using and_exp_eq_0_iff_not_bit [of "push_bit n a" 31] by simp
  with Suc show ?case by (simp add: crcStep_def)
qed simp

lemma crcBit_step: "crcBit = crcStep"
  by (rule ext) (simp add: crcBit_def crcStep_def)

lemma crcByte_table: "crcByte crc b = push_bit 8 crc XOR mpegCRCTable (ucast (drop_bit 24 crc) XOR b)"
proof -
  define low where "low = take_bit 24 crc"
  define top where "top = push_bit 24 (ucast (ucast (drop_bit 24 crc) XOR b :: byte) :: 32 word)"
  have "crc XOR push_bit 24 (ucast b) = low XOR top"
    by (rule bit_word_eqI) (auto simp: low_def top_def bit_simps)
  moreover have "\<not> bit low i" if "24 \<le> i" for i using that by (simp add: low_def bit_simps)
  moreover have "push_bit 8 low = push_bit 8 crc" by (rule bit_word_eqI) (auto simp: low_def bit_simps)
  ultimately show ?thesis using crcSteps_low [of 8 low]
    by (simp add: crcByte_def crcBit_step crcSteps_xor mpegCRCTable_def top_def)
qed

lemma checksums_agree: "ProgramFilter.mpegCRC data = PsipTables.mpegCRC data"
  unfolding ProgramFilter.mpegCRC_def PsipTables.mpegCRC_def by (simp add: crcByte_table [abs_def])

subsection \<open>The table\<close>

lemma be32_bytes: "be32 (ucast (drop_bit 24 c)) (ucast (drop_bit 16 c)) (ucast (drop_bit 8 c)) (ucast c) = c"
proof (rule bit_word_eqI)
  fix n assume "n < LENGTH(32)"
  then consider "n < 8" | "8 \<le> n" "n < 16" | "16 \<le> n" "n < 24" | "24 \<le> n" "n < 32" by fastforce
  then show "bit (be32 (ucast (drop_bit 24 c)) (ucast (drop_bit 16 c)) (ucast (drop_bit 8 c)) (ucast c)) n = bit c n"
    by cases (auto simp: be32_def bit_simps)
qed

definition table_body :: "int \<Rightarrow> nat \<Rightarrow> nat \<Rightarrow> bytes" where
  "table_body program pmt tsID = [0x00, 0xb0, 0x0d, of_nat (tsID div 256), of_nat tsID, 0xc1, 0x00, 0x00,
     word_of_int (program div 256), word_of_int program, 0xe0 OR of_nat (pmt div 256), of_nat pmt]"

definition table_of :: "int \<Rightarrow> nat \<Rightarrow> nat \<Rightarrow> bytes" where
  "table_of program pmt tsID = table_body program pmt tsID @
     (let crc = PsipTables.mpegCRC (table_body program pmt tsID)
      in [ucast (drop_bit 24 crc), ucast (drop_bit 16 crc), ucast (drop_bit 8 crc), ucast crc])"

lemma table_length: "length (table_body program pmt tsID) = 12" "length (table_of program pmt tsID) = 16"
  by (simp_all add: table_body_def table_of_def Let_def)

lemma singleProgramPAT_table:
  "singleProgramPAT program pmt tsID = [0x47, 0x40, 0x00, 0x10, 0x00] @ table_of program pmt tsID @ replicate 167 0xff"
proof -
  have "[0x00, 0xb0 OR of_nat ((13 :: nat) div 256), of_nat (13 :: nat)] @ [of_nat (tsID div 256), of_nat tsID, 0xc1, 0x00, 0x00,
      word_of_int (program div 256), word_of_int program, 0xe0 OR of_nat (pmt div 256), of_nat pmt] = table_body program pmt tsID"
    by (simp add: table_body_def)
  then show ?thesis
    unfolding singleProgramPAT_def Let_def table_of_def checksums_agree by (simp add: table_length)
qed

lemma table_section:
  "sections (singleProgramPAT program pmt tsID) 0 = [table_of program pmt tsID @ replicate 167 0xff]"
proof -
  let ?pkt = "singleProgramPAT program pmt tsID"
  have len: "length ?pkt = 188" by (simp add: singleProgramPAT_packet)
  have "packetCall 0 ?pkt = Some (True, 0 # table_of program pmt tsID @ replicate 167 0xff)"
    by (simp add: packetCall_def singleProgramPAT_table pid_of_def be16_eq)
  then have "eachPacket ?pkt 0 0 = [(True, 0 # table_of program pmt tsID @ replicate 167 0xff)]"
    using len by (simp add: eachPacket.simps [of ?pkt 0 0] eachPacket.simps [of ?pkt 0 188] tsAligned_def singleProgramPAT_packet)
  moreover have "table_of program pmt tsID \<noteq> []" using table_length(2) by (metis list.size(3) zero_neq_numeral)
  ultimately show ?thesis by (simp add: sections_def sectionStep_def flush_def)
qed

lemma table_checks: "crcOK (table_of program pmt tsID) = Some True"
proof -
  have "take 12 (table_of program pmt tsID) = table_body program pmt tsID" by (simp add: table_of_def table_length)
  then show ?thesis
    by (simp add: crcOK_def table_length panic_simps)
       (simp add: table_of_def table_length Let_def nth_append be32_bytes idx_def)
qed

lemma be16_of_nat: "n < 65536 \<Longrightarrow> be16 (of_nat (n div 256)) (of_nat n) = n"
  by (simp add: be16_eq unsigned_of_nat take_bit_eq_mod)

lemma table_fields:
  assumes "0 < program" "program < 65536" "pmt < 8192"
  shows "firstProgram (table_of program pmt tsID @ pad) = Some program" "patPMT (table_of program pmt tsID @ pad) program = Some pmt"
proof -
  let ?sec = "table_of program pmt tsID @ pad"
  have nths: "?sec ! i = table_body program pmt tsID ! i" if "i < 12" for i
    using that by (simp add: table_of_def nth_append table_length)
  have bytes: "?sec ! 1 = 0xb0" "?sec ! 2 = 0x0d" "?sec ! 8 = word_of_int (program div 256)" "?sec ! 9 = word_of_int program"
    "?sec ! 10 = 0xe0 OR of_nat (pmt div 256)" "?sec ! 11 = of_nat pmt"
    using nths [of 1] nths [of 2] nths [of 8] nths [of 9] nths [of 10] nths [of 11] by (simp_all add: table_body_def)
  have "length ?sec = 16 + length pad" by (simp add: table_length)
  with bytes(1,2) have stop: "sectionEnd ?sec = 12" by (simp add: sectionEnd_def be16_eq Let_def)
  have idxs: "idx ?sec 8 = Some (?sec ! 8)" "idx ?sec 9 = Some (?sec ! 9)" "idx ?sec 10 = Some (?sec ! 10)" "idx ?sec 11 = Some (?sec ! 11)"
    by (simp_all add: idx_def table_length)
  define n where "n = nat program"
  have n: "program = int n" "0 < n" "n < 65536" using assms(1,2) by (simp_all add: n_def)
  have "(word_of_int (int k) :: byte) = of_nat k" for k by simp
  moreover have "program div 256 = int (n div 256)" by (simp add: n(1) zdiv_int)
  ultimately have prog: "be16 (?sec ! 8) (?sec ! 9) = n"
    using be16_of_nat [OF n(3)] unfolding bytes(3,4) by (simp only: n(1))
  have "(0xe0 OR of_nat k) AND 0x1f = (of_nat k :: byte)" if "k < 32" for k
  proof -
    have low: "w AND 0x1f = take_bit 5 w" for w :: byte by (simp add: take_bit_eq_mask mask_eq_decr_exp)
    have "take_bit 5 (of_nat k :: byte) = of_nat (take_bit 5 k)" by (simp add: take_bit_of_nat)
    moreover have "take_bit 5 k = k" using that by (simp add: take_bit_nat_eq_self)
    ultimately show ?thesis unfolding low by simp
  qed
  from this [of "pmt div 256"] assms(3) have "(0xe0 OR of_nat (pmt div 256)) AND 0x1f = (of_nat (pmt div 256) :: byte)" by simp
  then have map: "be16 (?sec ! 10 AND 0x1f) (?sec ! 11) = pmt"
    using be16_of_nat [of pmt] assms(3) by (simp add: bytes)
  show "firstProgram ?sec = Some program"
    using prog n(2) unfolding n(1) [symmetric] by (simp add: firstProgram_def stop firstFrom.simps [of ?sec 12 8] idxs n(1) [symmetric])
  show "patPMT ?sec program = Some pmt"
    using prog map n(2) by (simp add: patPMT_def stop patFrom.simps [of ?sec 12 program 8] idxs n(1) [symmetric])
qed

subsection \<open>Properties\<close>

text \<open>
  C36. Round trip: the program table the filter writes for a program and the PID of its map is one section; the guide reader's checksum
  test accepts it, and the reader of program tables finds that program first and that PID for it.
\<close>

lemma program_table_reads_back:
  assumes "0 < program" "program < 65536" "pmt < 8192"
  shows "\<exists>sec. sections (singleProgramPAT program pmt tsID) 0 = [sec] \<and> crcOK (take 16 sec) = Some True \<and>
    firstProgram sec = Some program \<and> patPMT sec program = Some pmt"
  using table_fields [OF assms] table_checks by (simp add: table_section table_length)

lemma program_table_reads_back_witness:
  "\<exists>sec. sections (singleProgramPAT 3 48 1) 0 = [sec] \<and> crcOK (take 16 sec) = Some True \<and>
    firstProgram sec = Some 3 \<and> patPMT sec 3 = Some 48"
  by (rule program_table_reads_back) simp_all

end
