(* ===== verification/Boxes.thy ===== *)
theory Boxes
  imports Prelude
begin

text \<open>
  MP4 boxes: the readers and writers that \<^verbatim>\<open>server/internal/live/fmp4.go\<close> and \<^verbatim>\<open>pack.go\<close> share. A box's kind is
  its four bytes. Every field is read under the length test the code makes just before. An \<^verbatim>\<open>int64\<close> is an integer:
  the times of a broadcast and the sizes of a fragment stay far below its ends; a conversion to it, and every conversion to fewer bits,
  is exact.
\<close>

subsection \<open>Big-endian numbers\<close>

definition be :: "bytes \<Rightarrow> nat" where
  "be bs = foldl (\<lambda>v x. 256 * v + unat x) 0 bs"

definition u16 :: "bytes \<Rightarrow> nat \<Rightarrow> nat" where "u16 b i = be (take 2 (drop i b))"
definition u24 :: "bytes \<Rightarrow> nat \<Rightarrow> nat" where "u24 b i = be (take 3 (drop i b))"
definition u32 :: "bytes \<Rightarrow> nat \<Rightarrow> nat" where "u32 b i = be (take 4 (drop i b))"
definition u64 :: "bytes \<Rightarrow> nat \<Rightarrow> nat" where "u64 b i = be (take 8 (drop i b))"

text \<open>\<^verbatim>\<open>int32\<close> and \<^verbatim>\<open>int64\<close> of an unsigned number of that width.\<close>

definition signed :: "nat \<Rightarrow> nat \<Rightarrow> int" where
  "signed w v = (if v < 2 ^ (w - 1) then int v else int v - 2 ^ w)"

primrec put :: "nat \<Rightarrow> nat \<Rightarrow> bytes" where
  "put 0 v = []"
| "put (Suc n) v = put n (v div 256) @ [of_nat v]"

text \<open>\<^verbatim>\<open>PutUint32\<close> and \<^verbatim>\<open>PutUint64\<close> of a signed number.\<close>

definition putInt :: "nat \<Rightarrow> int \<Rightarrow> bytes" where
  "putInt n v = put n (nat (v mod 256 ^ n))"

text \<open>A flag word and a mask.\<close>

definition has :: "nat \<Rightarrow> nat \<Rightarrow> bool" where
  "has flags m \<longleftrightarrow> flags AND m \<noteq> 0"

subsection \<open>Boxes\<close>

record box =
  bx_kind :: bytes
  bx_body :: bytes

abbreviation (input) "k_moov \<equiv> [0x6d, 0x6f, 0x6f, 0x76 :: byte]"
abbreviation (input) "k_mvhd \<equiv> [0x6d, 0x76, 0x68, 0x64 :: byte]"
abbreviation (input) "k_trak \<equiv> [0x74, 0x72, 0x61, 0x6b :: byte]"
abbreviation (input) "k_tkhd \<equiv> [0x74, 0x6b, 0x68, 0x64 :: byte]"
abbreviation (input) "k_mdia \<equiv> [0x6d, 0x64, 0x69, 0x61 :: byte]"
abbreviation (input) "k_mdhd \<equiv> [0x6d, 0x64, 0x68, 0x64 :: byte]"
abbreviation (input) "k_hdlr \<equiv> [0x68, 0x64, 0x6c, 0x72 :: byte]"
abbreviation (input) "k_edts \<equiv> [0x65, 0x64, 0x74, 0x73 :: byte]"
abbreviation (input) "k_elst \<equiv> [0x65, 0x6c, 0x73, 0x74 :: byte]"
abbreviation (input) "k_moof \<equiv> [0x6d, 0x6f, 0x6f, 0x66 :: byte]"
abbreviation (input) "k_mdat \<equiv> [0x6d, 0x64, 0x61, 0x74 :: byte]"
abbreviation (input) "k_mfhd \<equiv> [0x6d, 0x66, 0x68, 0x64 :: byte]"
abbreviation (input) "k_traf \<equiv> [0x74, 0x72, 0x61, 0x66 :: byte]"
abbreviation (input) "k_tfhd \<equiv> [0x74, 0x66, 0x68, 0x64 :: byte]"
abbreviation (input) "k_tfdt \<equiv> [0x74, 0x66, 0x64, 0x74 :: byte]"
abbreviation (input) "k_trun \<equiv> [0x74, 0x72, 0x75, 0x6e :: byte]"
abbreviation (input) "k_vide \<equiv> [0x76, 0x69, 0x64, 0x65 :: byte]"

text \<open>The size and the header length of the box at the front, from at least eight bytes.\<close>

definition boxHeader :: "bytes \<Rightarrow> int \<times> nat" where
  "boxHeader b =
     (let size = int (u32 b 0);
          (size1, head) = (if size = 1 \<and> length b \<ge> 16 then (signed 64 (u64 b 8), 16) else (size, 8))
      in (if size1 = 0 then int (length b) else size1, head))"

lemma boxHeader_head: "boxHeader b = (sz, head) \<Longrightarrow> 8 \<le> head"
  by (auto simp: boxHeader_def Let_def split: if_splits)

function boxes :: "bytes \<Rightarrow> box list" where
  "boxes b =
     (if length b < 8 then []
      else
        let (size, head) = boxHeader b in
        if size < int head \<or> size > int (length b) then []
        else \<lparr>bx_kind = take 4 (drop 4 b), bx_body = take (nat size - head) (drop head b)\<rparr> # boxes (drop (nat size) b))"
  by pat_completeness auto
termination
  by (relation "measure length") (auto dest!: boxHeader_head [OF sym])

declare boxes.simps [simp del]

text \<open>\<^verbatim>\<open>child\<close>: the first box of a kind; None is nil, which has length zero.\<close>

definition child :: "bytes \<Rightarrow> bytes \<Rightarrow> bytes option" where
  "child b kind = map_option bx_body (find (\<lambda>x. bx_kind x = kind) (boxes b))"

definition body_of :: "bytes option \<Rightarrow> bytes" where
  "body_of o1 = (case o1 of Some b \<Rightarrow> b | None \<Rightarrow> [])"

definition putBox :: "bytes \<Rightarrow> bytes \<Rightarrow> bytes" where
  "putBox kind body = put 4 (8 + length body) @ kind @ body"

text \<open>
  Writing into a slice: the body of the first box of a kind, and of every box of a kind, replaced
  by one of the same length, where it stands.
\<close>

function onFirst :: "bytes \<Rightarrow> (bytes \<Rightarrow> bytes) \<Rightarrow> bytes \<Rightarrow> bytes" where
  "onFirst kind f b =
     (if length b < 8 then b
      else
        let (size, head) = boxHeader b in
        if size < int head \<or> size > int (length b) then b
        else if take 4 (drop 4 b) = kind then take head b @ f (take (nat size - head) (drop head b)) @ drop (nat size) b
        else take (nat size) b @ onFirst kind f (drop (nat size) b))"
  by pat_completeness auto
termination
  by (relation "measure (\<lambda>(kind, f, b). length b)") (auto dest!: boxHeader_head [OF sym])

declare onFirst.simps [simp del]

function onEach :: "bytes \<Rightarrow> (bytes \<Rightarrow> bytes) \<Rightarrow> bytes \<Rightarrow> bytes" where
  "onEach kind f b =
     (if length b < 8 then b
      else
        let (size, head) = boxHeader b in
        if size < int head \<or> size > int (length b) then b
        else
          (if take 4 (drop 4 b) = kind then take head b @ f (take (nat size - head) (drop head b)) else take (nat size) b) @
          onEach kind f (drop (nat size) b))"
  by pat_completeness auto
termination
  by (relation "measure (\<lambda>(kind, f, b). length b)") (auto dest!: boxHeader_head [OF sym])

declare onEach.simps [simp del]

subsection \<open>Round trips\<close>

lemma be_snoc: "be (bs @ [x]) = 256 * be bs + unat x"
  by (simp add: be_def)

lemma length_put [simp]: "length (put n v) = n"
  by (induction n arbitrary: v) simp_all

lemma length_putInt [simp]: "length (putInt n v) = n"
  by (simp add: putInt_def)

lemma be_put: "be (put n v) = v mod 256 ^ n"
proof (induction n arbitrary: v)
  case (Suc n)
  have "unat (of_nat v :: byte) = v mod 256" by (simp add: unsigned_of_nat take_bit_eq_mod)
  with Suc show ?case by (simp add: be_snoc mod_mult2_eq mult.commute)
qed (simp add: be_def)

lemma be_less: "be bs < 256 ^ length bs"
proof (induction bs rule: rev_induct)
  case (snoc x bs)
  have "256 * be bs + unat x < 256 * 256 ^ length bs"
  proof -
    have "unat x < 256" using unsigned_less [of x] by simp
    moreover have "256 * be bs + 256 \<le> 256 * 256 ^ length bs" using snoc by simp
    ultimately show ?thesis by linarith
  qed
  then show ?case by (simp add: be_snoc)
qed (simp add: be_def)

lemma u32_less: "u32 b i < 2 ^ 32" and u64_less: "u64 b i < 2 ^ 64" and u24_less: "u24 b i < 2 ^ 24"
proof -
  have "be (take n (drop i b)) < 256 ^ n" for n
    using be_less [of "take n (drop i b)"]
    by (rule order.strict_trans2) simp_all
  from this [of 4] this [of 8] this [of 3] show "u32 b i < 2 ^ 32" "u64 b i < 2 ^ 64" "u24 b i < 2 ^ 24"
    by (simp_all add: u32_def u64_def u24_def)
qed

lemma u32_put: "u32 (put 4 v @ xs) 0 = v mod 2 ^ 32"
  and u64_put: "u64 (put 8 v @ xs) 0 = v mod 2 ^ 64"
  by (simp_all add: u32_def u64_def be_put)

lemma signed_putInt: "- (2 ^ 63) \<le> v \<Longrightarrow> v < 2 ^ 63 \<Longrightarrow> signed 64 (nat (v mod 2 ^ 64)) = v"
proof (cases "0 \<le> v")
  case False
  assume "- (2 ^ 63) \<le> v" "v < 2 ^ 63"
  then have "v mod 2 ^ 64 = v + 2 ^ 64" using False by (intro mod_pos_pos_trivial [of "v + 2 ^ 64" "2 ^ 64", unfolded mod_add_self2]) simp_all
  with False \<open>- (2 ^ 63) \<le> v\<close> show ?thesis by (simp add: signed_def nat_less_iff)
qed (simp add: signed_def nat_less_iff)

lemma boxes_Nil [simp]: "boxes [] = []"
  by (simp add: boxes.simps)

lemma length_putBox [simp]: "length kind = 4 \<Longrightarrow> length (putBox kind body) = 8 + length body"
  by (simp add: putBox_def)

lemma putBox_header:
  assumes "length kind = 4" "8 + length body < 2 ^ 32"
  shows "boxHeader (putBox kind body @ xs) = (int (8 + length body), 8)"
proof -
  have "u32 (putBox kind body @ xs) 0 = 8 + length body"
    using u32_put [of "8 + length body" "kind @ body @ xs"] assms(2) by (simp add: putBox_def)
  then show ?thesis by (simp add: boxHeader_def)
qed

lemma boxes_putBox:
  assumes "length kind = 4" "8 + length body < 2 ^ 32"
  shows "boxes (putBox kind body @ xs) = \<lparr>bx_kind = kind, bx_body = body\<rparr> # boxes xs"
proof -
  have "take 4 (drop 4 (putBox kind body @ xs)) = kind" "take (length body) (drop 8 (putBox kind body @ xs)) = body"
    "drop (8 + length body) (putBox kind body @ xs) = xs"
    using assms(1) by (simp_all add: putBox_def)
  then show ?thesis using assms(1) by (simp add: boxes.simps [of "putBox kind body @ xs"] putBox_header [OF assms])
qed

lemma onFirst_putBox:
  assumes "length k = 4" "8 + length body < 2 ^ 32" "length (f body) = length body"
  shows "onFirst kind f (putBox k body @ xs) = (if k = kind then putBox k (f body) @ xs else putBox k body @ onFirst kind f xs)"
proof -
  have "take 4 (drop 4 (putBox k body @ xs)) = k" "take (length body) (drop 8 (putBox k body @ xs)) = body"
    "drop (8 + length body) (putBox k body @ xs) = xs" "take (8 + length body) (putBox k body @ xs) = putBox k body"
    "take 8 (putBox k body @ xs) = put 4 (8 + length body) @ k"
    using assms(1) by (simp_all add: putBox_def)
  note cut = this
  have len: "\<not> length (putBox k body @ xs) < 8" "\<not> (int (8 + length body) < int 8 \<or> int (8 + length body) > int (length (putBox k body @ xs)))"
    "nat (int (8 + length body)) = 8 + length body" "8 + length body - 8 = length body"
    using assms(1) by simp_all
  show ?thesis
    unfolding onFirst.simps [of kind f "putBox k body @ xs"] putBox_header [OF assms(1,2)] Let_def prod.case len if_False cut
    using assms(1,3) by (auto simp: putBox_def)
qed

lemma onEach_putBox:
  assumes "length k = 4" "8 + length body < 2 ^ 32" "length (f body) = length body"
  shows "onEach kind f (putBox k body @ xs) = putBox k (if k = kind then f body else body) @ onEach kind f xs"
proof -
  have "take 4 (drop 4 (putBox k body @ xs)) = k" "take (length body) (drop 8 (putBox k body @ xs)) = body"
    "drop (8 + length body) (putBox k body @ xs) = xs" "take (8 + length body) (putBox k body @ xs) = putBox k body"
    "take 8 (putBox k body @ xs) = put 4 (8 + length body) @ k"
    using assms(1) by (simp_all add: putBox_def)
  note cut = this
  have len: "\<not> length (putBox k body @ xs) < 8" "\<not> (int (8 + length body) < int 8 \<or> int (8 + length body) > int (length (putBox k body @ xs)))"
    "nat (int (8 + length body)) = 8 + length body" "8 + length body - 8 = length body"
    using assms(1) by simp_all
  show ?thesis
    unfolding onEach.simps [of kind f "putBox k body @ xs"] putBox_header [OF assms(1,2)] Let_def prod.case len if_False cut
    using assms(1,3) by (auto simp: putBox_def)
qed

lemma onEach_Nil [simp]: "onEach kind f [] = []" and onFirst_Nil [simp]: "onFirst kind f [] = []"
  by (simp_all add: onEach.simps onFirst.simps)

end
