(* ===== verification/Mp4.thy ===== *)
theory Mp4
  imports Complex_Main Boxes
begin

text \<open>
  Fragments and headers of MP4: \<^verbatim>\<open>server/internal/live/fmp4.go\<close>. A number of seconds is a rational where the code has
  a float64. A map from track numbers is a function, 0 for a track it does not hold, as a Go map reads.
\<close>

abbreviation (input) ptsWrap :: int where "ptsWrap \<equiv> 2 ^ 33"

text \<open>\<^verbatim>\<open>ptsDiff\<close> of \<^verbatim>\<open>timeline.go\<close>.\<close>

definition ptsDiff :: "int \<Rightarrow> int \<Rightarrow> int" where
  "ptsDiff a b =
     (let d = go_rem (a - b) ptsWrap in
      if d \<ge> quot ptsWrap 2 then d - ptsWrap else if d < - quot ptsWrap 2 then d + ptsWrap else d)"

subsection \<open>Headers\<close>

definition mvhdScale :: "bytes \<Rightarrow> nat" where
  "mvhdScale mvhd =
     (if length mvhd \<ge> 24 \<and> mvhd ! 0 = 1 then u32 mvhd 20
      else if length mvhd \<ge> 16 then u32 mvhd 12
      else 0)"

text \<open>\<^verbatim>\<open>trackScale\<close>: the track and its timescale; None is \<^verbatim>\<open>false\<close>.\<close>

definition trackScale :: "bytes \<Rightarrow> (nat \<times> nat) option" where
  "trackScale trak =
     (let tkhd = body_of (child trak k_tkhd); mdhd = body_of (child (body_of (child trak k_mdia)) k_mdhd) in
      if length tkhd < 24 \<or> length mdhd < 24 then None
      else
        let ident = (if tkhd ! 0 = 1 then u32 tkhd 20 else u32 tkhd 12);
            scale = (if mdhd ! 0 = 1 then u32 mdhd 20 else u32 mdhd 12)
        in if scale > 0 then Some (ident, scale) else None)"

definition trackScales :: "bytes \<Rightarrow> nat \<Rightarrow> nat" where
  "trackScales init =
     foldl (\<lambda>out t. if bx_kind t \<noteq> k_trak then out
                    else (case trackScale (bx_body t) of Some (ident, scale) \<Rightarrow> out(ident := scale) | None \<Rightarrow> out))
       (\<lambda>_. 0) (boxes (body_of (child init k_moov)))"

definition isVideo :: "bytes \<Rightarrow> bool" where
  "isVideo trak =
     (let hdlr = body_of (child (body_of (child trak k_mdia)) k_hdlr) in \<not> (length hdlr < 12 \<or> take 4 (drop 8 hdlr) \<noteq> k_vide))"

fun firstVideo :: "box list \<Rightarrow> (nat \<times> nat) option" where
  "firstVideo [] = None"
| "firstVideo (t # ts) =
     (if bx_kind t \<noteq> k_trak then firstVideo ts
      else if \<not> isVideo (bx_body t) then firstVideo ts
      else (case trackScale (bx_body t) of Some r \<Rightarrow> Some r | None \<Rightarrow> firstVideo ts))"

definition videoTrack :: "bytes \<Rightarrow> (nat \<times> nat) option" where
  "videoTrack init = firstVideo (boxes (body_of (child init k_moov)))"

text \<open>\<^verbatim>\<open>editStart\<close>: \<open>n\<close> edits of \<open>size\<close> bytes each from \<open>b\<close> on.\<close>

fun editsFrom :: "nat \<Rightarrow> bool \<Rightarrow> bytes \<Rightarrow> nat \<Rightarrow> nat \<Rightarrow> rat \<Rightarrow> rat" where
  "editsFrom 0 wide b movie scale empt = empt"
| "editsFrom (Suc n) wide b movie scale empt =
     (let sz = (if wide then 20 else 12) in
      if length b < sz then empt
      else
        let (dur, media) = (if wide then (u64 b 0, signed 64 (u64 b 8)) else (u32 b 0, signed 32 (u32 b 4))) in
        if media \<ge> 0 then empt - of_int media / of_nat scale
        else editsFrom n wide (drop sz b) movie scale (empt + of_nat dur / of_nat movie))"

definition editStart :: "bytes \<Rightarrow> nat \<Rightarrow> nat \<Rightarrow> rat" where
  "editStart elst movie scale =
     (if length elst < 8 \<or> movie = 0 \<or> scale = 0 then 0
      else editsFrom (u32 elst 4) (elst ! 0 = 1) (drop 8 elst) movie scale 0)"

record trackStart =
  st_id :: nat
  st_scale :: nat
  st_at :: rat

text \<open>A track without its edit list.\<close>

definition withoutEdits :: "bytes \<Rightarrow> bytes" where
  "withoutEdits trak = concat (map (\<lambda>x. if bx_kind x \<noteq> k_edts then putBox (bx_kind x) (bx_body x) else []) (boxes trak))"

text \<open>The boxes of a movie header; None is the early return of a track whose start is not known.\<close>

fun flattenMoov :: "nat \<Rightarrow> box list \<Rightarrow> (bytes \<times> trackStart list) option" where
  "flattenMoov movie [] = Some ([], [])"
| "flattenMoov movie (c # cs) =
     (if bx_kind c \<noteq> k_trak then
        do { (moov, starts) \<leftarrow> flattenMoov movie cs; Some (putBox (bx_kind c) (bx_body c) @ moov, starts) }
      else
        do { (ident, scale) \<leftarrow> trackScale (bx_body c);
             elst \<leftarrow> child (body_of (child (bx_body c) k_edts)) k_elst;
             (moov, starts) \<leftarrow> flattenMoov movie cs;
             Some (putBox k_trak (withoutEdits (bx_body c)) @ moov,
                   \<lparr>st_id = ident, st_scale = scale, st_at = editStart elst movie scale\<rparr> # starts) })"

fun flattenTop :: "box list \<Rightarrow> (bytes \<times> trackStart list) option" where
  "flattenTop [] = Some ([], [])"
| "flattenTop (b # bs) =
     (if bx_kind b \<noteq> k_moov then
        do { (out, starts) \<leftarrow> flattenTop bs; Some (putBox (bx_kind b) (bx_body b) @ out, starts) }
      else
        do { (moov, starts) \<leftarrow> flattenMoov (mvhdScale (body_of (child (bx_body b) k_mvhd))) (boxes (bx_body b));
             (out, starts1) \<leftarrow> flattenTop bs;
             Some (putBox k_moov moov @ out, starts @ starts1) })"

text \<open>\<^verbatim>\<open>math.Round\<close>.\<close>

definition round_half :: "rat \<Rightarrow> int" where
  "round_half x = (if x \<ge> 0 then \<lfloor>x + 1 / 2\<rfloor> else - \<lfloor>1 / 2 - x\<rfloor>)"

text \<open>
  \<^verbatim>\<open>flattenEdits\<close>: the header, the shifts (None is nil), and the broadcast time in seconds of fragment time zero.
\<close>

definition flattenEdits :: "bytes \<Rightarrow> bytes \<times> (nat \<Rightarrow> int) option \<times> rat" where
  "flattenEdits init =
     (case flattenTop (boxes init) of
        None \<Rightarrow> (init, None, 0)
      | Some (out, starts) \<Rightarrow>
          if starts = [] then (init, None, 0)
          else
            let first = foldl min (st_at (hd starts)) (map st_at starts) in
            if \<exists>s \<in> set starts. st_at s - first > 10 then (init, None, 0)
            else (out, Some (foldl (\<lambda>m s. m(st_id s := round_half ((st_at s - first) * of_nat (st_scale s)))) (\<lambda>_. 0) starts), first))"

text \<open>Bodies of the boxes that hold the language, set to undetermined where they stand.\<close>

definition setLanguage :: "bytes \<Rightarrow> bytes" where
  "setLanguage body =
     (let pos = (if length body > 0 \<and> body ! 0 = 1 then 32 else 20) in
      if pos + 2 \<le> length body then take pos body @ [0x55, 0xc4] @ drop (pos + 2) body else body)"

function withoutLanguages :: "bytes \<Rightarrow> bytes" where
  "withoutLanguages b =
     (if length b < 8 \<or> u32 b 0 < 8 \<or> u32 b 0 > length b then b
      else
        let n = u32 b 0; kind = take 4 (drop 4 b); body = take (n - 8) (drop 8 b) in
        take 8 b @
        (if kind = k_moov \<or> kind = k_trak \<or> kind = k_mdia then withoutLanguages body
         else if kind = k_mdhd then setLanguage body else body) @
        withoutLanguages (drop n b))"
  by pat_completeness auto
termination
  by (relation "measure length") auto

declare withoutLanguages.simps [simp del]

definition sameMedia :: "bytes \<Rightarrow> bytes \<Rightarrow> bool" where
  "sameMedia a b \<longleftrightarrow> withoutLanguages a = withoutLanguages b"

subsection \<open>Runs of samples\<close>

record trunSample =
  ts_dur :: nat
  ts_size :: nat
  ts_flags :: nat
  ts_cts :: nat

record trackRun =
  tr_id :: nat
  tr_tfhd :: bytes
  tr_tfdt :: bytes
  tr_version :: byte
  tr_flags :: nat
  tr_dataOff :: int
  tr_first :: nat
  tr_samples :: "trunSample list"
  tr_defDur :: nat
  tr_defSize :: nat
  tr_hasSizes :: bool
  tr_hasDurs :: bool

definition noRun :: trackRun where
  "noRun = \<lparr>tr_id = 0, tr_tfhd = [], tr_tfdt = [], tr_version = 0, tr_flags = 0, tr_dataOff = 0, tr_first = 0, tr_samples = [],
     tr_defDur = 0, tr_defSize = 0, tr_hasSizes = False, tr_hasDurs = False\<rparr>"

abbreviation (input) maxTrunSamples :: nat where "maxTrunSamples \<equiv> 2 ^ 20"

text \<open>A field that is there when its flag is set: its value, zero without it, and the next offset.\<close>

definition optField :: "bytes \<Rightarrow> nat \<Rightarrow> nat \<Rightarrow> nat \<Rightarrow> (nat \<times> nat) option" where
  "optField b flags m off =
     (if \<not> has flags m then Some (0, off)
      else if off + 4 > length b then None
      else Some (u32 b off, off + 4))"

definition readSample :: "bytes \<Rightarrow> nat \<Rightarrow> nat \<Rightarrow> (trunSample \<times> nat) option" where
  "readSample b flags off =
     do { (d, o1) \<leftarrow> optField b flags 0x100 off; (z, o2) \<leftarrow> optField b flags 0x200 o1;
          (f, o3) \<leftarrow> optField b flags 0x400 o2; (c, o4) \<leftarrow> optField b flags 0x800 o3;
          Some (\<lparr>ts_dur = d, ts_size = z, ts_flags = f, ts_cts = c\<rparr>, o4) }"

fun readSamples :: "nat \<Rightarrow> bytes \<Rightarrow> nat \<Rightarrow> nat \<Rightarrow> trunSample list option" where
  "readSamples 0 b flags off = Some []"
| "readSamples (Suc n) b flags off =
     do { (s, off1) \<leftarrow> readSample b flags off; ss \<leftarrow> readSamples n b flags off1; Some (s # ss) }"

definition readTrun :: "bytes \<Rightarrow> trackRun \<Rightarrow> trackRun option" where
  "readTrun b r =
     (if length b < 8 then None
      else
        let flags = u24 b 1; n = u32 b 4 in
        do { (d, o1) \<leftarrow> optField b flags 0x1 8; (f, o2) \<leftarrow> optField b flags 0x4 o1;
             if \<not> has flags 0xF00 \<and> n > maxTrunSamples then None
             else do { ss \<leftarrow> readSamples n b flags o2;
                       Some (r\<lparr>tr_version := b ! 0, tr_flags := flags,
                               tr_dataOff := if has flags 0x1 then signed 32 d else tr_dataOff r,
                               tr_first := if has flags 0x4 then f else tr_first r,
                               tr_samples := tr_samples r @ ss\<rparr>) } })"

text \<open>The boxes of a track's part of a fragment, with how many runs there were.\<close>

fun runBoxes :: "box list \<Rightarrow> nat \<Rightarrow> trackRun \<Rightarrow> (nat \<times> trackRun) option" where
  "runBoxes [] runs r = Some (runs, r)"
| "runBoxes (b # bs) runs r =
     (if bx_kind b = k_tfhd then runBoxes bs runs (r\<lparr>tr_tfhd := bx_body b\<rparr>)
      else if bx_kind b = k_tfdt then runBoxes bs runs (r\<lparr>tr_tfdt := bx_body b\<rparr>)
      else if bx_kind b = k_trun then do { r1 \<leftarrow> readTrun (bx_body b) r; runBoxes bs (runs + 1) r1 }
      else None)"

definition badTimes :: "trackRun \<Rightarrow> bool" where
  "badTimes r \<longleftrightarrow> length (tr_tfhd r) < 8 \<or> length (tr_tfdt r) < 8 \<or> (tr_tfdt r ! 0 = 1 \<and> length (tr_tfdt r) < 12)"

text \<open>The defaults a track's header sets, from offset 8 on: the end of \<^verbatim>\<open>parseRun\<close>.\<close>

definition runDefaults :: "trackRun \<Rightarrow> trackRun" where
  "runDefaults r =
     (let h = tr_tfhd r; tf = u24 h 1;
          off = (if has tf 0x2 then 12 else 8);
          durs = (has tf 0x8 \<and> off + 4 \<le> length h);
          r1 = (if durs then r\<lparr>tr_defDur := u32 h off, tr_hasDurs := True\<rparr> else r);
          off1 = (if durs then off + 4 else off);
          r2 = (if has tf 0x10 \<and> off1 + 4 \<le> length h then r1\<lparr>tr_defSize := u32 h off1, tr_hasSizes := True\<rparr> else r1);
          r3 = (if has (tr_flags r2) 0x100 then r2\<lparr>tr_hasDurs := True\<rparr> else r2)
      in if has (tr_flags r3) 0x200 then r3\<lparr>tr_hasSizes := True\<rparr> else r3)"

definition parseRun :: "bytes \<Rightarrow> trackRun option" where
  "parseRun traf =
     do { (runs, r) \<leftarrow> runBoxes (boxes traf) 0 noRun;
          if runs \<noteq> 1 \<or> badTimes r then None
          else
            let tf = u24 (tr_tfhd r) 1; r1 = r\<lparr>tr_id := u32 (tr_tfhd r) 4\<rparr> in
            if has tf 0x1 \<or> \<not> has tf 0x20000 then None
            else
              let r2 = runDefaults r1 in if has (tr_flags r2) 0x1 then Some r2 else None }"

fun timingBoxes :: "box list \<Rightarrow> trackRun \<Rightarrow> trackRun option" where
  "timingBoxes [] r = Some r"
| "timingBoxes (b # bs) r =
     (if bx_kind b = k_tfhd then timingBoxes bs (r\<lparr>tr_tfhd := bx_body b\<rparr>)
      else if bx_kind b = k_tfdt then timingBoxes bs (r\<lparr>tr_tfdt := bx_body b\<rparr>)
      else if bx_kind b = k_trun then
        (if tr_samples r \<noteq> [] then None else do { r1 \<leftarrow> readTrun (bx_body b) r; timingBoxes bs r1 })
      else timingBoxes bs r)"

definition runTiming :: "bytes \<Rightarrow> trackRun option" where
  "runTiming traf =
     do { r \<leftarrow> timingBoxes (boxes traf) noRun;
          if badTimes r then None
          else
            let h = tr_tfhd r; tf = u24 h 1; r1 = r\<lparr>tr_id := u32 h 4\<rparr>;
                off = 8 + (if has tf 0x1 then 8 else 0) + (if has tf 0x2 then 4 else 0)
            in Some (if has tf 0x8 \<and> off + 4 \<le> length h then r1\<lparr>tr_defDur := u32 h off\<rparr> else r1) }"

definition decodeTime :: "trackRun \<Rightarrow> int" where
  "decodeTime r =
     (if tr_tfdt r ! 0 = 1 \<and> length (tr_tfdt r) \<ge> 12 then signed 64 (u64 (tr_tfdt r) 4) else int (u32 (tr_tfdt r) 4))"

definition sampleDur :: "trackRun \<Rightarrow> trunSample \<Rightarrow> int" where
  "sampleDur r s = int (if has (tr_flags r) 0x100 then ts_dur s else tr_defDur r)"

definition cts :: "trackRun \<Rightarrow> trunSample \<Rightarrow> int" where
  "cts r s = (if tr_version r = 1 then signed 32 (ts_cts s) else int (ts_cts s))"

definition sampleSize :: "trackRun \<Rightarrow> trunSample \<Rightarrow> int" where
  "sampleSize r s = int (if has (tr_flags r) 0x200 then ts_size s else tr_defSize r)"

text \<open>The presentation time and the duration of every sample, from a decode time on.\<close>

fun shownFrom :: "trackRun \<Rightarrow> int \<Rightarrow> trunSample list \<Rightarrow> (int \<times> int) list" where
  "shownFrom r dts [] = []"
| "shownFrom r dts (s # ss) = (dts + cts r s, sampleDur r s) # shownFrom r (dts + sampleDur r s) ss"

text \<open>The runs of a track in every fragment of a segment, as the loops over a segment visit them.\<close>

definition trackRuns :: "nat \<Rightarrow> bytes \<Rightarrow> trackRun list" where
  "trackRuns track moof =
     List.map_filter
       (\<lambda>t. if bx_kind t \<noteq> k_traf then None
            else (case runTiming (bx_body t) of
                    None \<Rightarrow> None
                  | Some r \<Rightarrow> if tr_id r \<noteq> track \<or> tr_samples r = [] then None else Some r))
       (boxes moof)"

definition shownIn :: "nat \<Rightarrow> bytes \<Rightarrow> (int \<times> int) list" where
  "shownIn track seg =
     concat (map (\<lambda>top. if bx_kind top \<noteq> k_moof then []
                        else concat (map (\<lambda>r. shownFrom r (decodeTime r) (tr_samples r)) (trackRuns track (bx_body top))))
       (boxes seg))"

subsection \<open>Times of a fragment\<close>

definition firstCompositionOffset :: "bytes \<Rightarrow> int" where
  "firstCompositionOffset trun =
     (if length trun < 8 then 0
      else
        let flags = u24 trun 1 in
        if \<not> has flags 0x800 \<or> u32 trun 4 = 0 then 0
        else
          let off = 8 + (if has flags 0x1 then 4 else 0) + (if has flags 0x4 then 4 else 0) + (if has flags 0x100 then 4 else 0) +
                    (if has flags 0x200 then 4 else 0) + (if has flags 0x400 then 4 else 0)
          in if length trun < off + 4 then 0
             else if trun ! 0 = 1 then signed 32 (u32 trun off) else int (u32 trun off))"

text \<open>The first track of a fragment that is the one asked for, as \<^verbatim>\<open>fragmentPTS\<close> and the functions below look for it.\<close>

definition trafOf :: "nat \<Rightarrow> bytes \<Rightarrow> bytes option" where
  "trafOf track seg =
     map_option bx_body
       (find (\<lambda>t. bx_kind t = k_traf \<and>
                  \<not> (length (body_of (child (bx_body t) k_tfhd)) < 8 \<or> u32 (body_of (child (bx_body t) k_tfhd)) 4 \<noteq> track))
          (boxes (body_of (child seg k_moof))))"

definition fragmentBase :: "bytes \<Rightarrow> nat \<Rightarrow> int option" where
  "fragmentBase seg track =
     do { t \<leftarrow> trafOf track seg;
          let tfdt = body_of (child t k_tfdt) in
          if length tfdt < 8 then None
          else
            let base = (if tfdt ! 0 = 1 \<and> length tfdt \<ge> 12 then signed 64 (u64 tfdt 4) else int (u32 tfdt 4))
            in Some (base + firstCompositionOffset (body_of (child t k_trun))) }"

text \<open>\<^verbatim>\<open>fragmentPTS\<close>, for a scale that is not zero: with zero it divides by it when there is a base.\<close>

definition fragmentPTS :: "bytes \<Rightarrow> nat \<Rightarrow> nat \<Rightarrow> int option" where
  "fragmentPTS seg track scale = map_option (\<lambda>base. quot (base * 90000) (int scale)) (fragmentBase seg track)"

text \<open>The earlier of two times on the clock that wraps.\<close>

definition earlier :: "int option \<Rightarrow> int \<Rightarrow> int option" where
  "earlier best pts = (case best of None \<Rightarrow> Some pts | Some b \<Rightarrow> if ptsDiff pts b < 0 then Some pts else Some b)"

definition fragmentStart :: "bytes \<Rightarrow> nat \<Rightarrow> nat \<Rightarrow> int option" where
  "fragmentStart seg track scale =
     (if scale = 0 then None
      else
        (case foldl earlier None (map fst (shownIn track seg)) of
           None \<Rightarrow> fragmentPTS seg track scale
         | Some best \<Rightarrow> Some (quot (best * 90000) (int scale))))"

definition fragmentDecode :: "bytes \<Rightarrow> nat \<Rightarrow> nat \<Rightarrow> (int \<times> int) option" where
  "fragmentDecode frag track scale =
     (if scale = 0 then None
      else
        (case trackRuns track (body_of (child frag k_moof)) of
           [] \<Rightarrow> None
         | r # _ \<Rightarrow>
             let dts = decodeTime r; dur = sum_list (map (sampleDur r) (tr_samples r))
             in Some (quot (dts * 90000) (int scale), quot ((dts + dur) * 90000) (int scale))))"

definition defaultSampleDuration :: "bytes \<Rightarrow> nat option" where
  "defaultSampleDuration tfhd =
     (if length tfhd < 8 then None
      else
        let flags = u24 tfhd 1 in
        if \<not> has flags 0x8 then None
        else
          let off = 8 + (if has flags 0x1 then 8 else 0) + (if has flags 0x2 then 4 else 0)
          in if off + 4 > length tfhd then None else Some (u32 tfhd off))"

fun sumDurations :: "nat \<Rightarrow> bytes \<Rightarrow> nat \<Rightarrow> nat \<Rightarrow> nat option" where
  "sumDurations 0 b off per = Some 0"
| "sumDurations (Suc n) b off per =
     (if off + 4 > length b then None
      else do { rest \<leftarrow> sumDurations n b (off + per) per; Some (u32 b off + rest) })"

definition trunDuration :: "bytes \<Rightarrow> nat option \<Rightarrow> nat option" where
  "trunDuration trun def0 =
     (if length trun < 8 then None
      else
        let flags = u24 trun 1; n = u32 trun 4 in
        if n = 0 then None
        else if \<not> has flags 0x100 then map_option (\<lambda>d. d * n) def0
        else
          let off = 8 + (if has flags 0x1 then 4 else 0) + (if has flags 0x4 then 4 else 0);
              per = 4 + (if has flags 0x200 then 4 else 0) + (if has flags 0x400 then 4 else 0) + (if has flags 0x800 then 4 else 0)
          in do { total \<leftarrow> sumDurations n trun off per; if total > 0 then Some total else None })"

definition fragmentDuration :: "bytes \<Rightarrow> nat \<Rightarrow> nat \<Rightarrow> int option" where
  "fragmentDuration seg track scale =
     do { t \<leftarrow> trafOf track seg;
          total \<leftarrow> trunDuration (body_of (child t k_trun)) (defaultSampleDuration (body_of (child t k_tfhd)));
          if total = 0 \<or> scale = 0 then None else Some (quot (int total * 90000) (int scale)) }"

text \<open>
  \<^verbatim>\<open>segmentSpan\<close> on the header and the fragments it read: the origin, and where the pictures start and end relative
  to it.
\<close>

fun spanStep :: "(int \<times> int \<times> int) option \<Rightarrow> int \<times> int \<Rightarrow> (int \<times> int \<times> int) option" where
  "spanStep None (pts, d) = Some (pts, 0, d)"
| "spanStep (Some (origin, relStart, relEnd)) (pts, d) =
     (let rel = ptsDiff pts origin in
      Some (origin, if rel < relStart then rel else relStart, if rel + d > relEnd then rel + d else relEnd))"

definition segmentSpan :: "bytes \<Rightarrow> bytes \<Rightarrow> (int \<times> int) option" where
  "segmentSpan init seg =
     do { (track, scale) \<leftarrow> videoTrack init;
          if scale = 0 then None
          else do { (origin, relStart, relEnd) \<leftarrow> foldl spanStep None (shownIn track seg);
                    if relEnd \<le> relStart then None
                    else
                      let start = go_rem (origin + relStart) ptsWrap;
                          start1 = (if start < 0 then start + ptsWrap else start)
                      in Some (quot (start1 * 90000) (int scale), quot ((relEnd - relStart) * 90000) (int scale)) } }"

text \<open>\<^verbatim>\<open>readMoofs\<close> on the bytes of the file; a seek past the end makes the next read fail.\<close>

function readMoofs :: "bytes \<Rightarrow> bytes" where
  "readMoofs f =
     (if length f < 8 then []
      else
        let size32 = u32 f 0 in
        if size32 = 1 \<and> length f < 16 then []
        else
          let (size, hdr) = (if size32 = 1 then (signed 64 (u64 f 8), 16) else (int size32, 8)) in
          if size < hdr then []
          else if take 4 (drop 4 f) \<noteq> k_moof then readMoofs (drop (nat size) f)
          else if size > 4 * 2 ^ 20 then []
          else if int (length f) < size then []
          else take (nat size) f @ readMoofs (drop (nat size) f))"
  by pat_completeness auto
termination
  by (relation "measure length") (auto split: if_splits)

declare readMoofs.simps [simp del]

subsection \<open>Moving tracks\<close>

text \<open>The decode time in a \<^verbatim>\<open>tfdt\<close> moved by \<open>d\<close>, where it stands.\<close>

definition shiftTime :: "int \<Rightarrow> bytes \<Rightarrow> bytes" where
  "shiftTime d tfdt =
     (if length tfdt \<ge> 12 \<and> tfdt ! 0 = 1 then take 4 tfdt @ putInt 8 (signed 64 (u64 tfdt 4) + d) @ drop 12 tfdt
      else if length tfdt \<ge> 8 then take 4 tfdt @ putInt 4 (int (u32 tfdt 4) + d) @ drop 8 tfdt
      else tfdt)"

definition shiftTraf :: "(nat \<Rightarrow> int) \<Rightarrow> bytes \<Rightarrow> bytes" where
  "shiftTraf shifts traf =
     (let tfhd = body_of (child traf k_tfhd) in
      if length tfhd < 8 then traf
      else if shifts (u32 tfhd 4) = 0 then traf
      else onFirst k_tfdt (shiftTime (shifts (u32 tfhd 4))) traf)"

text \<open>\<^verbatim>\<open>shiftTracks\<close>; None is a map that is empty or nil.\<close>

definition shiftTracks :: "bytes \<Rightarrow> (nat \<Rightarrow> int) option \<Rightarrow> bytes" where
  "shiftTracks frag shifts =
     (case shifts of
        None \<Rightarrow> frag
      | Some sh \<Rightarrow> onFirst k_moof (onEach k_traf (shiftTraf sh)) frag)"

subsection \<open>Trimming what comes before the first picture\<close>

definition sampleBytes :: "nat \<Rightarrow> trunSample \<Rightarrow> bytes" where
  "sampleBytes flags s =
     (if has flags 0x100 then put 4 (ts_dur s) else []) @ (if has flags 0x200 then put 4 (ts_size s) else []) @
     (if has flags 0x400 then put 4 (ts_flags s) else []) @ (if has flags 0x800 then put 4 (ts_cts s) else [])"

text \<open>\<^verbatim>\<open>build\<close>\<close>

definition build :: "int \<Rightarrow> trackRun \<Rightarrow> bytes" where
  "build dataOff r =
     (let trun = [tr_version r, of_nat (tr_flags r div 2 ^ 16), of_nat (tr_flags r div 2 ^ 8), of_nat (tr_flags r)] @
                 put 4 (length (tr_samples r)) @ putInt 4 dataOff @ (if has (tr_flags r) 0x4 then put 4 (tr_first r) else []) @
                 concat (map (sampleBytes (tr_flags r)) (tr_samples r))
      in putBox k_traf (putBox k_tfhd (tr_tfhd r) @ putBox k_tfdt (tr_tfdt r) @ putBox k_trun trun))"

text \<open>A cut of the media data: where, counted from the start of the fragment, and how many bytes.\<close>

type_synonym cut = "int \<times> int"

definition totalSize :: "trackRun \<Rightarrow> trunSample list \<Rightarrow> int" where
  "totalSize r ss = sum_list (map (sampleSize r) ss)"

text \<open>\<^verbatim>\<open>drop\<close>: the run without its first \<open>k\<close> samples (fewer than it has), the next of which is decoded at \<open>pos\<close>.\<close>

definition dropSamples :: "nat \<Rightarrow> int \<Rightarrow> trackRun \<Rightarrow> trackRun \<times> cut" where
  "dropSamples k pos r =
     (let n = totalSize r (take k (tr_samples r));
          tfdt = (if tr_tfdt r ! 0 = 1 \<and> length (tr_tfdt r) \<ge> 12 then take 4 (tr_tfdt r) @ putInt 8 pos
                  else take 4 (tr_tfdt r) @ putInt 4 pos);
          r1 = r\<lparr>tr_samples := drop k (tr_samples r), tr_tfdt := tfdt, tr_dataOff := tr_dataOff r + n\<rparr>
      in (if has (tr_flags r) 0x4 then r1\<lparr>tr_first := ts_flags (tr_samples r ! k)\<rparr> else r1, (tr_dataOff r, n)))"

text \<open>When the first sound starts, in the video timescale; -1 for no sound.\<close>

definition soundStart :: "nat \<Rightarrow> (nat \<Rightarrow> nat) \<Rightarrow> trackRun list \<Rightarrow> int" where
  "soundStart video scales runs =
     foldl (\<lambda>sound r.
       if tr_id r \<noteq> video \<and> scales (tr_id r) \<noteq> 0 \<and> tr_samples r \<noteq> [] then
         let t = quot ((decodeTime r + cts r (hd (tr_samples r))) * int (scales video)) (int (scales (tr_id r)))
         in if sound < 0 \<or> t < sound then t else sound
       else sound) (-1) runs"

text \<open>The last group of pictures that starts with its keyframe shown no later than the sound, and its decode time.\<close>

fun lastGroup :: "trackRun \<Rightarrow> int \<Rightarrow> trunSample list \<Rightarrow> nat \<Rightarrow> int \<Rightarrow> nat \<times> int \<Rightarrow> nat \<times> int" where
  "lastGroup r sound [] k pos found = found"
| "lastGroup r sound (s # ss) k pos found =
     lastGroup r sound ss (k + 1) (pos + sampleDur r s)
       (if k > 0 \<and> \<not> has (ts_flags s) 0x10000 \<and> pos + cts r s \<le> sound then (k, pos) else found)"

text \<open>The pictures: their time, the cuts, and the runs.\<close>

definition videoRun :: "int \<Rightarrow> trackRun \<Rightarrow> trackRun \<times> cut list" where
  "videoRun sound r =
     (let (from1, pos) = (if sound \<ge> 0 \<and> has (tr_flags r) 0x400 then lastGroup r sound (tr_samples r) 0 (decodeTime r) (0, 0) else (0, 0))
      in if from1 > 0 then (let (r1, c) = dropSamples from1 pos r in (r1, [c])) else (r, []))"

fun videoPhase :: "nat \<Rightarrow> int \<Rightarrow> trackRun list \<Rightarrow> int \<Rightarrow> trackRun list \<times> cut list \<times> int" where
  "videoPhase video sound [] picture = ([], [], picture)"
| "videoPhase video sound (r # rs) picture =
     (if tr_id r \<noteq> video \<or> tr_samples r = [] then
        let (rs1, cuts, picture1) = videoPhase video sound rs picture in (r # rs1, cuts, picture1)
      else
        let (r1, cs) = videoRun sound r;
            (rs1, cuts, picture1) = videoPhase video sound rs (decodeTime r1 + cts r1 (hd (tr_samples r1)))
        in (r1 # rs1, cs @ cuts, picture1))"

text \<open>How many samples come before \<open>before\<close>, and the decode time after them.\<close>

fun leadSamples :: "trackRun \<Rightarrow> int \<Rightarrow> trunSample list \<Rightarrow> nat \<Rightarrow> int \<Rightarrow> nat \<times> int" where
  "leadSamples r before [] k pos = (k, pos)"
| "leadSamples r before (s # ss) k pos =
     (if pos + cts r s < before then leadSamples r before ss (k + 1) (pos + sampleDur r s) else (k, pos))"

text \<open>One sound run of \<open>nruns\<close>: whether it is left out, and its cuts. None is \<^verbatim>\<open>r.samples[-1]\<close>.\<close>

definition soundRun :: "nat \<Rightarrow> int \<Rightarrow> trackRun \<Rightarrow> (bool \<times> trackRun \<times> cut list) option" where
  "soundRun nruns before r =
     (let (k, pos) = leadSamples r before (tr_samples r) 0 (decodeTime r) in
      if k = length (tr_samples r) \<and> nruns > 1 then Some (True, r, [(tr_dataOff r, totalSize r (tr_samples r))])
      else if k = length (tr_samples r) then
        (if k = 0 then None
         else
           let k1 = k - 1; pos1 = pos - sampleDur r (tr_samples r ! k1) in
           if k1 > 0 then (let (r1, c) = dropSamples k1 pos1 r in Some (False, r1, [c])) else Some (False, r, []))
      else if k > 0 then (let (r1, c) = dropSamples k pos r in Some (False, r1, [c]))
      else Some (False, r, []))"

fun soundPhase :: "nat \<Rightarrow> (nat \<Rightarrow> nat) \<Rightarrow> nat \<Rightarrow> int \<Rightarrow> trackRun list \<Rightarrow> ((bool \<times> trackRun) list \<times> cut list) option" where
  "soundPhase video scales nruns picture [] = Some ([], [])"
| "soundPhase video scales nruns picture (r # rs) =
     do { (gone, r1, cs) \<leftarrow>
            (if tr_id r = video \<or> scales (tr_id r) = 0 then Some (False, r, [])
             else soundRun nruns (quot (picture * int (scales (tr_id r))) (int (scales video))) r);
          (rs1, cuts) \<leftarrow> soundPhase video scales nruns picture rs;
          Some ((gone, r1) # rs1, cs @ cuts) }"

definition moofBody :: "bytes \<Rightarrow> (bool \<times> trackRun) list \<Rightarrow> int list \<Rightarrow> bytes" where
  "moofBody mfhd runs offsets =
     putBox k_mfhd mfhd @ concat (map (\<lambda>((gone, r), off). if gone then [] else build off r) (zip runs offsets))"

text \<open>The media data without the cuts, the last one first; None when one is out of range.\<close>

fun cutData :: "int \<Rightarrow> cut list \<Rightarrow> bytes \<Rightarrow> bytes option" where
  "cutData moofSize [] mdat = Some mdat"
| "cutData moofSize ((pos, n) # cuts) mdat =
     do { mdat1 \<leftarrow> cutData moofSize cuts mdat;
          let start = pos - moofSize - 8 in
          if start < 0 \<or> start + n > int (length mdat1) then None
          else Some (take (nat start) mdat1 @ drop (nat (start + n)) mdat1) }"

definition movedOffset :: "int \<Rightarrow> cut list \<Rightarrow> trackRun \<Rightarrow> int" where
  "movedOffset shrink cuts r = tr_dataOff r - shrink - sum_list (map (\<lambda>c. if fst c < tr_dataOff r then snd c else 0) cuts)"

text \<open>The boxes of the \<^verbatim>\<open>moof\<close>: its header and its runs; None is the layout that comes back unchanged.\<close>

fun trimBoxes :: "box list \<Rightarrow> bytes \<Rightarrow> trackRun list \<Rightarrow> (bytes \<times> trackRun list) option" where
  "trimBoxes [] mfhd runs = Some (mfhd, runs)"
| "trimBoxes (b # bs) mfhd runs =
     (if bx_kind b = k_mfhd then trimBoxes bs (bx_body b) runs
      else if bx_kind b = k_traf then
        do { r \<leftarrow> parseRun (bx_body b);
             if \<not> tr_hasDurs r \<or> \<not> tr_hasSizes r then None else trimBoxes bs mfhd (runs @ [r]) }
      else None)"

definition trimRuns :: "bytes \<Rightarrow> bytes \<Rightarrow> bytes \<Rightarrow> bytes \<Rightarrow> trackRun list \<Rightarrow> nat \<Rightarrow> (nat \<Rightarrow> nat) \<Rightarrow> int \<Rightarrow> (bytes \<times> int \<times> bool) option" where
  "trimRuns frag moof mdat mfhd runs video scales floor0 =
     (let moofSize = int (8 + length moof);
          (runs1, cuts1, picture) =
            (if floor0 < 0 then videoPhase video (soundStart video scales runs) runs floor0 else (runs, [], floor0))
      in if picture < 0 then Some (frag, picture, False)
         else do {
           (runs2, cuts2) \<leftarrow> soundPhase video scales (length runs) picture runs1;
           let cuts = cuts1 @ cuts2; soundGone = list_all (\<lambda>(gone, r). tr_id r = video \<or> gone) runs2 in
           if cuts = [] then Some (frag, picture, soundGone)
           else
             let newMoof = int (8 + length (moofBody mfhd runs2 (replicate (length runs2) 0)));
                 offsets = map (\<lambda>(gone, r). movedOffset (moofSize - newMoof) cuts r) runs2
             in (case cutData moofSize (sort_key fst cuts) mdat of
                   None \<Rightarrow> Some (frag, picture, False)
                 | Some mdat1 \<Rightarrow> Some (putBox k_moof (moofBody mfhd runs2 offsets) @ putBox k_mdat mdat1, picture, soundGone)) })"

text \<open>\<^verbatim>\<open>trimLeadInFrom\<close>: the fragment, the time of its first picture, and whether all sound was left out. None is a panic.\<close>

definition trimLeadInFrom :: "bytes \<Rightarrow> nat \<Rightarrow> (nat \<Rightarrow> nat) \<Rightarrow> int \<Rightarrow> (bytes \<times> int \<times> bool) option" where
  "trimLeadInFrom frag video scales floor0 =
     (case boxes frag of
        [top0, top1] \<Rightarrow>
          if bx_kind top0 \<noteq> k_moof \<or> bx_kind top1 \<noteq> k_mdat \<or> u32 frag 0 = 1 \<or> length frag < 8 + length (bx_body top0) + 8 \<or>
             u32 frag (8 + length (bx_body top0)) = 1 then Some (frag, floor0, False)
          else
            (case trimBoxes (boxes (bx_body top0)) [] [] of
               None \<Rightarrow> Some (frag, floor0, False)
             | Some (mfhd, runs) \<Rightarrow>
                 if scales video = 0 then Some (frag, floor0, False)
                 else trimRuns frag (bx_body top0) (bx_body top1) mfhd runs video scales floor0)
      | _ \<Rightarrow> Some (frag, floor0, False))"

definition trimLeadIn :: "bytes \<Rightarrow> nat \<Rightarrow> (nat \<Rightarrow> nat) \<Rightarrow> bytes option" where
  "trimLeadIn frag video scales = map_option fst (trimLeadInFrom frag video scales (-1))"

end
