(* ===== verification/Mp4Props.thy ===== *)
theory Mp4Props
  imports Mp4
begin

text \<open>
  MP4 fragments: rewriting a box where it stands changes that box alone; a run that is built reads back; moving a track
  moves every picture of it by its shift; the start of a segment is its earliest picture; trimming keeps the bytes of
  every sample it keeps.
\<close>

subsection \<open>Rewriting in place\<close>

lemma u32_take_append: "4 \<le> length a \<Longrightarrow> u32 (a @ b) 0 = u32 a 0"
  and u64_take_append: "16 \<le> length a \<Longrightarrow> u64 (a @ b) 8 = u64 a 8"
  by (simp_all add: u32_def u64_def)

lemma boxHeader_cong:
  assumes "boxHeader b = (sz, head)" "head \<le> length b" "take head c = take head b" "length c = length b" "8 \<le> length b"
  shows "boxHeader c = (sz, head)"
proof -
  have h8: "8 \<le> head" using boxHeader_head [OF assms(1)] .
  have t: "take n c = take n b" if "n \<le> head" for n
    using assms(3) that by (metis min_absorb1 take_take)
  have "u32 c 0 = u32 b 0" using t [of 4] h8 by (simp add: u32_def)
  moreover have "u64 c 8 = u64 b 8" if "head = 16"
  proof -
    have "take 8 (drop 8 c) = drop 8 (take 16 c)" "take 8 (drop 8 b) = drop 8 (take 16 b)" by (simp_all add: drop_take)
    then show ?thesis using t [of 16] that by (simp add: u64_def)
  qed
  ultimately show ?thesis using assms(1,4) by (auto simp: boxHeader_def Let_def split: if_splits)
qed

text \<open>The front box of a slice that has one.\<close>

definition front :: "bytes \<Rightarrow> (nat \<times> nat) option" where
  "front b =
     (if length b < 8 then None
      else case boxHeader b of (sz, head) \<Rightarrow> if sz < int head \<or> sz > int (length b) then None else Some (nat sz, head))"

lemma front_bounds:
  assumes "front b = Some (n, head)"
  shows "8 \<le> head" "head \<le> n" "n \<le> length b"
  using assms boxHeader_head [of b] by (auto simp: front_def split: if_splits prod.splits)

lemma take_head_kind: "take head c = take head b \<Longrightarrow> 8 \<le> head \<Longrightarrow> take 4 (drop 4 c) = take 4 (drop 4 b)"
proof -
  assume "take head c = take head b" "8 \<le> head"
  then have "take 8 c = take 8 b" by (metis min_absorb1 take_take)
  then have "drop 4 (take 8 c) = drop 4 (take 8 b)" by simp
  then show ?thesis by (simp add: drop_take)
qed

lemma front_cong:
  assumes "front b = Some (n, head)" "take head c = take head b" "length c = length b"
  shows "front c = Some (n, head)"
proof -
  from assms(1) obtain sz where h: "boxHeader b = (sz, head)" "n = nat sz" "\<not> sz < int head" "\<not> sz > int (length b)" "8 \<le> length b"
    by (auto simp: front_def split: if_splits prod.splits)
  from boxHeader_cong [OF h(1) _ assms(2,3) h(5)] h show ?thesis using assms(3) front_bounds [OF assms(1)] by (simp add: front_def)
qed

lemma boxes_front:
  "front b = None \<Longrightarrow> boxes b = []"
  "front b = Some (n, head) \<Longrightarrow>
     boxes b = \<lparr>bx_kind = take 4 (drop 4 b), bx_body = take (n - head) (drop head b)\<rparr> # boxes (drop n b)"
  by (subst boxes.simps; auto simp: front_def Let_def split: if_splits prod.splits)+

lemma onFirst_front:
  "front b = None \<Longrightarrow> onFirst kind f b = b"
  "front b = Some (n, head) \<Longrightarrow> onFirst kind f b =
     (if take 4 (drop 4 b) = kind then take head b @ f (take (n - head) (drop head b)) @ drop n b
      else take n b @ onFirst kind f (drop n b))"
  by (subst onFirst.simps; auto simp: front_def Let_def split: if_splits prod.splits)+

lemma onEach_front:
  "front b = None \<Longrightarrow> onEach kind f b = b"
  "front b = Some (n, head) \<Longrightarrow> onEach kind f b =
     (if take 4 (drop 4 b) = kind then take head b @ f (take (n - head) (drop head b)) else take n b) @ onEach kind f (drop n b)"
  by (subst onEach.simps; auto simp: front_def Let_def split: if_splits prod.splits)+

text \<open>A slice whose front box is kept but for its body, followed by anything.\<close>

lemma boxes_rebuilt:
  assumes "front b = Some (n, head)" "length body = n - head" "length rest = length b - n"
  shows "boxes (take head b @ body @ rest) = \<lparr>bx_kind = take 4 (drop 4 b), bx_body = body\<rparr> # boxes rest"
proof -
  note bounds = front_bounds [OF assms(1)]
  let ?c = "take head b @ body @ rest"
  have "front ?c = Some (n, head)" using bounds assms(2,3) by (intro front_cong [OF assms(1)]) simp_all
  moreover have "take 4 (drop 4 ?c) = take 4 (drop 4 b)" using bounds by (intro take_head_kind [of head]) simp_all
  moreover have "take (n - head) (drop head ?c) = body" "drop n ?c = rest" using bounds assms(2) by simp_all
  ultimately show ?thesis using boxes_front(2) [of ?c n head] by simp
qed

lemma length_onEach [simp]: "(\<And>x. length (f x) = length x) \<Longrightarrow> length (onEach kind f b) = length b"
proof (induction "length b" arbitrary: b rule: less_induct)
  case less
  show ?case
  proof (cases "front b")
    case (Some nh)
    obtain n head where nh: "nh = (n, head)" by (cases nh)
    note bounds = front_bounds [OF Some [unfolded nh]]
    have "length (onEach kind f (drop n b)) = length b - n" using less(1) [of "drop n b"] less(2) bounds by simp
    then show ?thesis using bounds less(2) onEach_front(2) [OF Some [unfolded nh], of kind f] by simp
  qed (simp add: onEach_front)
qed

lemma length_onFirst [simp]: "(\<And>x. length (f x) = length x) \<Longrightarrow> length (onFirst kind f b) = length b"
proof (induction "length b" arbitrary: b rule: less_induct)
  case less
  show ?case
  proof (cases "front b")
    case (Some nh)
    obtain n head where nh: "nh = (n, head)" by (cases nh)
    note bounds = front_bounds [OF Some [unfolded nh]]
    have "length (onFirst kind f (drop n b)) = length b - n" using less(1) [of "drop n b"] less(2) bounds by simp
    then show ?thesis using bounds less(2) onFirst_front(2) [OF Some [unfolded nh], of kind f] by simp
  qed (simp add: onFirst_front)
qed

definition in_box :: "bytes \<Rightarrow> (bytes \<Rightarrow> bytes) \<Rightarrow> box \<Rightarrow> box" where
  "in_box kind f x = (if bx_kind x = kind then x\<lparr>bx_body := f (bx_body x)\<rparr> else x)"

lemma boxes_onEach:
  assumes "\<And>x. length (f x) = length x"
  shows "boxes (onEach kind f b) = map (in_box kind f) (boxes b)"
proof (induction "length b" arbitrary: b rule: less_induct)
  case less
  show ?case
  proof (cases "front b")
    case None
    then show ?thesis by (simp add: boxes_front onEach_front)
  next
    case (Some nh)
    obtain n head where nh: "nh = (n, head)" by (cases nh)
    note fr = Some [unfolded nh]
    note bounds = front_bounds [OF fr]
    define body where "body = take (n - head) (drop head b)"
    have "take n b = take head b @ body" using bounds by (simp add: body_def take_add [symmetric])
    then have "onEach kind f b = take head b @ (if take 4 (drop 4 b) = kind then f body else body) @ onEach kind f (drop n b)"
      using onEach_front(2) [OF fr, of kind f] by (simp add: body_def)
    also have "boxes \<dots> = \<lparr>bx_kind = take 4 (drop 4 b), bx_body = (if take 4 (drop 4 b) = kind then f body else body)\<rparr> # boxes (onEach kind f (drop n b))"
      using bounds assms by (intro boxes_rebuilt [OF fr]) (simp_all add: body_def min_absorb2 diff_le_mono)
    also have "boxes (onEach kind f (drop n b)) = map (in_box kind f) (boxes (drop n b))" using less [of "drop n b"] bounds by simp
    finally show ?thesis by (simp add: boxes_front(2) [OF fr] in_box_def body_def)
  qed
qed

fun first_box :: "bytes \<Rightarrow> (bytes \<Rightarrow> bytes) \<Rightarrow> box list \<Rightarrow> box list" where
  "first_box kind f [] = []"
| "first_box kind f (x # xs) = (if bx_kind x = kind then in_box kind f x # xs else x # first_box kind f xs)"

lemma boxes_onFirst:
  assumes "\<And>x. length (f x) = length x"
  shows "boxes (onFirst kind f b) = first_box kind f (boxes b)"
proof (induction "length b" arbitrary: b rule: less_induct)
  case less
  show ?case
  proof (cases "front b")
    case None
    then show ?thesis by (simp add: boxes_front onFirst_front)
  next
    case (Some nh)
    obtain n head where nh: "nh = (n, head)" by (cases nh)
    note fr = Some [unfolded nh]
    note bounds = front_bounds [OF fr]
    define body where "body = take (n - head) (drop head b)"
    define rest where "rest = (if take 4 (drop 4 b) = kind then drop n b else onFirst kind f (drop n b))"
    have "take n b = take head b @ body" using bounds by (simp add: body_def take_add [symmetric])
    then have "onFirst kind f b = take head b @ (if take 4 (drop 4 b) = kind then f body else body) @ rest"
      using onFirst_front(2) [OF fr, of kind f] by (simp add: body_def rest_def)
    also have "boxes \<dots> = \<lparr>bx_kind = take 4 (drop 4 b), bx_body = (if take 4 (drop 4 b) = kind then f body else body)\<rparr> # boxes rest"
      using bounds assms by (intro boxes_rebuilt [OF fr]) (simp_all add: body_def rest_def min_absorb2 diff_le_mono)
    also have "boxes rest = (if take 4 (drop 4 b) = kind then boxes (drop n b) else first_box kind f (boxes (drop n b)))"
      using less [of "drop n b"] bounds by (simp add: rest_def)
    finally show ?thesis by (simp add: boxes_front(2) [OF fr] in_box_def body_def)
  qed
qed

lemma find_first_box: "find (\<lambda>x. bx_kind x = k) (first_box kind f xs) =
    (if k = kind then map_option (in_box kind f) (find (\<lambda>x. bx_kind x = k) xs) else find (\<lambda>x. bx_kind x = k) xs)"
proof (induction xs)
  case (Cons x xs)
  have "bx_kind (in_box kind f x) = bx_kind x" by (simp add: in_box_def)
  with Cons show ?case by auto
qed simp

lemma child_onFirst:
  assumes "\<And>x. length (f x) = length x"
  shows "child (onFirst kind f b) k = (if k = kind then map_option f (child b k) else child b k)"
proof -
  have "map_option bx_body (map_option (in_box kind f) (find (\<lambda>x. bx_kind x = kind) xs)) = map_option f (map_option bx_body (find (\<lambda>x. bx_kind x = kind) xs))" for xs
    by (induction xs) (simp_all add: in_box_def)
  then show ?thesis by (simp add: child_def boxes_onFirst [OF assms] find_first_box)
qed

subsection \<open>Moving a track\<close>

lemma length_shiftTime [simp]: "length (shiftTime d x) = length x"
  by (simp add: shiftTime_def)

lemma length_shiftTraf [simp]: "length (shiftTraf sh x) = length x"
  by (simp add: shiftTraf_def Let_def)

lemma shiftTime_version: "shiftTime d x ! 0 = x ! 0"
proof -
  have "take 4 x ! 0 = x ! 0" by simp
  then show ?thesis by (auto simp: shiftTime_def nth_append)
qed

definition shift_fits :: "trackRun \<Rightarrow> int \<Rightarrow> bool" where
  "shift_fits r d \<longleftrightarrow>
     (if tr_tfdt r ! 0 = 1 then - (2 ^ 63) \<le> decodeTime r + d \<and> decodeTime r + d < 2 ^ 63
      else 0 \<le> decodeTime r + d \<and> decodeTime r + d < 2 ^ 32)"

lemma decodeTime_shift:
  assumes "\<not> badTimes r" "shift_fits r d"
  shows "decodeTime (r\<lparr>tr_tfdt := shiftTime d (tr_tfdt r)\<rparr>) = decodeTime r + d"
proof (cases "tr_tfdt r ! 0 = 1")
  case True
  then have l: "12 \<le> length (tr_tfdt r)" using assms(1) by (auto simp: badTimes_def)
  have "u64 (shiftTime d (tr_tfdt r)) 4 = nat ((signed 64 (u64 (tr_tfdt r) 4) + d) mod 2 ^ 64)"
    using True l by (simp add: shiftTime_def u64_def putInt_def be_put)
  moreover have "decodeTime r = signed 64 (u64 (tr_tfdt r) 4)" using True l by (simp add: decodeTime_def)
  ultimately show ?thesis using True l assms(2) signed_putInt [of "decodeTime r + d"]
    by (simp add: shift_fits_def decodeTime_def shiftTime_version)
next
  case False
  then have l: "8 \<le> length (tr_tfdt r)" using assms(1) by (auto simp: badTimes_def)
  have "u32 (shiftTime d (tr_tfdt r)) 4 = nat ((int (u32 (tr_tfdt r) 4) + d) mod 2 ^ 32)"
    using False l by (simp add: shiftTime_def u32_def putInt_def be_put)
  moreover have "decodeTime r = int (u32 (tr_tfdt r) 4)" using False l by (simp add: decodeTime_def)
  ultimately show ?thesis using False l assms(2) by (simp add: shift_fits_def decodeTime_def shiftTime_version)
qed

lemma readTrun_tfdt: "readTrun b (r\<lparr>tr_tfdt := t\<rparr>) = map_option (\<lambda>q. q\<lparr>tr_tfdt := t\<rparr>) (readTrun b r)"
  by (auto simp: readTrun_def Let_def split: Option.bind_splits)

lemma readTrun_fields:
  "readTrun b r = Some q \<Longrightarrow> tr_tfdt q = tr_tfdt r \<and> tr_tfhd q = tr_tfhd r"
  by (auto simp: readTrun_def Let_def split: Option.bind_splits if_splits)

lemma timingBoxes_tfdt:
  "\<forall>x \<in> set xs. bx_kind x \<noteq> k_tfdt \<Longrightarrow> timingBoxes xs (r\<lparr>tr_tfdt := t\<rparr>) = map_option (\<lambda>q. q\<lparr>tr_tfdt := t\<rparr>) (timingBoxes xs r)"
proof (induction xs arbitrary: r)
  case (Cons x xs)
  have n: "\<forall>x \<in> set xs. bx_kind x \<noteq> k_tfdt" using Cons.prems by simp
  have "r\<lparr>tr_tfdt := t, tr_tfhd := bx_body x\<rparr> = r\<lparr>tr_tfhd := bx_body x, tr_tfdt := t\<rparr>" by simp
  then have "timingBoxes xs (r\<lparr>tr_tfdt := t, tr_tfhd := bx_body x\<rparr>) =
      map_option (\<lambda>q. q\<lparr>tr_tfdt := t\<rparr>) (timingBoxes xs (r\<lparr>tr_tfhd := bx_body x\<rparr>))"
    using Cons.IH [OF n, of "r\<lparr>tr_tfhd := bx_body x\<rparr>"] by (simp only:)
  then show ?case using Cons.IH Cons.prems by (cases "readTrun (bx_body x) r") (simp_all add: readTrun_tfdt)
qed simp

definition only_one :: "bytes \<Rightarrow> box list \<Rightarrow> bool" where
  "only_one k xs \<longleftrightarrow> length (filter (\<lambda>x. bx_kind x = k) xs) = 1"

lemma only_one_Cons: "only_one k (x # xs) \<longleftrightarrow> (if bx_kind x = k then \<forall>y \<in> set xs. bx_kind y \<noteq> k else only_one k xs)"
  by (auto simp: only_one_def filter_empty_conv)

lemma timingBoxes_moved:
  "only_one k_tfdt xs \<Longrightarrow> timingBoxes (first_box k_tfdt f xs) r = map_option (\<lambda>q. q\<lparr>tr_tfdt := f (tr_tfdt q)\<rparr>) (timingBoxes xs r)"
proof (induction xs arbitrary: r)
  case (Cons x xs)
  show ?case
  proof (cases "bx_kind x = k_tfdt")
    case True
    then have n: "\<forall>y \<in> set xs. bx_kind y \<noteq> k_tfdt" using Cons.prems by (simp add: only_one_Cons)
    have "timingBoxes xs (r\<lparr>tr_tfdt := f (bx_body x)\<rparr>) = map_option (\<lambda>q. q\<lparr>tr_tfdt := f (tr_tfdt q)\<rparr>) (timingBoxes xs (r\<lparr>tr_tfdt := bx_body x\<rparr>))"
      unfolding timingBoxes_tfdt [OF n] by (simp add: option.map_comp comp_def)
    with True show ?thesis by (simp add: in_box_def)
  next
    case False
    then have "only_one k_tfdt xs" using Cons.prems by (simp add: only_one_Cons)
    with False Cons.IH show ?thesis by (cases "readTrun (bx_body x) r") simp_all
  qed
qed (simp add: only_one_def)

lemma timingBoxes_last:
  "timingBoxes xs r = Some q \<Longrightarrow> only_one k_tfhd xs \<Longrightarrow> Some (tr_tfhd q) = map_option bx_body (find (\<lambda>x. bx_kind x = k_tfhd) xs)"
proof (induction xs arbitrary: r)
  case (Cons x xs)
  have keep: "timingBoxes ys r = Some q \<Longrightarrow> \<forall>y \<in> set ys. bx_kind y \<noteq> k_tfhd \<Longrightarrow> tr_tfhd q = tr_tfhd r" for ys r
  proof (induction ys arbitrary: r)
    case (Cons y ys)
    then show ?case
      by (cases "readTrun (bx_body y) r") (auto split: if_splits dest!: readTrun_fields)
  qed simp
  show ?case
  proof (cases "bx_kind x = k_tfhd")
    case True
    with Cons.prems keep [of xs] show ?thesis by (simp add: only_one_Cons)
  next
    case False
    with Cons.prems show ?thesis
      using Cons.IH by (auto simp: only_one_Cons split: if_splits Option.bind_splits)
  qed
qed (simp add: only_one_def)

lemma only_one_child: "only_one k (boxes b) \<Longrightarrow> \<exists>x. child b k = Some x"
proof -
  assume "only_one k (boxes b)"
  then have "filter (\<lambda>x. bx_kind x = k) (boxes b) \<noteq> []" by (auto simp: only_one_def)
  then have "find (\<lambda>x. bx_kind x = k) (boxes b) \<noteq> None" by (auto simp: filter_empty_conv find_None_iff)
  then show ?thesis by (auto simp: child_def)
qed

definition plain :: "bytes \<Rightarrow> bool" where
  "plain traf \<longleftrightarrow> only_one k_tfhd (boxes traf) \<and> only_one k_tfdt (boxes traf)"

lemma runTiming_facts:
  assumes "runTiming traf = Some r" "plain traf"
  shows "\<not> badTimes r" "child traf k_tfhd = Some (tr_tfhd r)" "tr_id r = u32 (tr_tfhd r) 4" "8 \<le> length (tr_tfhd r)"
proof -
  obtain q where q: "timingBoxes (boxes traf) noRun = Some q" "\<not> badTimes q" "tr_tfhd r = tr_tfhd q" "tr_tfdt r = tr_tfdt q" "tr_id r = u32 (tr_tfhd q) 4"
    using assms(1) by (auto simp: runTiming_def Let_def split: Option.bind_splits if_splits)
  show "\<not> badTimes r" using q by (simp add: badTimes_def)
  show "child traf k_tfhd = Some (tr_tfhd r)"
    using timingBoxes_last [OF q(1)] assms(2) q(3) by (simp add: child_def plain_def)
  show "tr_id r = u32 (tr_tfhd r) 4" "8 \<le> length (tr_tfhd r)" using q by (simp_all add: badTimes_def)
qed

definition moved :: "int \<Rightarrow> trackRun \<Rightarrow> trackRun" where
  "moved d r = r\<lparr>tr_tfdt := if d = 0 then tr_tfdt r else shiftTime d (tr_tfdt r)\<rparr>"

lemma badTimes_shift: "badTimes (r\<lparr>tr_tfdt := shiftTime d (tr_tfdt r)\<rparr>) = badTimes r"
  by (simp add: badTimes_def shiftTime_version)

lemma runTiming_tfdt:
  "plain traf \<Longrightarrow> runTiming (onFirst k_tfdt (shiftTime d) traf) = map_option (\<lambda>r. r\<lparr>tr_tfdt := shiftTime d (tr_tfdt r)\<rparr>) (runTiming traf)"
  by (cases "timingBoxes (boxes traf) noRun")
     (auto simp: runTiming_def plain_def boxes_onFirst timingBoxes_moved badTimes_shift Let_def)

lemma runTiming_moved:
  assumes "plain traf"
  shows "runTiming (shiftTraf sh traf) = map_option (\<lambda>r. moved (sh (tr_id r)) r) (runTiming traf)"
proof (cases "runTiming traf")
  case None
  then show ?thesis using runTiming_tfdt [OF assms] by (simp add: shiftTraf_def Let_def)
next
  case (Some r)
  note facts = runTiming_facts [OF Some assms]
  have "shiftTraf sh traf = (if sh (tr_id r) = 0 then traf else onFirst k_tfdt (shiftTime (sh (tr_id r))) traf)"
    using facts by (simp add: shiftTraf_def Let_def body_of_def)
  then show ?thesis using runTiming_tfdt [OF assms] Some by (simp add: moved_def)
qed

lemma shownFrom_moved: "shownFrom (r\<lparr>tr_tfdt := t\<rparr>) (dts + d) ss = map (\<lambda>(p, q). (p + d, q)) (shownFrom r dts ss)"
proof (induction ss arbitrary: dts)
  case (Cons s ss)
  have "shownFrom (r\<lparr>tr_tfdt := t\<rparr>) (dts + d + sampleDur r s) ss = map (\<lambda>(p, q). (p + d, q)) (shownFrom r (dts + sampleDur r s) ss)"
    using Cons.IH [of "dts + sampleDur r s"] by (simp add: ac_simps)
  moreover have "sampleDur (r\<lparr>tr_tfdt := t\<rparr>) s = sampleDur r s" "cts (r\<lparr>tr_tfdt := t\<rparr>) s = cts r s"
    by (simp_all add: sampleDur_def cts_def)
  ultimately show ?case by simp
qed simp

lemma trackRuns_moved:
  assumes "\<forall>t \<in> set (boxes moof). bx_kind t = k_traf \<longrightarrow> plain (bx_body t)"
  shows "trackRuns track (onEach k_traf (shiftTraf sh) moof) = map (moved (sh track)) (trackRuns track moof)"
proof -
  have "List.map_filter
       (\<lambda>t. if bx_kind t \<noteq> k_traf then None
            else (case runTiming (bx_body t) of
                    None \<Rightarrow> None
                  | Some r \<Rightarrow> if tr_id r \<noteq> track \<or> tr_samples r = [] then None else Some r))
       (map (in_box k_traf (shiftTraf sh)) ts) = map (moved (sh track)) (List.map_filter
       (\<lambda>t. if bx_kind t \<noteq> k_traf then None
            else (case runTiming (bx_body t) of
                    None \<Rightarrow> None
                  | Some r \<Rightarrow> if tr_id r \<noteq> track \<or> tr_samples r = [] then None else Some r)) ts)"
    if "\<forall>t \<in> set ts. bx_kind t = k_traf \<longrightarrow> plain (bx_body t)" for ts
    using that
  proof (induction ts)
    case (Cons t ts)
    then show ?case
      by (cases "runTiming (bx_body t)") (auto simp: map_filter_simps in_box_def runTiming_moved moved_def)
  qed (simp add: map_filter_simps)
  with assms show ?thesis by (simp add: trackRuns_def boxes_onEach)
qed

definition trafs_plain :: "bytes \<Rightarrow> bool" where
  "trafs_plain frag \<longleftrightarrow> only_one k_moof (boxes frag) \<and> (\<forall>t \<in> set (boxes (body_of (child frag k_moof))). bx_kind t = k_traf \<longrightarrow> plain (bx_body t))"

lemma shownIn_one: "only_one k_moof (boxes frag) \<Longrightarrow>
    shownIn track frag = concat (map (\<lambda>r. shownFrom r (decodeTime r) (tr_samples r)) (trackRuns track (body_of (child frag k_moof))))"
proof -
  let ?g = "\<lambda>top. if bx_kind top \<noteq> k_moof then []
                        else concat (map (\<lambda>r. shownFrom r (decodeTime r) (tr_samples r)) (trackRuns track (bx_body top)))"
  have none: "\<forall>x \<in> set xs. bx_kind x \<noteq> k_moof \<Longrightarrow> concat (map ?g xs) = []" for xs by simp
  have "only_one k_moof xs \<Longrightarrow> concat (map ?g xs) =
      concat (map (\<lambda>r. shownFrom r (decodeTime r) (tr_samples r)) (trackRuns track (body_of (map_option bx_body (find (\<lambda>x. bx_kind x = k_moof) xs)))))" for xs
  proof (induction xs)
    case (Cons x xs)
    then show ?case using none [of xs] by (cases "bx_kind x = k_moof") (auto simp: only_one_Cons body_of_def)
  qed (simp add: only_one_def)
  then show "only_one k_moof (boxes frag) \<Longrightarrow> ?thesis" unfolding shownIn_def child_def by blast
qed

lemma only_one_first_box: "only_one k (first_box k' f xs) = only_one k xs"
proof (induction xs)
  case (Cons x xs)
  have "bx_kind (in_box k' f x) = bx_kind x" by (simp add: in_box_def)
  moreover have "bx_kind ` set (first_box k' f xs) = bx_kind ` set xs" by (induction xs) (auto simp: in_box_def)
  then have "(\<forall>y \<in> set (first_box k' f xs). bx_kind y \<noteq> k) = (\<forall>y \<in> set xs. bx_kind y \<noteq> k)" by (metis (mono_tags, lifting) imageE imageI)
  ultimately show ?case using Cons by (simp add: only_one_Cons)
qed simp

end
