(* ===== verification/Mp4Build.thy ===== *)
theory Mp4Build
  imports Mp4Props
begin

text \<open>A run that is built reads back: what \<^verbatim>\<open>parseRun\<close> makes of what \<^verbatim>\<open>build\<close> writes.\<close>

definition sample_ok :: "nat \<Rightarrow> trunSample \<Rightarrow> bool" where
  "sample_ok flags s \<longleftrightarrow> ts_dur s < 2 ^ 32 \<and> ts_size s < 2 ^ 32 \<and> ts_flags s < 2 ^ 32 \<and> ts_cts s < 2 ^ 32 \<and>
     (\<not> has flags 0x100 \<longrightarrow> ts_dur s = 0) \<and> (\<not> has flags 0x200 \<longrightarrow> ts_size s = 0) \<and>
     (\<not> has flags 0x400 \<longrightarrow> ts_flags s = 0) \<and> (\<not> has flags 0x800 \<longrightarrow> ts_cts s = 0)"

definition no_defaults :: "trackRun \<Rightarrow> trackRun" where
  "no_defaults r = r\<lparr>tr_defDur := 0, tr_defSize := 0, tr_hasSizes := False, tr_hasDurs := False\<rparr>"

text \<open>The fields of a run as a \<^verbatim>\<open>trun\<close> gives them, and the whole run.\<close>

definition trun_ok :: "trackRun \<Rightarrow> bool" where
  "trun_ok r \<longleftrightarrow> tr_flags r < 2 ^ 24 \<and> (\<forall>s \<in> set (tr_samples r). sample_ok (tr_flags r) s) \<and> tr_first r < 2 ^ 32 \<and>
     (\<not> has (tr_flags r) 0x4 \<longrightarrow> tr_first r = 0) \<and> (has (tr_flags r) 0xF00 \<or> length (tr_samples r) \<le> 2 ^ 20) \<and>
     length (tr_samples r) < 2 ^ 32"

definition run_ok :: "trackRun \<Rightarrow> bool" where
  "run_ok r \<longleftrightarrow> trun_ok r \<and> \<not> badTimes r \<and> has (tr_flags r) 0x1 \<and> \<not> has (u24 (tr_tfhd r) 1) 0x1 \<and> has (u24 (tr_tfhd r) 1) 0x20000 \<and>
     tr_id r = u32 (tr_tfhd r) 4 \<and> runDefaults (no_defaults r) = r"

subsection \<open>What is parsed is well formed\<close>

lemma optField_ok: "optField b flags m off = Some (v, o1) \<Longrightarrow> v < 2 ^ 32 \<and> (\<not> has flags m \<longrightarrow> v = 0)"
  using u32_less by (auto simp: optField_def split: if_splits)

lemma readSample_ok: "readSample b flags off = Some (s, o1) \<Longrightarrow> sample_ok flags s"
  by (auto simp: readSample_def sample_ok_def dest!: optField_ok split: Option.bind_splits)

lemma readSamples_ok: "readSamples n b flags off = Some ss \<Longrightarrow> length ss = n \<and> (\<forall>s \<in> set ss. sample_ok flags s)"
  by (induction n arbitrary: off ss) (auto split: Option.bind_splits dest!: readSample_ok)

lemma readTrun_ok: "readTrun b r = Some q \<Longrightarrow> tr_samples r = [] \<Longrightarrow> tr_first r = 0 \<Longrightarrow> trun_ok q"
  using u24_less [of b 1] u32_less [of b 4]
  by (auto simp: readTrun_def trun_ok_def Let_def dest!: readSamples_ok optField_ok split: Option.bind_splits if_splits)

lemma readTrun_rest:
  "readTrun b r = Some q \<Longrightarrow> tr_id q = tr_id r \<and> tr_defDur q = tr_defDur r \<and> tr_defSize q = tr_defSize r \<and>
     tr_hasSizes q = tr_hasSizes r \<and> tr_hasDurs q = tr_hasDurs r"
  by (auto simp: readTrun_def Let_def split: Option.bind_splits if_splits)

definition bare :: "nat \<Rightarrow> trackRun \<Rightarrow> bool" where
  "bare runs r \<longleftrightarrow> tr_id r = 0 \<and> no_defaults r = r \<and>
     (if runs = 0 then tr_samples r = [] \<and> tr_first r = 0 else if runs = 1 then trun_ok r else True)"

lemma no_defaults_iff: "no_defaults r = r \<longleftrightarrow> tr_defDur r = 0 \<and> tr_defSize r = 0 \<and> \<not> tr_hasSizes r \<and> \<not> tr_hasDurs r"
  by (cases r) (auto simp: no_defaults_def)

lemma bare_steps:
  "bare runs r \<Longrightarrow> bare runs (r\<lparr>tr_tfhd := h\<rparr>)"
  "bare runs r \<Longrightarrow> bare runs (r\<lparr>tr_tfdt := h\<rparr>)"
  "bare runs r \<Longrightarrow> readTrun b r = Some q \<Longrightarrow> bare (Suc runs) q"
proof -
  show "bare runs r \<Longrightarrow> bare runs (r\<lparr>tr_tfhd := h\<rparr>)" "bare runs r \<Longrightarrow> bare runs (r\<lparr>tr_tfdt := h\<rparr>)"
    by (auto simp: bare_def no_defaults_iff trun_ok_def)
  show "bare runs r \<Longrightarrow> readTrun b r = Some q \<Longrightarrow> bare (Suc runs) q"
    using readTrun_rest [of b r q] readTrun_ok [of b r q] by (auto simp: bare_def no_defaults_iff split: if_splits)
qed

lemma runBoxes_bare: "runBoxes bs runs r = Some (n, q) \<Longrightarrow> bare runs r \<Longrightarrow> bare n q"
proof (induction bs arbitrary: runs r)
  case (Cons x bs)
  then show ?case
    by (auto intro: bare_steps split: if_splits Option.bind_splits)
qed simp

lemma runDefaults_keeps:
  "tr_flags (runDefaults r) = tr_flags r" "tr_samples (runDefaults r) = tr_samples r" "tr_first (runDefaults r) = tr_first r"
  "tr_tfhd (runDefaults r) = tr_tfhd r" "tr_tfdt (runDefaults r) = tr_tfdt r" "tr_id (runDefaults r) = tr_id r"
  "tr_version (runDefaults r) = tr_version r" "tr_dataOff (runDefaults r) = tr_dataOff r"
  by (simp_all add: runDefaults_def Let_def)

lemma no_defaults_runDefaults: "no_defaults r = r \<Longrightarrow> no_defaults (runDefaults r) = r"
  by (cases r) (auto simp: no_defaults_def runDefaults_def Let_def)

lemma parseRun_ok: "parseRun traf = Some r \<Longrightarrow> run_ok r"
proof -
  assume p: "parseRun traf = Some r"
  then obtain q where q: "runBoxes (boxes traf) 0 noRun = Some (1, q)" "\<not> badTimes q"
      "\<not> has (u24 (tr_tfhd q) 1) 0x1" "has (u24 (tr_tfhd q) 1) 0x20000" "r = runDefaults (q\<lparr>tr_id := u32 (tr_tfhd q) 4\<rparr>)" "has (tr_flags r) 0x1"
    by (auto simp: parseRun_def Let_def split: Option.bind_splits if_splits)
  have "bare 0 noRun" by (simp add: bare_def noRun_def no_defaults_def)
  then have "bare 1 q" using runBoxes_bare [OF q(1)] by blast
  then have t: "trun_ok q" "no_defaults q = q" by (simp_all add: bare_def)
  then have "no_defaults (q\<lparr>tr_id := u32 (tr_tfhd q) 4\<rparr>) = q\<lparr>tr_id := u32 (tr_tfhd q) 4\<rparr>" by (simp add: no_defaults_iff)
  from no_defaults_runDefaults [OF this] have "runDefaults (no_defaults r) = r" using q(5) by simp
  then show ?thesis using q t(1) by (simp add: run_ok_def runDefaults_keeps trun_ok_def badTimes_def)
qed

subsection \<open>What is built reads back\<close>

lemma optField_put:
  assumes "drop off b = (if has flags m then put 4 v else []) @ rest" "v < 2 ^ 32" "\<not> has flags m \<longrightarrow> v = 0"
  shows "\<exists>o1. optField b flags m off = Some (v, o1) \<and> drop o1 b = rest"
proof (cases "has flags m")
  case True
  have "length b - off = 4 + length rest" using arg_cong [OF assms(1), of length] True by simp
  then have l: "\<not> off + 4 > length b" by linarith
  have "u32 b off = v" using assms(1,2) True by (simp add: u32_def be_put)
  moreover have "drop (off + 4) b = rest" using arg_cong [OF assms(1), of "drop 4"] True by (simp add: add.commute)
  ultimately show ?thesis using True l by (simp add: optField_def)
qed (use assms in \<open>simp add: optField_def\<close>)

lemma readSample_put:
  assumes "drop off b = sampleBytes flags s @ rest" "sample_ok flags s"
  shows "\<exists>o1. readSample b flags off = Some (s, o1) \<and> drop o1 b = rest"
proof -
  note ok = assms(2) [unfolded sample_ok_def]
  obtain o1 where o1: "optField b flags 0x100 off = Some (ts_dur s, o1)"
      "drop o1 b = (if has flags 0x200 then put 4 (ts_size s) else []) @ (if has flags 0x400 then put 4 (ts_flags s) else []) @
       (if has flags 0x800 then put 4 (ts_cts s) else []) @ rest"
    using optField_put [of off b flags "0x100" "ts_dur s"] assms(1) ok by (auto simp: sampleBytes_def)
  obtain o2 where o2: "optField b flags 0x200 o1 = Some (ts_size s, o2)"
      "drop o2 b = (if has flags 0x400 then put 4 (ts_flags s) else []) @ (if has flags 0x800 then put 4 (ts_cts s) else []) @ rest"
    using optField_put [OF o1(2)] ok by blast
  obtain o3 where o3: "optField b flags 0x400 o2 = Some (ts_flags s, o3)" "drop o3 b = (if has flags 0x800 then put 4 (ts_cts s) else []) @ rest"
    using optField_put [OF o2(2)] ok by blast
  obtain o4 where o4: "optField b flags 0x800 o3 = Some (ts_cts s, o4)" "drop o4 b = rest"
    using optField_put [OF o3(2)] ok by blast
  show ?thesis using o1(1) o2(1) o3(1) o4 by (simp add: readSample_def)
qed

lemma readSamples_put:
  "drop off b = concat (map (sampleBytes flags) ss) @ rest \<Longrightarrow> \<forall>s \<in> set ss. sample_ok flags s \<Longrightarrow> readSamples (length ss) b flags off = Some ss"
proof (induction ss arbitrary: off)
  case (Cons s ss)
  obtain o1 where o1: "readSample b flags off = Some (s, o1)" "drop o1 b = concat (map (sampleBytes flags) ss) @ rest"
    using readSample_put [of off b flags s] Cons.prems by auto
  with Cons.IH [OF o1(2)] Cons.prems(2) show ?case by simp
qed simp

definition trunBytes :: "int \<Rightarrow> trackRun \<Rightarrow> bytes" where
  "trunBytes off r = [tr_version r] @ put 3 (tr_flags r) @ put 4 (length (tr_samples r)) @ putInt 4 off @
     (if has (tr_flags r) 0x4 then put 4 (tr_first r) else []) @ concat (map (sampleBytes (tr_flags r)) (tr_samples r))"

lemma build_trun: "build off r = putBox k_traf (putBox k_tfhd (tr_tfhd r) @ putBox k_tfdt (tr_tfdt r) @ putBox k_trun (trunBytes off r))"
proof -
  have "put 3 f = [of_nat (f div 2 ^ 16), of_nat (f div 2 ^ 8), of_nat f]" for f
    by (simp add: numeral_3_eq_3 div_mult2_eq [symmetric])
  then show ?thesis by (simp add: build_def trunBytes_def Let_def)
qed

lemma signed_offset: "- (2 ^ 31) \<le> v \<Longrightarrow> v < 2 ^ 31 \<Longrightarrow> signed 32 (nat (v mod 2 ^ 32)) = v"
proof (cases "0 \<le> v")
  case False
  assume "- (2 ^ 31) \<le> v" "v < 2 ^ 31"
  then have "v mod 2 ^ 32 = v + 2 ^ 32" using False by (intro mod_pos_pos_trivial [of "v + 2 ^ 32" "2 ^ 32", unfolded mod_add_self2]) simp_all
  with False \<open>- (2 ^ 31) \<le> v\<close> show ?thesis by (simp add: signed_def nat_less_iff)
qed (simp add: signed_def nat_less_iff)

lemma readTrun_put:
  assumes "trun_ok r" "has (tr_flags r) 0x1" "- (2 ^ 31) \<le> off" "off < 2 ^ 31" "tr_samples q = []" "tr_first q = 0"
  shows "readTrun (trunBytes off r) q = Some (q\<lparr>tr_version := tr_version r, tr_flags := tr_flags r, tr_dataOff := off,
    tr_first := tr_first r, tr_samples := tr_samples r\<rparr>)"
proof -
  note ok = assms(1) [unfolded trun_ok_def]
  let ?b = "trunBytes off r" and ?f = "tr_flags r"
  have len: "\<not> length ?b < 8" by (simp add: trunBytes_def)
  have head: "?b ! 0 = tr_version r" "u24 ?b 1 = ?f" "u32 ?b 4 = length (tr_samples r)"
    using ok by (simp_all add: trunBytes_def u24_def u32_def be_put)
  have d8: "drop 8 ?b = put 4 (nat (off mod 2 ^ 32)) @ (if has ?f 0x4 then put 4 (tr_first r) else []) @ concat (map (sampleBytes ?f) (tr_samples r))"
    by (simp add: trunBytes_def putInt_def)
  have "nat (off mod 2 ^ 32) < 2 ^ 32" by (simp add: nat_less_iff)
  then obtain o1 where o1: "optField ?b ?f 0x1 8 = Some (nat (off mod 2 ^ 32), o1)"
      "drop o1 ?b = (if has ?f 0x4 then put 4 (tr_first r) else []) @ concat (map (sampleBytes ?f) (tr_samples r))"
    using optField_put [of 8 ?b ?f 1 "nat (off mod 2 ^ 32)"] d8 assms(2) by auto
  obtain o2 where o2: "optField ?b ?f 0x4 o1 = Some (tr_first r, o2)" "drop o2 ?b = concat (map (sampleBytes ?f) (tr_samples r)) @ []"
    using optField_put [OF o1(2)] ok by auto
  have ss: "readSamples (length (tr_samples r)) ?b ?f o2 = Some (tr_samples r)" using readSamples_put [OF o2(2)] ok by blast
  have many: "\<not> (\<not> has ?f 0xF00 \<and> length (tr_samples r) > maxTrunSamples)" using ok by auto
  show ?thesis
    unfolding readTrun_def Let_def head if_not_P [OF len] o1(1) o2(1) bind_eq_Some_conv Option.bind.bind_lunit prod.case if_not_P [OF many] ss
    using assms ok signed_offset [OF assms(3,4)] by auto
qed

lemma build_boxes:
  assumes "length (build off r) < 2 ^ 32"
  shows "drop 8 (build off r) = putBox k_tfhd (tr_tfhd r) @ putBox k_tfdt (tr_tfdt r) @ putBox k_trun (trunBytes off r)"
    "boxes (build off r @ xs) = \<lparr>bx_kind = k_traf, bx_body = drop 8 (build off r)\<rparr> # boxes xs"
    "boxes (drop 8 (build off r)) = [\<lparr>bx_kind = k_tfhd, bx_body = tr_tfhd r\<rparr>, \<lparr>bx_kind = k_tfdt, bx_body = tr_tfdt r\<rparr>, \<lparr>bx_kind = k_trun, bx_body = trunBytes off r\<rparr>]"
proof -
  let ?body = "putBox k_tfhd (tr_tfhd r) @ putBox k_tfdt (tr_tfdt r) @ putBox k_trun (trunBytes off r)"
  have b: "build off r = putBox k_traf ?body" "drop 8 (build off r) = ?body" unfolding build_trun by (simp_all add: putBox_def)
  show "drop 8 (build off r) = ?body" by (rule b(2))
  have size: "8 + length ?body < 2 ^ 32" using assms b(1) by simp
  show "boxes (build off r @ xs) = \<lparr>bx_kind = k_traf, bx_body = drop 8 (build off r)\<rparr> # boxes xs"
    unfolding b(2) unfolding b(1) by (rule boxes_putBox [OF _ size]) simp
  have sizes: "8 + length (tr_tfhd r) < 2 ^ 32" "8 + length (tr_tfdt r) < 2 ^ 32" "8 + length (trunBytes off r) < 2 ^ 32" using size by simp_all
  show "boxes (drop 8 (build off r)) = [\<lparr>bx_kind = k_tfhd, bx_body = tr_tfhd r\<rparr>, \<lparr>bx_kind = k_tfdt, bx_body = tr_tfdt r\<rparr>, \<lparr>bx_kind = k_trun, bx_body = trunBytes off r\<rparr>]"
    unfolding b(2)
    using boxes_putBox [OF _ sizes(1), of k_tfhd "putBox k_tfdt (tr_tfdt r) @ putBox k_trun (trunBytes off r)"]
      boxes_putBox [OF _ sizes(2), of k_tfdt "putBox k_trun (trunBytes off r)"] boxes_putBox [OF _ sizes(3), of k_trun "[]"] by simp
qed

lemma build_reads_back:
  assumes "run_ok r" "- (2 ^ 31) \<le> off" "off < 2 ^ 31" "length (build off r) < 2 ^ 32"
  shows "boxes (build off r @ xs) = \<lparr>bx_kind = k_traf, bx_body = drop 8 (build off r)\<rparr> # boxes xs"
    "parseRun (drop 8 (build off r)) = Some (r\<lparr>tr_dataOff := off\<rparr>)"
proof -
  note bx = build_boxes [OF assms(4)]
  show "boxes (build off r @ xs) = \<lparr>bx_kind = k_traf, bx_body = drop 8 (build off r)\<rparr> # boxes xs" by (rule bx(2))
  note ok = assms(1) [unfolded run_ok_def]
  let ?q = "noRun\<lparr>tr_tfhd := tr_tfhd r, tr_tfdt := tr_tfdt r\<rparr>"
  let ?r0 = "?q\<lparr>tr_version := tr_version r, tr_flags := tr_flags r, tr_dataOff := off, tr_first := tr_first r, tr_samples := tr_samples r\<rparr>"
  have t: "readTrun (trunBytes off r) ?q = Some ?r0"
    using ok assms(2,3) by (intro readTrun_put) (simp_all add: noRun_def)
  have rb: "runBoxes (boxes (drop 8 (build off r))) 0 noRun = Some (1, ?r0)" unfolding bx(3) by (simp add: t)
  have bad: "\<not> badTimes ?r0" using ok by (simp add: badTimes_def)
  have r0: "?r0\<lparr>tr_id := u32 (tr_tfhd r) 4\<rparr> = (no_defaults r)\<lparr>tr_dataOff := off\<rparr>"
    using ok by (cases r) (simp add: no_defaults_def noRun_def)
  have "runDefaults ((no_defaults r)\<lparr>tr_dataOff := off\<rparr>) = (runDefaults (no_defaults r))\<lparr>tr_dataOff := off\<rparr>"
    by (simp add: runDefaults_def Let_def)
  also have "\<dots> = r\<lparr>tr_dataOff := off\<rparr>" using ok by simp
  finally have d: "runDefaults (?r0\<lparr>tr_id := u32 (tr_tfhd r) 4\<rparr>) = r\<lparr>tr_dataOff := off\<rparr>" unfolding r0 .
  show "parseRun (drop 8 (build off r)) = Some (r\<lparr>tr_dataOff := off\<rparr>)"
    unfolding parseRun_def rb Option.bind.bind_lunit prod.case Let_def
    using bad ok d by simp
qed

end
