(* ===== verification/Mp4Cut.thy ===== *)
theory Mp4Cut
  imports Mp4Build
begin

text \<open>Cutting disjoint pieces out of the media data: what is not cut moves up by the cuts before it.\<close>

text \<open>Cuts in order, none overlapping the next, all within \<open>lo\<close> and \<open>hi\<close>.\<close>

fun in_order_cuts :: "int \<Rightarrow> cut list \<Rightarrow> int \<Rightarrow> bool" where
  "in_order_cuts lo [] hi \<longleftrightarrow> lo \<le> hi"
| "in_order_cuts lo ((pos, n) # cuts) hi \<longleftrightarrow> lo \<le> pos \<and> 0 \<le> n \<and> in_order_cuts (pos + n) cuts hi"

definition cut_before :: "cut list \<Rightarrow> int \<Rightarrow> int" where
  "cut_before cuts p = sum_list (map (\<lambda>c. if fst c < p then snd c else 0) cuts)"

lemma cut_before_Cons: "cut_before (c # cuts) p = (if fst c < p then snd c else 0) + cut_before cuts p"
  by (simp add: cut_before_def)

lemma cut_before_later: "in_order_cuts lo cuts hi \<Longrightarrow> p \<le> lo \<Longrightarrow> cut_before cuts p = 0"
  by (induction lo cuts hi rule: in_order_cuts.induct) (auto simp: cut_before_def)

lemma cut_before_bounds:
  "in_order_cuts lo cuts hi \<Longrightarrow> lo \<le> p \<Longrightarrow> \<forall>c \<in> set cuts. fst c + snd c \<le> p \<or> p \<le> fst c \<Longrightarrow>
   0 \<le> cut_before cuts p \<and> cut_before cuts p \<le> p - lo"
proof (induction lo cuts hi rule: in_order_cuts.induct)
  case (2 lo pos n cuts hi)
  show ?case
  proof (cases "pos + n \<le> p")
    case True
    with 2 show ?thesis by (auto simp: cut_before_Cons)
  next
    case False
    then have p: "p \<le> pos" using 2(4) by auto
    then have "cut_before cuts p = 0" using cut_before_later [of "pos + n" cuts hi p] 2(2) by simp
    with p 2 show ?thesis by (simp add: cut_before_Cons)
  qed
qed (simp add: cut_before_def)

lemma cutData_Cons:
  assumes "cutData ms ((pos, n) # cuts) mdat = Some out" "0 \<le> n"
  obtains mdat1 s m where "cutData ms cuts mdat = Some mdat1" "pos = ms + 8 + int s" "n = int m" "s + m \<le> length mdat1"
    "out = take s mdat1 @ drop (s + m) mdat1"
proof -
  obtain mdat1 where c: "cutData ms cuts mdat = Some mdat1" using assms(1) by (cases "cutData ms cuts mdat") auto
  with assms(1) have b: "0 \<le> pos - ms - 8" "pos - ms - 8 + n \<le> int (length mdat1)"
      "out = take (nat (pos - ms - 8)) mdat1 @ drop (nat (pos - ms - 8 + n)) mdat1"
    by (auto simp: Let_def split: if_splits)
  have "nat (pos - ms - 8 + n) = nat (pos - ms - 8) + nat n" using b(1) assms(2) by (rule nat_add_distrib)
  with that [OF c, of "nat (pos - ms - 8)" "nat n"] b assms(2) show thesis by simp
qed

lemma cutData_prefix:
  "in_order_cuts lo cuts hi \<Longrightarrow> cutData ms cuts mdat = Some out \<Longrightarrow> ms + 8 + int k \<le> lo \<Longrightarrow> take k out = take k mdat"
proof (induction lo cuts hi arbitrary: out rule: in_order_cuts.induct)
  case (2 lo pos n cuts hi)
  have n: "0 \<le> n" "lo \<le> pos" "in_order_cuts (pos + n) cuts hi" using 2(2) by auto
  obtain mdat1 s m where c: "cutData ms cuts mdat = Some mdat1" "pos = ms + 8 + int s" "n = int m" "s + m \<le> length mdat1"
    "out = take s mdat1 @ drop (s + m) mdat1"
    using cutData_Cons [OF 2(3) n(1)] .
  have "take k mdat1 = take k mdat" using 2(1) [OF n(3) c(1)] 2(4) n by simp
  moreover have "k \<le> s" using 2(4) n(2) c(2) by simp
  ultimately show ?case using c(4,5) by (simp add: min_absorb1)
qed simp

lemma cutData_keeps:
  "in_order_cuts lo cuts hi \<Longrightarrow> cutData ms cuts mdat = Some out \<Longrightarrow> ms + 8 \<le> lo \<Longrightarrow> lo \<le> p \<Longrightarrow>
   \<forall>c \<in> set cuts. fst c + snd c \<le> p \<or> p + int len \<le> fst c \<Longrightarrow> 0 < len \<Longrightarrow>
   take len (drop (nat (p - ms - 8 - cut_before cuts p)) out) = take len (drop (nat (p - ms - 8)) mdat)"
proof (induction lo cuts hi arbitrary: out rule: in_order_cuts.induct)
  case (1 lo hi)
  then show ?case by (simp add: cut_before_def)
next
  case (2 lo pos n cuts hi)
  have n: "0 \<le> n" "lo \<le> pos" "in_order_cuts (pos + n) cuts hi" using 2(2) by auto
  obtain mdat1 s m where c: "cutData ms cuts mdat = Some mdat1" "pos = ms + 8 + int s" "n = int m" "s + m \<le> length mdat1"
    "out = take s mdat1 @ drop (s + m) mdat1"
    using cutData_Cons [OF 2(3) n(1)] .
  show ?case
  proof (cases "pos + n \<le> p")
    case True
    then have ih: "take len (drop (nat (p - ms - 8 - cut_before cuts p)) mdat1) = take len (drop (nat (p - ms - 8)) mdat)"
      using 2(1) [OF n(3) c(1)] 2(4-7) n by auto
    have "\<forall>c \<in> set cuts. fst c + snd c \<le> p \<or> p \<le> fst c" using 2(6) by fastforce
    with cut_before_bounds [OF n(3), of p] True have b: "cut_before cuts p \<le> p - (pos + n)" by blast
    define q where "q = nat (p - ms - 8 - cut_before cuts p)"
    have "s + m \<le> q" using b c(2,3) by (simp add: q_def)
    moreover have "nat (p - ms - 8 - cut_before ((pos, n) # cuts) p) = q - m"
    proof (cases "pos < p")
      case True
      then have "nat (p - ms - 8 - cut_before ((pos, n) # cuts) p) = nat (p - ms - 8 - cut_before cuts p - int m)"
        using c(3) by (simp add: cut_before_Cons algebra_simps)
      then show ?thesis by (simp add: q_def nat_diff_distrib')
    qed (use True c(3) in \<open>simp add: cut_before_Cons q_def\<close>)
    moreover have "drop (q - m) out = drop q mdat1" if "s + m \<le> q" using that c(4) unfolding c(5) by simp
    ultimately show ?thesis using ih by (simp add: q_def)
  next
    case False
    then have p: "p + int len \<le> pos" using 2(6) by auto
    then have "cut_before ((pos, n) # cuts) p = 0" using cut_before_later [OF n(3), of p] n(1) 2(7) by (simp add: cut_before_Cons)
    moreover define q where "q = nat (p - ms - 8)"
    have "int q = p - ms - 8" using 2(4,5) by (simp add: q_def)
    then have "take (q + len) out = take (q + len) mdat"
      using p by (intro cutData_prefix [of pos "(pos, n) # cuts" hi, OF _ 2(3)]) (use n in simp_all)
    then have "drop q (take (q + len) out) = drop q (take (q + len) mdat)" by simp
    ultimately show ?thesis by (simp add: q_def drop_take)
  qed
qed

lemma cutData_insort: "sum_list (map f (sort_key fst cuts)) = (sum_list (map f cuts) :: int)"
proof -
  have "mset (map f (sort_key fst cuts)) = mset (map f cuts)" by simp
  then show ?thesis by (metis sum_mset_sum_list)
qed

lemma cut_before_sort: "cut_before (sort_key fst cuts) p = cut_before cuts p"
  unfolding cut_before_def by (rule cutData_insort)

text \<open>Disjoint pieces, no two from the same place, are in order once they are sorted.\<close>

definition apart :: "cut \<Rightarrow> cut \<Rightarrow> bool" where
  "apart c d \<longleftrightarrow> fst c + snd c \<le> fst d \<or> fst d + snd d \<le> fst c"

lemma in_order_sorted:
  "sorted (map fst cuts) \<Longrightarrow> distinct (map fst cuts) \<Longrightarrow> \<forall>c \<in> set cuts. 0 \<le> snd c \<and> lo \<le> fst c \<and> fst c + snd c \<le> hi \<Longrightarrow>
   \<forall>c \<in> set cuts. \<forall>d \<in> set cuts. c \<noteq> d \<longrightarrow> apart c d \<Longrightarrow> lo \<le> hi \<Longrightarrow> in_order_cuts lo cuts hi"
proof (induction cuts arbitrary: lo)
  case (Cons c cuts)
  have "fst c + snd c \<le> fst d" if d: "d \<in> set cuts" for d
  proof -
    have "fst c \<noteq> fst d" using Cons.prems(2) d by auto
    moreover have "fst c \<le> fst d" using Cons.prems(1) d by simp
    moreover have "apart c d" using Cons.prems(4) d \<open>fst c \<noteq> fst d\<close> by auto
    moreover have "0 \<le> snd d" using Cons.prems(3) d by simp
    ultimately show ?thesis by (auto simp: apart_def)
  qed
  then have "in_order_cuts (fst c + snd c) cuts hi" using Cons.prems by (intro Cons.IH) auto
  with Cons.prems(3) show ?case by (cases c) simp
qed simp

lemma in_order_cuts_sort:
  assumes "distinct (map fst cuts)" "\<forall>c \<in> set cuts. 0 \<le> snd c \<and> lo \<le> fst c \<and> fst c + snd c \<le> hi"
    "\<forall>c \<in> set cuts. \<forall>d \<in> set cuts. c \<noteq> d \<longrightarrow> apart c d" "lo \<le> hi"
  shows "in_order_cuts lo (sort_key fst cuts) hi"
proof (rule in_order_sorted)
  have "mset (map fst (sort_key fst cuts)) = mset (map fst cuts)" by simp
  then show "distinct (map fst (sort_key fst cuts))" using assms(1) mset_eq_imp_distinct_iff by blast
qed (use assms in simp_all)

end
