(* ===== verification/Mp4Trim.thy ===== *)
theory Mp4Trim
  imports Mp4Cut
begin

text \<open>
  Trimming the lead-in of a fragment: every run that stays carries on from one of the fragment's runs, with the bytes of
  its samples as they were, wherever the new offsets put them.
\<close>

subsection \<open>One run\<close>

definition durs :: "trackRun \<Rightarrow> nat \<Rightarrow> int" where
  "durs r k = sum_list (map (sampleDur r) (take k (tr_samples r)))"

definition sizes :: "trackRun \<Rightarrow> nat \<Rightarrow> int" where
  "sizes r k = totalSize r (take k (tr_samples r))"

definition trimmed_run :: "nat \<Rightarrow> trackRun \<Rightarrow> trackRun \<Rightarrow> bool" where
  "trimmed_run k r r1 \<longleftrightarrow> k = 0 \<and> r1 = r \<or> 0 < k \<and> k < length (tr_samples r) \<and> r1 = fst (dropSamples k (decodeTime r + durs r k) r)"

fun outcome :: "trackRun \<Rightarrow> bool \<Rightarrow> trackRun \<Rightarrow> cut list \<Rightarrow> bool" where
  "outcome r True r1 cs \<longleftrightarrow> r1 = r \<and> cs = [(tr_dataOff r, totalSize r (tr_samples r))]"
| "outcome r False r1 cs \<longleftrightarrow> (\<exists>k. trimmed_run k r r1 \<and> cs = (if k = 0 then [] else [(tr_dataOff r, sizes r k)]))"

declare outcome.simps [simp del]

lemma outcome_same: "outcome r False r []"
  by (auto simp: outcome.simps trimmed_run_def intro!: exI [of _ 0])

lemma outcome_drop: "0 < k \<Longrightarrow> k < length (tr_samples r) \<Longrightarrow> dropSamples k (decodeTime r + durs r k) r = (r1, c) \<Longrightarrow> outcome r False r1 [c]"
  by (auto simp: outcome.simps trimmed_run_def dropSamples_def sizes_def Let_def intro!: exI [of _ k])

lemma lastGroup_pos:
  "lastGroup r sound ss k pos found = (k1, p1) \<Longrightarrow>
   (k1, p1) = found \<or> (k \<le> k1 \<and> k1 < k + length ss \<and> p1 = pos + sum_list (map (sampleDur r) (take (k1 - k) ss)))"
proof (induction ss arbitrary: k pos found)
  case (Cons s ss)
  from Cons.IH [OF Cons.prems [unfolded lastGroup.simps]] show ?case
  proof (elim disjE)
    assume "k + 1 \<le> k1 \<and> k1 < k + 1 + length ss \<and> p1 = pos + sampleDur r s + sum_list (map (sampleDur r) (take (k1 - (k + 1)) ss))"
    moreover from this have "take (k1 - k) (s # ss) = s # take (k1 - (k + 1)) ss" by (simp add: take_Cons')
    ultimately show ?thesis by simp
  qed (auto split: if_splits)
qed simp

lemma leadSamples_pos:
  "leadSamples r before ss k pos = (k1, p1) \<Longrightarrow>
   k \<le> k1 \<and> k1 \<le> k + length ss \<and> p1 = pos + sum_list (map (sampleDur r) (take (k1 - k) ss))"
proof (induction ss arbitrary: k pos)
  case (Cons s ss)
  show ?case
  proof (cases "pos + cts r s < before")
    case True
    then have rec: "leadSamples r before ss (k + 1) (pos + sampleDur r s) = (k1, p1)" using Cons.prems by simp
    note ih = Cons.IH [OF rec]
    then have "k1 - k = Suc (k1 - (k + 1))" by linarith
    then have "take (k1 - k) (s # ss) = s # take (k1 - (k + 1)) ss" by simp
    with ih show ?thesis by simp
  qed (use Cons.prems in auto)
qed simp

lemma videoRun_outcome: "tr_samples r \<noteq> [] \<Longrightarrow> videoRun sound r = (r1, cs) \<Longrightarrow> outcome r False r1 cs"
proof -
  assume ne: "tr_samples r \<noteq> []" and vr: "videoRun sound r = (r1, cs)"
  define fp where "fp = (if sound \<ge> 0 \<and> has (tr_flags r) 0x400 then lastGroup r sound (tr_samples r) 0 (decodeTime r) (0, 0) else (0, 0))"
  obtain k p where kp: "fp = (k, p)" by (cases fp)
  have step: "videoRun sound r = (if k > 0 then (let (r1, c) = dropSamples k p r in (r1, [c])) else (r, []))"
    unfolding videoRun_def fp_def [symmetric] kp by simp
  show ?thesis
  proof (cases "k = 0")
    case True
    with vr step outcome_same show ?thesis by simp
  next
    case False
    have "fp \<noteq> (0, 0)" using False kp by simp
    then have lg: "lastGroup r sound (tr_samples r) 0 (decodeTime r) (0, 0) = (k, p)" using kp by (simp add: fp_def split: if_splits)
    have kp': "k < length (tr_samples r)" "p = decodeTime r + durs r k"
      using lastGroup_pos [OF lg] False by (auto simp: durs_def)
    obtain q c where q: "dropSamples k p r = (q, c)" by (cases "dropSamples k p r")
    then have "r1 = q" "cs = [c]" using vr step False by auto
    with q kp' False show ?thesis using outcome_drop [of k r q c] by simp
  qed
qed

lemma soundRun_outcome: "soundRun n before r = Some (gone, r1, cs) \<Longrightarrow> outcome r gone r1 cs"
proof -
  assume sr: "soundRun n before r = Some (gone, r1, cs)"
  let ?ss = "tr_samples r"
  obtain k p where kp: "leadSamples r before ?ss 0 (decodeTime r) = (k, p)"
    by (cases "leadSamples r before ?ss 0 (decodeTime r)")
  have k: "k \<le> length ?ss" "p = decodeTime r + durs r k" using leadSamples_pos [OF kp] by (simp_all add: durs_def)
  note sr' = sr [unfolded soundRun_def kp, simplified Let_def split_conv]
  consider (gone) "k = length ?ss" "n > 1" | (kept) "k = length ?ss" "\<not> n > 1" "k \<noteq> 0" | (cut) "k < length ?ss" "k > 0" | (same) "k < length ?ss" "k = 0"
    using sr' k(1) by (cases "k = length ?ss"; cases "n > 1"; cases "k = 0") auto
  then show ?thesis
  proof cases
    case gone
    with sr' show ?thesis by (auto simp: outcome.simps)
  next
    case kept
    have "durs r k = durs r (k - 1) + sampleDur r (?ss ! (k - 1))"
    proof -
      have "take k ?ss = take (k - 1) ?ss @ [?ss ! (k - 1)]" using kept k(1) take_Suc_conv_app_nth [of "k - 1" ?ss] by simp
      then show ?thesis unfolding durs_def by simp
    qed
    then have before_it: "p - sampleDur r (?ss ! (k - 1)) = decodeTime r + durs r (k - 1)" using k(2) by simp
    obtain q c where q: "dropSamples (k - 1) (decodeTime r + durs r (k - 1)) r = (q, c)" by (cases "dropSamples (k - 1) (decodeTime r + durs r (k - 1)) r")
    show ?thesis
      using sr' kept before_it q outcome_same [of r] outcome_drop [of "k - 1" r q c] by (auto split: if_splits)
  next
    case cut
    obtain q c where q: "dropSamples k p r = (q, c)" by (cases "dropSamples k p r")
    show ?thesis using sr' cut q k(2) outcome_drop [of k r q c] by auto
  next
    case same
    with sr' outcome_same [of r] show ?thesis by auto
  qed
qed

subsection \<open>All runs\<close>

lemma videoPhase_outcome:
  "videoPhase video sound runs p0 = (rs1, cuts, p1) \<Longrightarrow>
   \<exists>css. length css = length runs \<and> length rs1 = length runs \<and> cuts = concat css \<and>
     (\<forall>i < length runs. if tr_id (runs ! i) = video then outcome (runs ! i) False (rs1 ! i) (css ! i)
                        else rs1 ! i = runs ! i \<and> css ! i = [])"
proof (induction runs arbitrary: p0 rs1 cuts)
  case (Cons r runs)
  show ?case
  proof (cases "tr_id r \<noteq> video \<or> tr_samples r = []")
    case True
    obtain rs2 cuts2 where rec: "videoPhase video sound runs p0 = (rs2, cuts2, p1)" "rs1 = r # rs2" "cuts = cuts2"
      using Cons.prems True by (auto split: prod.splits)
    obtain css where css: "length css = length runs" "length rs2 = length runs" "cuts2 = concat css"
        "\<forall>i < length runs. if tr_id (runs ! i) = video then outcome (runs ! i) False (rs2 ! i) (css ! i) else rs2 ! i = runs ! i \<and> css ! i = []"
      using Cons.IH [OF rec(1)] by blast
    show ?thesis using css rec(2,3) outcome_same [of r]
      by (intro exI [of _ "[] # css"]) (auto simp: nth_Cons less_Suc_eq_0_disj split: nat.split)
  next
    case False
    obtain r1 cs where vr: "videoRun sound r = (r1, cs)" by (cases "videoRun sound r")
    obtain rs2 cuts2 where rec: "videoPhase video sound runs (decodeTime r1 + cts r1 (hd (tr_samples r1))) = (rs2, cuts2, p1)"
        "rs1 = r1 # rs2" "cuts = cs @ cuts2"
      using Cons.prems False by (auto simp: vr split: prod.splits)
    obtain css where css: "length css = length runs" "length rs2 = length runs" "cuts2 = concat css"
        "\<forall>i < length runs. if tr_id (runs ! i) = video then outcome (runs ! i) False (rs2 ! i) (css ! i) else rs2 ! i = runs ! i \<and> css ! i = []"
      using Cons.IH [OF rec(1)] by blast
    show ?thesis using css rec(2,3) videoRun_outcome [OF _ vr] False
      by (intro exI [of _ "cs # css"]) (auto simp: nth_Cons less_Suc_eq_0_disj split: nat.split)
  qed
qed simp

lemma soundPhase_outcome:
  "soundPhase video scales n picture runs = Some (rs1, cuts) \<Longrightarrow>
   \<exists>css. length css = length runs \<and> length rs1 = length runs \<and> cuts = concat css \<and>
     (\<forall>i < length runs. if tr_id (runs ! i) = video then rs1 ! i = (False, runs ! i) \<and> css ! i = []
                        else outcome (runs ! i) (fst (rs1 ! i)) (snd (rs1 ! i)) (css ! i))"
proof (induction runs arbitrary: rs1 cuts)
  case (Cons r runs)
  obtain g r1 cs rs2 cuts2 where step:
      "(if tr_id r = video \<or> scales (tr_id r) = 0 then Some (False, r, [])
        else soundRun n (quot (picture * int (scales (tr_id r))) (int (scales video))) r) = Some (g, r1, cs)"
      "soundPhase video scales n picture runs = Some (rs2, cuts2)" "rs1 = (g, r1) # rs2" "cuts = cs @ cuts2"
    using Cons.prems by (auto split: Option.bind_splits prod.splits)
  obtain css where css: "length css = length runs" "length rs2 = length runs" "cuts2 = concat css"
      "\<forall>i < length runs. if tr_id (runs ! i) = video then rs2 ! i = (False, runs ! i) \<and> css ! i = []
                         else outcome (runs ! i) (fst (rs2 ! i)) (snd (rs2 ! i)) (css ! i)"
    using Cons.IH [OF step(2)] by blast
  have "if tr_id r = video then (g, r1) = (False, r) \<and> cs = [] else outcome r g r1 cs"
    using step(1) soundRun_outcome outcome_same [of r] by (auto split: if_splits)
  then show ?case using css step(3,4)
    by (intro exI [of _ "cs # css"]) (auto simp: nth_Cons less_Suc_eq_0_disj split: nat.split if_splits)
qed simp

subsection \<open>What the trimmed runs are\<close>

lemma dropSamples_fields:
  "tr_id (fst (dropSamples k p r)) = tr_id r" "tr_tfhd (fst (dropSamples k p r)) = tr_tfhd r" "tr_flags (fst (dropSamples k p r)) = tr_flags r"
  "tr_samples (fst (dropSamples k p r)) = drop k (tr_samples r)" "tr_dataOff (fst (dropSamples k p r)) = tr_dataOff r + sizes r k"
  "tr_hasSizes (fst (dropSamples k p r)) = tr_hasSizes r" "tr_hasDurs (fst (dropSamples k p r)) = tr_hasDurs r"
  "tr_defSize (fst (dropSamples k p r)) = tr_defSize r" "tr_defDur (fst (dropSamples k p r)) = tr_defDur r"
  by (simp_all add: dropSamples_def sizes_def Let_def)

lemma dropSamples_tfdt:
  "tr_tfdt (fst (dropSamples k p r)) =
     take 4 (tr_tfdt r) @ (if tr_tfdt r ! 0 = 1 \<and> length (tr_tfdt r) \<ge> 12 then putInt 8 p else putInt 4 p)"
  by (simp add: dropSamples_def Let_def)

lemma runDefaults_commute:
  "runDefaults (r\<lparr>tr_tfdt := t, tr_dataOff := d, tr_samples := ss, tr_first := f\<rparr>) =
   (runDefaults r)\<lparr>tr_tfdt := t, tr_dataOff := d, tr_samples := ss, tr_first := f\<rparr>"
  by (simp add: runDefaults_def Let_def)

lemma dropSamples_update:
  "fst (dropSamples k p r) = r\<lparr>tr_tfdt := tr_tfdt (fst (dropSamples k p r)), tr_dataOff := tr_dataOff (fst (dropSamples k p r)),
     tr_samples := tr_samples (fst (dropSamples k p r)), tr_first := tr_first (fst (dropSamples k p r))\<rparr>"
  by (simp add: dropSamples_def Let_def)

lemma dropSamples_ok:
  assumes "run_ok r" "k < length (tr_samples r)"
  shows "run_ok (fst (dropSamples k p r))"
proof -
  let ?q = "fst (dropSamples k p r)"
  note ok = assms(1) [unfolded run_ok_def trun_ok_def]
  have l: "8 \<le> length (tr_tfdt r)" using ok by (auto simp: badTimes_def)
  then have bad: "\<not> badTimes ?q" using ok by (auto simp: badTimes_def dropSamples_fields dropSamples_tfdt nth_append)
  have "tr_samples r ! k \<in> set (tr_samples r)" using assms(2) by simp
  then have s: "sample_ok (tr_flags r) (tr_samples r ! k)" using ok by blast
  have "tr_first ?q = (if has (tr_flags r) 0x4 then ts_flags (tr_samples r ! k) else tr_first r)" by (simp add: dropSamples_def Let_def)
  then have f: "tr_first ?q < 2 ^ 32 \<and> (\<not> has (tr_flags r) 0x4 \<longrightarrow> tr_first ?q = 0)" using s ok by (auto simp: sample_ok_def)
  have t: "trun_ok ?q" using ok f by (auto simp: trun_ok_def dropSamples_fields dest: in_set_dropD)
  have "no_defaults ?q = (no_defaults r)\<lparr>tr_tfdt := tr_tfdt ?q, tr_dataOff := tr_dataOff ?q, tr_samples := tr_samples ?q, tr_first := tr_first ?q\<rparr>"
    by (subst dropSamples_update) (simp add: no_defaults_def)
  then have "runDefaults (no_defaults ?q) = ?q"
    using ok dropSamples_update [of k p r] by (simp add: runDefaults_commute)
  with t bad ok show ?thesis by (simp add: run_ok_def dropSamples_fields)
qed

definition times_fit :: "trackRun \<Rightarrow> bool" where
  "times_fit r \<longleftrightarrow> (\<forall>k \<le> length (tr_samples r).
     if tr_tfdt r ! 0 = 1 then - (2 ^ 63) \<le> decodeTime r + durs r k \<and> decodeTime r + durs r k < 2 ^ 63
     else decodeTime r + durs r k < 2 ^ 32)"

lemma dropSamples_time:
  assumes "run_ok r" "times_fit r" "k < length (tr_samples r)"
  shows "decodeTime (fst (dropSamples k (decodeTime r + durs r k) r)) = decodeTime r + durs r k"
proof -
  have b: "\<not> badTimes r" using assms(1) by (simp add: run_ok_def)
  have fit: "if tr_tfdt r ! 0 = 1 then - (2 ^ 63) \<le> decodeTime r + durs r k \<and> decodeTime r + durs r k < 2 ^ 63
     else decodeTime r + durs r k < 2 ^ 32"
    using assms(2,3) by (auto simp: times_fit_def)
  show ?thesis
  proof (cases "tr_tfdt r ! 0 = 1")
    case True
    then have "12 \<le> length (tr_tfdt r)" using b by (auto simp: badTimes_def)
    with True fit show ?thesis using signed_putInt [of "decodeTime r + durs r k"]
      by (simp add: decodeTime_def [of "fst _"] dropSamples_tfdt nth_append u64_def putInt_def be_put)
  next
    case False
    then have l: "8 \<le> length (tr_tfdt r)" using b by (auto simp: badTimes_def)
    have "0 \<le> decodeTime r + durs r k"
    proof -
      have "0 \<le> decodeTime r" using False by (simp add: decodeTime_def)
      moreover have "0 \<le> durs r k" by (auto simp: durs_def sampleDur_def intro!: sum_list_nonneg)
      ultimately show ?thesis by simp
    qed
    with False l fit show ?thesis
      by (simp add: decodeTime_def [of "fst _"] dropSamples_tfdt nth_append u32_def putInt_def be_put)
  qed
qed

end
