(* ===== verification/Mp4Keep.thy ===== *)
theory Mp4Keep
  imports Mp4Trim
begin

text \<open>
  Trimming a fragment keeps its media: what a player reads of the fragment that comes out is what it read of the one that went
  in, less whole samples at the front of some runs.
\<close>

subsection \<open>What a player reads\<close>

definition runsOf :: "bytes \<Rightarrow> trackRun list" where
  "runsOf frag = List.map_filter (\<lambda>t. if bx_kind t = k_traf then parseRun (bx_body t) else None) (boxes (body_of (child frag k_moof)))"

text \<open>The bytes of a run's samples: offsets count from the start of the fragment.\<close>

definition region :: "trackRun \<Rightarrow> cut" where
  "region r = (tr_dataOff r, totalSize r (tr_samples r))"

definition media :: "bytes \<Rightarrow> trackRun \<Rightarrow> bytes" where
  "media frag r = take (nat (totalSize r (tr_samples r))) (drop (nat (tr_dataOff r)) frag)"

text \<open>Every run has bytes, all in the \<^verbatim>\<open>mdat\<close> behind the \<^verbatim>\<open>moof\<close>, and no two share any.\<close>

definition laid_out :: "bytes \<Rightarrow> bool" where
  "laid_out frag \<longleftrightarrow>
     (let lo = 16 + length (body_of (child frag k_moof)); hi = lo + length (body_of (child frag k_mdat))
      in (\<forall>r \<in> set (runsOf frag). 0 < snd (region r) \<and> int lo \<le> fst (region r) \<and> fst (region r) + snd (region r) \<le> int hi) \<and>
         sorted_wrt (\<lambda>r q. apart (region r) (region q)) (runsOf frag))"

text \<open>\<open>q\<close> in \<open>out\<close> is \<open>r\<close> in \<open>frag\<close> from one of its samples on.\<close>

definition carries_on :: "bytes \<Rightarrow> bytes \<Rightarrow> trackRun \<Rightarrow> trackRun \<Rightarrow> bool" where
  "carries_on frag out r q \<longleftrightarrow>
     (\<exists>k \<in> set [0..<max 1 (length (tr_samples r))].
        tr_id q = tr_id r \<and> tr_version q = tr_version r \<and> tr_flags q = tr_flags r \<and> tr_defDur q = tr_defDur r \<and> tr_defSize q = tr_defSize r \<and>
        tr_samples q = drop k (tr_samples r) \<and> decodeTime q = decodeTime r + durs r k \<and>
        media out q = drop (nat (sizes r k)) (media frag r))"

fun carried :: "bytes \<Rightarrow> bytes \<Rightarrow> nat \<Rightarrow> trackRun list \<Rightarrow> trackRun list \<Rightarrow> bool" where
  "carried frag out video [] qs \<longleftrightarrow> qs = []"
| "carried frag out video (r # rs) qs \<longleftrightarrow>
     (case qs of [] \<Rightarrow> False | q # qs1 \<Rightarrow> carries_on frag out r q \<and> carried frag out video rs qs1) \<or>
     tr_id r \<noteq> video \<and> carried frag out video rs qs"

lemma carries_on_same: "carries_on frag frag r r"
  unfolding carries_on_def by (rule bexI [of _ 0]) (auto simp: durs_def sizes_def totalSize_def)

lemma carried_same: "carried frag frag video rs rs"
  by (induction rs) (simp_all add: carries_on_same)

lemma carried_kept:
  "list_all2 (\<lambda>r (g, q). if g then tr_id r \<noteq> video else carries_on frag out r (move q)) rs qs \<Longrightarrow>
   carried frag out video rs (map (\<lambda>(g, q). move q) (filter (\<lambda>(g, q). \<not> g) qs))"
proof (induction rs qs rule: list_all2_induct)
  case (Cons r rs gq qs)
  then show ?case by (cases gq) (auto split: list.splits if_splits)
qed simp

subsection \<open>Boxes in their bytes\<close>

lemma boxes_bytes:
  assumes "boxes b = x # xs" "u32 b 0 \<noteq> 1"
  shows "take (length (bx_body x)) (drop 8 b) = bx_body x" "8 + length (bx_body x) \<le> length b"
    "xs = boxes (drop (8 + length (bx_body x)) b)"
proof -
  obtain sz where h: "boxHeader b = (sz, 8)" using assms(2) by (auto simp: boxHeader_def Let_def)
  have "8 \<le> length b" "8 \<le> sz" "sz \<le> int (length b)" "x = \<lparr>bx_kind = take 4 (drop 4 b), bx_body = take (nat sz - 8) (drop 8 b)\<rparr>"
    "xs = boxes (drop (nat sz) b)"
    using assms(1) unfolding boxes.simps [of b] h by (auto split: if_splits)
  moreover from this have "length (bx_body x) = nat sz - 8" by simp
  ultimately show "take (length (bx_body x)) (drop 8 b) = bx_body x" "8 + length (bx_body x) \<le> length b"
    "xs = boxes (drop (8 + length (bx_body x)) b)" by simp_all
qed

lemma trimBoxes_runs:
  "trimBoxes bs mfhd acc = Some (m, runs) \<Longrightarrow>
   runs = acc @ List.map_filter (\<lambda>t. if bx_kind t = k_traf then parseRun (bx_body t) else None) bs"
proof (induction bs arbitrary: mfhd acc)
  case (Cons b bs)
  show ?case
  proof (cases "bx_kind b = k_mfhd")
    case True
    with Cons.IH [of "bx_body b" acc] Cons.prems show ?thesis by (simp add: map_filter_simps)
  next
    case False
    then obtain r where "bx_kind b = k_traf" "parseRun (bx_body b) = Some r" "trimBoxes bs mfhd (acc @ [r]) = Some (m, runs)"
      using Cons.prems by (auto split: if_splits Option.bind_splits)
    with Cons.IH [of mfhd "acc @ [r]"] show ?thesis by (simp add: map_filter_simps)
  qed
qed (simp add: map_filter_simps)

lemma trimBoxes_ok: "trimBoxes bs mfhd acc = Some (m, runs) \<Longrightarrow> \<forall>r \<in> set acc. run_ok r \<Longrightarrow> \<forall>r \<in> set runs. run_ok r"
proof (induction bs arbitrary: mfhd acc)
  case (Cons b bs)
  show ?case
  proof (cases "bx_kind b = k_mfhd")
    case True
    with Cons show ?thesis by auto
  next
    case False
    then obtain r where "parseRun (bx_body b) = Some r" "trimBoxes bs mfhd (acc @ [r]) = Some (m, runs)"
      using Cons.prems(1) by (auto split: if_splits Option.bind_splits)
    with Cons.IH [of mfhd "acc @ [r]"] Cons.prems(2) parseRun_ok show ?thesis by auto
  qed
qed auto

lemma runsOf_two:
  assumes "boxes frag = [top0, top1]" "bx_kind top0 = k_moof" "bx_kind top1 = k_mdat"
  shows "child frag k_moof = Some (bx_body top0)" "child frag k_mdat = Some (bx_body top1)"
  using assms by (simp_all add: child_def)

subsection \<open>The runs that were built\<close>

lemma length_build: "length (build off r) = length (build 0 r)"
  by (simp add: build_def Let_def)

lemma moofBody_length: "length offs = length runs \<Longrightarrow> length (moofBody mfhd runs offs) = length (moofBody mfhd runs (replicate (length runs) 0))"
proof -
  have "length offs = length runs \<Longrightarrow> length (concat (map (\<lambda>((gone, r), off). if gone then [] else build off r) (zip runs offs)))
      = length (concat (map (\<lambda>((gone, r), off). if gone then [] else build off r) (zip runs (replicate (length runs) 0))))"
    by (induction offs runs rule: list_induct2) (use length_build in \<open>fastforce split: prod.splits\<close>)+
  then show "length offs = length runs \<Longrightarrow> length (moofBody mfhd runs offs) = length (moofBody mfhd runs (replicate (length runs) 0))"
    by (simp add: moofBody_def)
qed

lemma built_runs:
  assumes "\<forall>(g, r) \<in> set runs. \<not> g \<longrightarrow> run_ok r \<and> - (2 ^ 31) \<le> off r \<and> off r < 2 ^ 31"
    "length (concat (map (\<lambda>((gone, r), off). if gone then [] else build off r) (zip runs (map (\<lambda>(g, r). off r) runs)))) < 2 ^ 32"
  shows "List.map_filter (\<lambda>t. if bx_kind t = k_traf then parseRun (bx_body t) else None)
      (boxes (concat (map (\<lambda>((gone, r), off). if gone then [] else build off r) (zip runs (map (\<lambda>(g, r). off r) runs)))))
    = map (\<lambda>(g, r). r\<lparr>tr_dataOff := off r\<rparr>) (filter (\<lambda>(g, r). \<not> g) runs)"
  using assms
proof (induction runs)
  case (Cons x runs)
  obtain g r where x: "x = (g, r)" by (cases x)
  show ?case
  proof (cases g)
    case False
    then have ok: "run_ok r" "- (2 ^ 31) \<le> off r" "off r < 2 ^ 31" "length (build (off r) r) < 2 ^ 32"
      using Cons.prems x by auto
    with Cons False x show ?thesis by (simp add: build_reads_back map_filter_simps)
  qed (use Cons x in \<open>auto simp: map_filter_simps\<close>)
qed (simp add: map_filter_simps)

lemma runsOf_built:
  assumes "\<forall>(g, r) \<in> set runs. \<not> g \<longrightarrow> run_ok r \<and> - (2 ^ 31) \<le> off r \<and> off r < 2 ^ 31"
    "8 + length (moofBody mfhd runs (map (\<lambda>(g, r). off r) runs)) < 2 ^ 32"
  shows "runsOf (putBox k_moof (moofBody mfhd runs (map (\<lambda>(g, r). off r) runs)) @ xs) =
    map (\<lambda>(g, r). r\<lparr>tr_dataOff := off r\<rparr>) (filter (\<lambda>(g, r). \<not> g) runs)"
proof -
  let ?body = "moofBody mfhd runs (map (\<lambda>(g, r). off r) runs)"
  have "child (putBox k_moof ?body @ xs) k_moof = Some ?body" using assms(2) by (simp add: child_def boxes_putBox)
  moreover have "length (moofBody mfhd runs (map (\<lambda>(g, r). off r) runs)) < 2 ^ 32" using assms(2) by simp
  ultimately show ?thesis
    using built_runs [OF assms(1)] by (simp add: runsOf_def body_of_def moofBody_def boxes_putBox map_filter_simps)
qed

end
