(* ===== verification/Mp4KeepProps.thy ===== *)
theory Mp4KeepProps
  imports Mp4Keep
begin

text \<open>
  The trimmed fragment carries every picture run and every sound run that is not all lead-in on, byte for byte.
\<close>

subsection \<open>The cuts\<close>

definition own_cut :: "trackRun \<Rightarrow> cut list \<Rightarrow> bool" where
  "own_cut r cs \<longleftrightarrow> cs = [] \<or> (\<exists>n. cs = [(tr_dataOff r, n)] \<and> 0 \<le> n \<and> n \<le> totalSize r (tr_samples r))"

lemma sampleSize_nonneg [simp]: "0 \<le> sampleSize r s"
  by (simp add: sampleSize_def)

lemma sizes_le: "0 \<le> sizes r k" "sizes r k \<le> totalSize r (tr_samples r)"
proof -
  have nonneg: "0 \<le> totalSize r ss" for ss by (auto simp: totalSize_def intro!: sum_list_nonneg)
  have "totalSize r (take k (tr_samples r) @ drop k (tr_samples r)) = sizes r k + totalSize r (drop k (tr_samples r))"
    unfolding sizes_def totalSize_def map_append sum_list_append by simp
  then show "sizes r k \<le> totalSize r (tr_samples r)" using nonneg [of "drop k (tr_samples r)"] by simp
  show "0 \<le> sizes r k" by (simp add: sizes_def nonneg)
qed

lemma totalSize_drop: "totalSize r (drop k (tr_samples r)) = totalSize r (tr_samples r) - sizes r k"
proof -
  have "totalSize r (take k (tr_samples r) @ drop k (tr_samples r)) = sizes r k + totalSize r (drop k (tr_samples r))"
    unfolding sizes_def totalSize_def map_append sum_list_append by simp
  then show ?thesis by simp
qed

lemma outcome_own_cut: "outcome r g r1 cs \<Longrightarrow> own_cut r cs"
proof (cases g)
  case True
  then show "outcome r g r1 cs \<Longrightarrow> own_cut r cs"
    using sizes_le [of r "length (tr_samples r)"] by (simp add: outcome.simps own_cut_def)
next
  case False
  assume "outcome r g r1 cs"
  with False obtain k where "cs = (if k = 0 then [] else [(tr_dataOff r, sizes r k)])" by (auto simp: outcome.simps)
  then show "own_cut r cs" using sizes_le [of r k] by (cases "k = 0") (simp_all add: own_cut_def)
qed

lemma own_cuts_from:
  "list_all2 own_cut runs css \<Longrightarrow> c \<in> set (concat css) \<Longrightarrow>
   \<exists>r \<in> set runs. fst c = fst (region r) \<and> 0 \<le> snd c \<and> snd c \<le> snd (region r)"
  by (induction rule: list_all2_induct) (auto simp: own_cut_def region_def)

lemma own_cuts_apart:
  "list_all2 own_cut runs css \<Longrightarrow> sorted_wrt (\<lambda>r q. apart (region r) (region q)) runs \<Longrightarrow> \<forall>r \<in> set runs. 0 < snd (region r) \<Longrightarrow>
   distinct (map fst (concat css)) \<and> (\<forall>c \<in> set (concat css). \<forall>d \<in> set (concat css). c \<noteq> d \<longrightarrow> apart c d)"
proof (induction rule: list_all2_induct)
  case (Cons r runs cs css)
  have ih: "distinct (map fst (concat css))" "\<forall>c \<in> set (concat css). \<forall>d \<in> set (concat css). c \<noteq> d \<longrightarrow> apart c d"
    using Cons by auto
  have away: "fst d \<noteq> fst c \<and> apart c d \<and> apart d c" if own: "c \<in> set cs" and other: "d \<in> set (concat css)" for c d
  proof -
    obtain q where q: "q \<in> set runs" "fst d = fst (region q)" "0 \<le> snd d" "snd d \<le> snd (region q)"
      using own_cuts_from [OF Cons.hyps(2) other] by blast
    have "fst c = fst (region r)" "0 \<le> snd c" "snd c \<le> snd (region r)" using Cons.hyps(1) own by (auto simp: own_cut_def region_def)
    moreover have "apart (region r) (region q)" "0 < snd (region r)" "0 < snd (region q)" using Cons.prems q(1) by auto
    ultimately show ?thesis using q by (auto simp: apart_def)
  qed
  have one: "cs = [] \<or> (\<exists>c. cs = [c])" using Cons.hyps(1) by (auto simp: own_cut_def)
  then show ?case
  proof
    assume "\<exists>c. cs = [c]"
    then obtain c where c: "cs = [c]" by blast
    have "fst c \<notin> fst ` set (concat css)" using away [of c] c by force
    then have "distinct (map fst (concat (cs # css)))" using ih(1) c by simp
    moreover have "\<forall>x \<in> set (concat (cs # css)). \<forall>d \<in> set (concat (cs # css)). x \<noteq> d \<longrightarrow> apart x d"
      using away [of c] ih(2) c by auto
    ultimately show ?thesis ..
  qed (use ih in simp)
qed simp

text \<open>A run's own bytes from \<open>p\<close> on are not touched when its cut, if any, ends at \<open>p\<close>.\<close>

lemma cuts_clear:
  assumes "list_all2 own_cut runs css" "sorted_wrt (\<lambda>r q. apart (region r) (region q)) runs" "\<forall>r \<in> set runs. 0 < snd (region r)"
    "i < length runs" "\<forall>c \<in> set (css ! i). fst c + snd c = p" "fst (region (runs ! i)) \<le> p" "c \<in> set (concat css)"
  shows "fst c + snd c \<le> p \<or> fst (region (runs ! i)) + snd (region (runs ! i)) \<le> fst c"
proof -
  obtain j where j: "j < length css" "c \<in> set (css ! j)" using assms(7) by (metis in_set_conv_nth set_concat UN_E)
  have len: "length css = length runs" using assms(1) by (simp add: list_all2_lengthD)
  show ?thesis
  proof (cases "j = i")
    case False
    have "own_cut (runs ! j) (css ! j)" using assms(1) j(1) len by (simp add: list_all2_conv_all_nth)
    then have c: "fst c = fst (region (runs ! j))" "snd c \<le> snd (region (runs ! j))" using j(2) by (auto simp: own_cut_def region_def)
    have "apart (region (runs ! i)) (region (runs ! j)) \<or> apart (region (runs ! j)) (region (runs ! i))"
      using False assms(2,4) j(1) len by (metis sorted_wrt_nth_less nat_neq_iff)
    then have "fst (region (runs ! j)) + snd (region (runs ! j)) \<le> fst (region (runs ! i)) \<or>
       fst (region (runs ! i)) + snd (region (runs ! i)) \<le> fst (region (runs ! j))"
      by (auto simp: apart_def)
    with c assms(6) show ?thesis by linarith
  qed (use assms(5) j in auto)
qed

subsection \<open>One kept run\<close>

text \<open>A run that stays, in one form: \<open>k\<close> samples went, and the cut is theirs.\<close>

lemma outcome_kept:
  assumes "outcome r False q cs" "run_ok r" "times_fit r" "0 < totalSize r (tr_samples r)"
  obtains k where "k < length (tr_samples r)" "run_ok q" "tr_id q = tr_id r" "tr_version q = tr_version r" "tr_flags q = tr_flags r"
    "tr_defDur q = tr_defDur r" "tr_defSize q = tr_defSize r" "tr_samples q = drop k (tr_samples r)"
    "decodeTime q = decodeTime r + durs r k" "tr_dataOff q = tr_dataOff r + sizes r k"
    "\<forall>c \<in> set cs. fst c + snd c = tr_dataOff r + sizes r k"
proof -
  obtain k where k: "trimmed_run k r q" "cs = (if k = 0 then [] else [(tr_dataOff r, sizes r k)])"
    using assms(1) by (auto simp: outcome.simps)
  have ne: "0 < length (tr_samples r)" using assms(4) by (auto simp: totalSize_def)
  show thesis
  proof (cases "k = 0")
    case True
    with k have "q = r" by (simp add: trimmed_run_def)
    with True k ne assms(2) show thesis by (intro that [of 0]) (simp_all add: durs_def sizes_def totalSize_def)
  next
    case False
    with k have q: "k < length (tr_samples r)" "q = fst (dropSamples k (decodeTime r + durs r k) r)" by (auto simp: trimmed_run_def)
    have ver: "tr_version q = tr_version r" by (simp add: q(2) dropSamples_def Let_def)
    show thesis
      using q dropSamples_fields [of k "decodeTime r + durs r k" r] dropSamples_ok [OF assms(2) q(1)] dropSamples_time [OF assms(2,3) q(1)]
        ver k(2)
      by (intro that [of k]) simp_all
  qed
qed

lemma media_moved:
  assumes "in_order_cuts (ms + 8) cuts hi" "cutData ms cuts mdat = Some mdat1" "ms + 8 \<le> p"
    "\<forall>c \<in> set cuts. fst c + snd c \<le> p \<or> p + int n \<le> fst c"
    "drop (nat (ms + 8)) frag = mdat @ rest" "0 \<le> ms" "length h = nat nm" "0 \<le> nm" "p + int n \<le> ms + 8 + int (length mdat)"
    "length g8 = 8"
  shows "take n (drop (nat (p - (ms - nm) - cut_before cuts p)) (h @ g8 @ mdat1)) = take n (drop (nat p) frag)"
proof (cases "n = 0")
  case False
  have "\<forall>c \<in> set cuts. fst c + snd c \<le> p \<or> p \<le> fst c" using assms(4) by fastforce
  with cut_before_bounds [OF assms(1,3)] have b: "0 \<le> cut_before cuts p" "cut_before cuts p \<le> p - ms - 8" by auto
  define q where "q = nat (p - ms - 8 - cut_before cuts p)"
  have "nat (p - (ms - nm) - cut_before cuts p) = nat nm + 8 + q" using b assms(8) by (simp add: q_def)
  then have "drop (nat (p - (ms - nm) - cut_before cuts p)) (h @ g8 @ mdat1) = drop q mdat1" using assms(7,10) by simp
  moreover have "take n (drop q mdat1) = take n (drop (nat (p - ms - 8)) mdat)"
    unfolding q_def using False by (intro cutData_keeps [OF assms(1,2) _ assms(3,4)]) simp_all
  moreover have "drop (nat p) frag = drop (nat (p - ms - 8)) (mdat @ rest)"
  proof -
    have "nat p = nat (p - ms - 8) + nat (ms + 8)" using assms(3,6) by simp
    then show ?thesis by (simp only: drop_drop [symmetric] assms(5))
  qed
  moreover have "take n (drop (nat (p - ms - 8)) (mdat @ rest)) = take n (drop (nat (p - ms - 8)) mdat)"
    using assms(3,9) by (simp add: drop_append take_append nat_diff_distrib')
  ultimately show ?thesis by simp
qed simp

end
