(* ===== verification/Mp4Whole.thy ===== *)
theory Mp4Whole
  imports Mp4KeepProps
begin

text \<open>
  The trimmed fragment as a whole: both phases together, and what a player reads of the result.
\<close>

subsection \<open>Both phases\<close>

lemma outcome_id: "outcome r False q cs \<Longrightarrow> tr_id q = tr_id r"
  by (auto simp: outcome.simps trimmed_run_def dropSamples_fields)

lemma concat_map2: "length xss = length yss \<Longrightarrow> mset (concat (map2 (@) xss yss)) = mset (concat xss) + mset (concat yss)"
  by (induction xss yss rule: list_induct2) (simp_all add: ac_simps)

lemma both_phases:
  assumes "(if floor0 < 0 then videoPhase video snd0 runs floor0 else (runs, [], floor0)) = (runs1, cuts1, picture)"
    "soundPhase video scales n picture runs1 = Some (runs2, cuts2)"
  obtains css where "length css = length runs" "length runs2 = length runs" "mset (cuts1 @ cuts2) = mset (concat css)"
    "\<forall>i < length runs. outcome (runs ! i) (fst (runs2 ! i)) (snd (runs2 ! i)) (css ! i) \<and> (fst (runs2 ! i) \<longrightarrow> tr_id (runs ! i) \<noteq> video)"
proof -
  obtain css1 where v: "length css1 = length runs" "length runs1 = length runs" "cuts1 = concat css1"
    "\<forall>i < length runs. if tr_id (runs ! i) = video then outcome (runs ! i) False (runs1 ! i) (css1 ! i) else runs1 ! i = runs ! i \<and> css1 ! i = []"
  proof (cases "floor0 < 0")
    case True
    with assms(1) have "videoPhase video snd0 runs floor0 = (runs1, cuts1, picture)" by simp
    from videoPhase_outcome [OF this] that show thesis by blast
  next
    case False
    with assms(1) have "runs1 = runs" "cuts1 = []" by auto
    then show thesis by (intro that [of "replicate (length runs) []"]) (auto simp: outcome_same)
  qed
  obtain css2 where s: "length css2 = length runs1" "length runs2 = length runs1" "cuts2 = concat css2"
    "\<forall>i < length runs1. if tr_id (runs1 ! i) = video then runs2 ! i = (False, runs1 ! i) \<and> css2 ! i = []
                        else outcome (runs1 ! i) (fst (runs2 ! i)) (snd (runs2 ! i)) (css2 ! i)"
    using soundPhase_outcome [OF assms(2)] by blast
  show thesis
  proof (rule that [of "map2 (@) css1 css2"])
    show "mset (cuts1 @ cuts2) = mset (concat (map2 (@) css1 css2))" using v s by (simp add: concat_map2)
    show "\<forall>i < length runs. outcome (runs ! i) (fst (runs2 ! i)) (snd (runs2 ! i)) (map2 (@) css1 css2 ! i) \<and>
        (fst (runs2 ! i) \<longrightarrow> tr_id (runs ! i) \<noteq> video)"
    proof (intro allI impI)
      fix i assume i: "i < length runs"
      show "outcome (runs ! i) (fst (runs2 ! i)) (snd (runs2 ! i)) (map2 (@) css1 css2 ! i) \<and> (fst (runs2 ! i) \<longrightarrow> tr_id (runs ! i) \<noteq> video)"
      proof (cases "tr_id (runs ! i) = video")
        case True
        with v i have o: "outcome (runs ! i) False (runs1 ! i) (css1 ! i)" by simp
        with s v i True outcome_id [OF o] show ?thesis by simp
      next
        case False
        with v i have "runs1 ! i = runs ! i" "css1 ! i = []" by simp_all
        with s v i False show ?thesis by auto
      qed
    qed
  qed (use v s in simp_all)
qed

abbreviation (input) shrunk :: "bytes \<Rightarrow> bytes \<Rightarrow> (bool \<times> trackRun) list \<Rightarrow> int" where
  "shrunk moof mfhd runs \<equiv> int (8 + length moof) - int (8 + length (moofBody mfhd runs (replicate (length runs) 0)))"

lemma trimRuns_outcome:
  assumes "trimRuns frag moof mdat mfhd runs video scales floor0 = Some (out, picture, gone)" "out \<noteq> frag"
  obtains runs2 css cuts mdat1 where "length css = length runs" "length runs2 = length runs" "mset cuts = mset (concat css)"
    "\<forall>i < length runs. outcome (runs ! i) (fst (runs2 ! i)) (snd (runs2 ! i)) (css ! i) \<and> (fst (runs2 ! i) \<longrightarrow> tr_id (runs ! i) \<noteq> video)"
    "cutData (int (8 + length moof)) (sort_key fst cuts) mdat = Some mdat1"
    "out = putBox k_moof (moofBody mfhd runs2 (map (\<lambda>(g, r). movedOffset (shrunk moof mfhd runs2) cuts r) runs2)) @ putBox k_mdat mdat1"
proof -
  obtain runs1 cuts1 p where v: "(if floor0 < 0 then videoPhase video (soundStart video scales runs) runs floor0 else (runs, [], floor0)) = (runs1, cuts1, p)"
    by (cases "if floor0 < 0 then videoPhase video (soundStart video scales runs) runs floor0 else (runs, [], floor0)")
  note t = assms(1) [unfolded trimRuns_def Let_def v prod.case]
  have "\<not> p < 0" using t assms(2) by (auto split: if_splits)
  then obtain runs2 cuts2 where s: "soundPhase video scales (length runs) p runs1 = Some (runs2, cuts2)"
    using t by (auto split: Option.bind_splits)
  obtain css where css: "length css = length runs" "length runs2 = length runs" "mset (cuts1 @ cuts2) = mset (concat css)"
    "\<forall>i < length runs. outcome (runs ! i) (fst (runs2 ! i)) (snd (runs2 ! i)) (css ! i) \<and> (fst (runs2 ! i) \<longrightarrow> tr_id (runs ! i) \<noteq> video)"
    using both_phases [OF v s] .
  have "cuts1 @ cuts2 \<noteq> []" using t \<open>\<not> p < 0\<close> s assms(2) by auto
  with t \<open>\<not> p < 0\<close> s assms(2) obtain mdat1 where "cutData (int (8 + length moof)) (sort_key fst (cuts1 @ cuts2)) mdat = Some mdat1"
    "out = putBox k_moof (moofBody mfhd runs2 (map (\<lambda>(g, r). movedOffset (shrunk moof mfhd runs2) (cuts1 @ cuts2) r) runs2)) @ putBox k_mdat mdat1"
    by (auto split: option.splits)
  with css that show thesis by blast
qed

subsection \<open>The result\<close>

lemma movedOffset_before: "movedOffset d cuts r = tr_dataOff r - d - cut_before cuts (tr_dataOff r)"
  by (simp add: movedOffset_def cut_before_def)

lemma decodeTime_moved [simp]: "decodeTime (r\<lparr>tr_dataOff := x\<rparr>) = decodeTime r"
  by (simp add: decodeTime_def)

lemma totalSize_like: "tr_flags q = tr_flags r \<Longrightarrow> tr_defSize q = tr_defSize r \<Longrightarrow> totalSize q ss = totalSize r ss"
  by (induction ss) (simp_all add: totalSize_def sampleSize_def)

lemma kept_run:
  fixes d nm ms :: int
  assumes "outcome r False q cs" "run_ok r" "times_fit r" "0 < totalSize r (tr_samples r)"
    and order: "in_order_cuts (ms + 8) (sort_key fst cuts) hi" "cutData ms (sort_key fst cuts) mdat = Some mdat1"
    and clear: "\<And>p c. \<forall>c \<in> set cs. fst c + snd c = p \<Longrightarrow> tr_dataOff r \<le> p \<Longrightarrow> c \<in> set cuts \<Longrightarrow>
      fst c + snd c \<le> p \<or> tr_dataOff r + totalSize r (tr_samples r) \<le> fst c"
    and place: "0 \<le> ms" "ms + 8 \<le> tr_dataOff r" "tr_dataOff r + totalSize r (tr_samples r) \<le> ms + 8 + int (length mdat)"
      "drop (nat (ms + 8)) frag = mdat @ rest"
    and out: "out = h @ g8 @ mdat1" "length h = nat nm" "0 \<le> nm" "length g8 = 8"
  shows "run_ok q" "nm \<le> movedOffset (ms - nm) cuts q" "movedOffset (ms - nm) cuts q \<le> nm + 8 + int (length mdat)"
    "carries_on frag out r (q\<lparr>tr_dataOff := movedOffset (ms - nm) cuts q\<rparr>)"
proof -
  obtain k where k: "k < length (tr_samples r)" "run_ok q" "tr_id q = tr_id r" "tr_version q = tr_version r" "tr_flags q = tr_flags r"
    "tr_defDur q = tr_defDur r" "tr_defSize q = tr_defSize r" "tr_samples q = drop k (tr_samples r)"
    "decodeTime q = decodeTime r + durs r k" "tr_dataOff q = tr_dataOff r + sizes r k"
    "\<forall>c \<in> set cs. fst c + snd c = tr_dataOff r + sizes r k"
    using outcome_kept [OF assms(1-4)] .
  let ?p = "tr_dataOff r + sizes r k" and ?n = "nat (totalSize r (tr_samples r) - sizes r k)" and ?cb = "cut_before cuts (tr_dataOff r + sizes r k)"
  note le = sizes_le [of r k]
  have away: "\<forall>c \<in> set (sort_key fst cuts). fst c + snd c \<le> ?p \<or> ?p + int ?n \<le> fst c"
    using clear [OF k(11)] le by auto
  have off: "movedOffset (ms - nm) cuts q = ?p - (ms - nm) - ?cb" using k(10) by (simp add: movedOffset_before)
  have "\<forall>c \<in> set (sort_key fst cuts). fst c + snd c \<le> ?p \<or> ?p \<le> fst c"
  proof
    fix c assume "c \<in> set (sort_key fst cuts)"
    with away have "fst c + snd c \<le> ?p \<or> ?p + int ?n \<le> fst c" by blast
    then show "fst c + snd c \<le> ?p \<or> ?p \<le> fst c" by linarith
  qed
  then have cb: "0 \<le> ?cb" "?cb \<le> ?p - (ms + 8)"
    using cut_before_bounds [OF order(1), of ?p] place(2) le by (auto simp: cut_before_sort)
  show "run_ok q" "nm \<le> movedOffset (ms - nm) cuts q" "movedOffset (ms - nm) cuts q \<le> nm + 8 + int (length mdat)"
    using k(2) cb le place(3) by (simp_all add: off)
  have "take ?n (drop (nat (?p - (ms - nm) - ?cb)) out) = take ?n (drop (nat ?p) frag)"
    unfolding out(1) cut_before_sort [of cuts, symmetric] using away place out le by (intro media_moved [OF order]) simp_all
  moreover have "drop (nat (sizes r k)) (media frag r) = take ?n (drop (nat ?p) frag)"
  proof -
    have "nat (totalSize r (tr_samples r)) - nat (sizes r k) = ?n" "nat (sizes r k) + nat (tr_dataOff r) = nat ?p"
      using le place(1,2) by simp_all
    then show ?thesis by (simp add: media_def drop_take)
  qed
  ultimately have "media out (q\<lparr>tr_dataOff := movedOffset (ms - nm) cuts q\<rparr>) = drop (nat (sizes r k)) (media frag r)"
    using k(5,7,8) totalSize_like [of "q\<lparr>tr_dataOff := movedOffset (ms - nm) cuts q\<rparr>" r]
    by (simp add: media_def [of out] off totalSize_drop)
  with k show "carries_on frag out r (q\<lparr>tr_dataOff := movedOffset (ms - nm) cuts q\<rparr>)"
    unfolding carries_on_def by (intro bexI [of _ k]) simp_all
qed

lemma trimLeadInFrom_parts:
  assumes "trimLeadInFrom frag video scales floor0 = Some (out, picture, gone)" "out \<noteq> frag"
  obtains moof mdat mfhd where "child frag k_moof = Some moof" "child frag k_mdat = Some mdat"
    "trimRuns frag moof mdat mfhd (runsOf frag) video scales floor0 = Some (out, picture, gone)"
    "\<forall>r \<in> set (runsOf frag). run_ok r" "\<exists>rest. drop (16 + length moof) frag = mdat @ rest" "16 + length moof + length mdat \<le> length frag"
proof -
  obtain top0 top1 where b: "boxes frag = [top0, top1]" "bx_kind top0 = k_moof" "bx_kind top1 = k_mdat" "u32 frag 0 \<noteq> 1"
      "u32 frag (8 + length (bx_body top0)) \<noteq> 1"
    and t: "(case trimBoxes (boxes (bx_body top0)) [] [] of None \<Rightarrow> Some (frag, floor0, False)
       | Some (mfhd, runs) \<Rightarrow> if scales video = 0 then Some (frag, floor0, False)
           else trimRuns frag (bx_body top0) (bx_body top1) mfhd runs video scales floor0) = Some (out, picture, gone)"
    using assms unfolding trimLeadInFrom_def by (auto split: list.splits if_splits)
  then obtain mfhd runs where r: "trimBoxes (boxes (bx_body top0)) [] [] = Some (mfhd, runs)"
      "trimRuns frag (bx_body top0) (bx_body top1) mfhd runs video scales floor0 = Some (out, picture, gone)"
    using assms(2) by (auto split: option.splits if_splits)
  note ch = runsOf_two [OF b(1-3)]
  have runs: "runs = runsOf frag" using trimBoxes_runs [OF r(1)] ch by (simp add: runsOf_def body_of_def)
  note f = boxes_bytes [OF b(1,4)]
  have "u32 (drop (8 + length (bx_body top0)) frag) 0 \<noteq> 1" using b(5) by (simp add: u32_def)
  note g = boxes_bytes [OF f(3) [symmetric] this]
  have m: "take (length (bx_body top1)) (drop (16 + length (bx_body top0)) frag) = bx_body top1"
    using g(1) by (simp add: add.commute add.left_commute)
  show thesis
  proof (rule that [OF ch])
    show "trimRuns frag (bx_body top0) (bx_body top1) mfhd (runsOf frag) video scales floor0 = Some (out, picture, gone)" using r(2) runs by simp
    show "\<forall>r \<in> set (runsOf frag). run_ok r" using trimBoxes_ok [OF r(1)] runs by simp
    show "\<exists>rest. drop (16 + length (bx_body top0)) frag = bx_body top1 @ rest" using m by (metis append_take_drop_id)
    show "16 + length (bx_body top0) + length (bx_body top1) \<le> length frag" using g(2) f(2) by simp
  qed
qed

end
