(* ===== verification/Mp4Theorem.thy ===== *)
theory Mp4Theorem
  imports Mp4Whole
begin

text \<open>
  The properties of the fragment code: trimming keeps the media, moving a track moves its pictures.
\<close>

lemma regions_in_order:
  assumes "list_all2 own_cut runs css" "sorted_wrt (\<lambda>r q. apart (region r) (region q)) runs" "mset cuts = mset (concat css)"
    "\<forall>r \<in> set runs. 0 < snd (region r) \<and> lo \<le> fst (region r) \<and> fst (region r) + snd (region r) \<le> hi" "lo \<le> hi"
  shows "in_order_cuts lo (sort_key fst cuts) hi"
proof (rule in_order_cuts_sort)
  have same: "set cuts = set (concat css)" using assms(3) by (metis set_mset_mset)
  note ap = own_cuts_apart [OF assms(1,2)]
  have "mset (map fst cuts) = mset (map fst (concat css))" using assms(3) by (metis mset_map)
  then show "distinct (map fst cuts)" using ap assms(4) by (metis mset_eq_imp_distinct_iff)
  show "\<forall>c \<in> set cuts. \<forall>d \<in> set cuts. c \<noteq> d \<longrightarrow> apart c d" using ap assms(4) same by simp
  show "\<forall>c \<in> set cuts. 0 \<le> snd c \<and> lo \<le> fst c \<and> fst c + snd c \<le> hi"
  proof
    fix c assume "c \<in> set cuts"
    with own_cuts_from [OF assms(1)] same obtain r where "r \<in> set runs" "fst c = fst (region r)" "0 \<le> snd c" "snd c \<le> snd (region r)" by metis
    with assms(4) show "0 \<le> snd c \<and> lo \<le> fst c \<and> fst c + snd c \<le> hi" by force
  qed
qed (rule assms(5))

subsection \<open>A fragment\<close>

text \<open>Two pictures and two sounds, the first sound before the first picture.\<close>

definition demo_sample :: "nat \<Rightarrow> trunSample" where
  "demo_sample n = \<lparr>ts_dur = 3000, ts_size = n, ts_flags = 0, ts_cts = 0\<rparr>"

definition demo_run :: "byte \<Rightarrow> bytes \<Rightarrow> int \<Rightarrow> nat list \<Rightarrow> trackRun" where
  "demo_run track tfdt off ns = noRun\<lparr>tr_tfhd := [0, 2, 0, 0, 0, 0, 0, track], tr_tfdt := tfdt, tr_id := unat track, tr_flags := 0x301,
     tr_dataOff := off, tr_hasDurs := True, tr_samples := map demo_sample ns, tr_hasSizes := True\<rparr>"

definition demo_video :: trackRun where
  "demo_video = demo_run 1 [1, 0, 0, 0, 0, 0, 0, 0, 0, 0, 0x23, 0x28] 188 [2, 1]"

definition demo_sound :: trackRun where
  "demo_sound = demo_run 2 [0, 0, 0, 0, 0, 0, 0x17, 0x70] 191 [1, 2]"

definition demo_moof :: bytes where
  "demo_moof = putBox k_mfhd [0, 0, 0, 0, 0, 0, 0, 1] @ build 188 demo_video @ build 191 demo_sound"

definition demo_frag :: bytes where
  "demo_frag = putBox k_moof demo_moof @ putBox k_mdat [1, 2, 3, 4, 5, 6]"

lemmas demo_defs = demo_video_def demo_sound_def demo_run_def demo_sample_def noRun_def

lemma demo_ok: "run_ok demo_video" "run_ok demo_sound"
  by (simp_all add: demo_defs run_ok_def trun_ok_def badTimes_def sample_ok_def u24_def u32_def be_def runDefaults_def no_defaults_def has_def)

lemma length_run: "length (build off r) =
   44 + length (tr_tfhd r) + length (tr_tfdt r) + (if has (tr_flags r) 0x4 then 4 else 0) + length (concat (map (sampleBytes (tr_flags r)) (tr_samples r)))"
  by (simp add: build_def Let_def)

lemma demo_lengths: "length (build off demo_video) = 80" "length (build off demo_sound) = 76" "length demo_moof = 172" "length demo_frag = 194"
  by (simp_all add: demo_frag_def demo_moof_def length_run demo_defs sampleBytes_def has_def)

lemma demo_again: "demo_video\<lparr>tr_dataOff := 188\<rparr> = demo_video" "demo_sound\<lparr>tr_dataOff := 191\<rparr> = demo_sound"
  by (simp_all add: demo_defs)

lemma demo_boxes: "boxes demo_frag = [\<lparr>bx_kind = k_moof, bx_body = demo_moof\<rparr>, \<lparr>bx_kind = k_mdat, bx_body = [1, 2, 3, 4, 5, 6]\<rparr>]"
  using boxes_putBox [of k_mdat "[1, 2, 3, 4, 5, 6]" "[]"] by (simp add: demo_frag_def boxes_putBox demo_lengths)

lemma demo_trafs: "boxes demo_moof = [\<lparr>bx_kind = k_mfhd, bx_body = [0, 0, 0, 0, 0, 0, 0, 1]\<rparr>, \<lparr>bx_kind = k_traf, bx_body = drop 8 (build 188 demo_video)\<rparr>,
    \<lparr>bx_kind = k_traf, bx_body = drop 8 (build 191 demo_sound)\<rparr>]"
  "parseRun (drop 8 (build 188 demo_video)) = Some demo_video" "parseRun (drop 8 (build 191 demo_sound)) = Some demo_sound"
  using build_reads_back(1) [OF demo_ok(1), of 188 "build 191 demo_sound"] build_reads_back(1) [OF demo_ok(2), of 191 "[]"]
    build_reads_back(2) [OF demo_ok(1), of 188] build_reads_back(2) [OF demo_ok(2), of 191] demo_again
  by (simp_all add: demo_moof_def boxes_putBox demo_lengths)

lemma demo_runs: "runsOf demo_frag = [demo_video, demo_sound]" "child demo_frag k_moof = Some demo_moof" "child demo_frag k_mdat = Some [1, 2, 3, 4, 5, 6]"
  by (simp_all add: runsOf_def child_def body_of_def demo_boxes demo_trafs map_filter_simps)

lemma demo_fields:
  "decodeTime demo_video = 9000" "decodeTime demo_sound = 6000" "tr_id demo_video = 1" "tr_id demo_sound = 2"
  "tr_dataOff demo_video = 188" "tr_dataOff demo_sound = 191" "tr_samples demo_video = [demo_sample 2, demo_sample 1]"
  "tr_samples demo_sound = [demo_sample 1, demo_sample 2]" "tr_flags demo_video = 0x301" "tr_flags demo_sound = 0x301"
  "tr_hasDurs demo_video" "tr_hasDurs demo_sound" "tr_hasSizes demo_video" "tr_hasSizes demo_sound"
  "sampleSize demo_video s = int (ts_size s)" "sampleSize demo_sound s = int (ts_size s)"
  "sampleDur demo_video s = int (ts_dur s)" "sampleDur demo_sound s = int (ts_dur s)"
  "cts demo_video s = int (ts_cts s)" "cts demo_sound s = int (ts_cts s)"
  "ts_size (demo_sample n) = n" "ts_dur (demo_sample n) = 3000" "ts_cts (demo_sample n) = 0"
  "tr_tfdt demo_video ! 0 = 1" "tr_tfdt demo_sound ! 0 = 0"
  by (simp_all add: demo_defs decodeTime_def u32_def u64_def be_def signed_def sampleSize_def sampleDur_def cts_def has_def)

lemma demo_trimBoxes: "trimBoxes (boxes demo_moof) [] [] = Some ([0, 0, 0, 0, 0, 0, 0, 1], [demo_video, demo_sound])"
  by (simp add: demo_trafs demo_fields)

lemma demo_laid: "laid_out demo_frag" "\<forall>r \<in> set (runsOf demo_frag). times_fit r"
proof -
  show "laid_out demo_frag"
    by (simp add: laid_out_def demo_runs body_of_def demo_lengths region_def apart_def totalSize_def demo_fields)
  have "durs demo_video k \<le> 6000 \<and> 0 \<le> durs demo_video k" "durs demo_sound k \<le> 6000 \<and> 0 \<le> durs demo_sound k" for k
    by (cases k; cases "k - 1"; simp add: durs_def demo_fields)+
  note d = this
  show "\<forall>r \<in> set (runsOf demo_frag). times_fit r"
    using d by (simp add: times_fit_def demo_runs demo_fields) (smt (verit))
qed

lemma u32_putBox: "8 + length body < 2 ^ 32 \<Longrightarrow> u32 (putBox k body @ xs) 0 = 8 + length body"
  using u32_put [of "8 + length body" "k @ body @ xs"] by (simp add: putBox_def)

lemma demo_sizes: "u32 demo_frag 0 = 180" "u32 demo_frag 180 = 14"
proof -
  show "u32 demo_frag 0 = 180" by (simp add: demo_frag_def u32_putBox demo_lengths)
  have "drop 180 demo_frag = putBox k_mdat [1, 2, 3, 4, 5, 6] @ []" by (simp add: demo_frag_def demo_lengths)
  then have "u32 (drop 180 demo_frag) 0 = 14" using u32_putBox [of "[1, 2, 3, 4, 5, 6]" k_mdat "[]"] by simp
  then show "u32 demo_frag 180 = 14" by (simp add: u32_def)
qed

lemma demo_trims: "\<exists>out. trimLeadInFrom demo_frag 1 (\<lambda>_. 90000) (-1) = Some (out, 9000, False) \<and> out \<noteq> demo_frag \<and> length out < 2 ^ 30"
proof -
  obtain snd1 c where dr: "dropSamples (Suc 0) 9000 demo_sound = (snd1, c)" by (cases "dropSamples (Suc 0) 9000 demo_sound")
  have s1: "c = (191, 1)" "tr_id snd1 = 2" using dr by (auto simp: dropSamples_def Let_def demo_fields totalSize_def)
  have len: "length (build off snd1) = 68" for off
    using dr by (auto simp: dropSamples_def Let_def demo_fields length_run has_def sampleBytes_def) (simp_all add: demo_defs)
  have differs: "a @ b \<noteq> demo_frag" if "length a + length b \<noteq> 194" for a b using that demo_lengths(4) by (metis length_append)
  show ?thesis
    unfolding trimLeadInFrom_def demo_boxes
    by (simp add: demo_sizes demo_lengths demo_trimBoxes trimRuns_def Let_def demo_fields soundStart_def videoRun_def soundRun_def dr has_def s1 moofBody_def len differs)
qed
subsection \<open>Trimming\<close>

text \<open>C37. Trimming the lead-in of a fragment keeps its media. Of what comes out, a player reads the same runs in the same order, less
  those of sound that were left out; every video run is there; a run that is there starts at one of its samples, at the decode time that
  sample had, keeps all its samples from there on with their flags and defaults, and its bytes in the new fragment, wherever the
  cuts and the smaller header moved them, are the bytes these samples had.\<close>

theorem trim_keeps_media:
  assumes "laid_out frag" "\<forall>r \<in> set (runsOf frag). times_fit r" "length frag < 2 ^ 30"
    "trimLeadInFrom frag video scales floor0 = Some (out, picture, gone)" "length out < 2 ^ 30"
  shows "carried frag out video (runsOf frag) (runsOf out)"
proof (cases "out = frag")
  case False
  obtain moof mdat mfhd where parts: "child frag k_moof = Some moof" "child frag k_mdat = Some mdat"
    "trimRuns frag moof mdat mfhd (runsOf frag) video scales floor0 = Some (out, picture, gone)"
    "\<forall>r \<in> set (runsOf frag). run_ok r" "\<exists>rest. drop (16 + length moof) frag = mdat @ rest" "16 + length moof + length mdat \<le> length frag"
    using trimLeadInFrom_parts [OF assms(4) False] .
  then obtain rest where rest: "drop (16 + length moof) frag = mdat @ rest" by blast
  let ?runs = "runsOf frag"
  obtain runs2 css cuts mdat1 where ph: "length css = length ?runs" "length runs2 = length ?runs" "mset cuts = mset (concat css)"
    "\<forall>i < length ?runs. outcome (?runs ! i) (fst (runs2 ! i)) (snd (runs2 ! i)) (css ! i) \<and> (fst (runs2 ! i) \<longrightarrow> tr_id (?runs ! i) \<noteq> video)"
    "cutData (int (8 + length moof)) (sort_key fst cuts) mdat = Some mdat1"
    "out = putBox k_moof (moofBody mfhd runs2 (map (\<lambda>(g, r). movedOffset (shrunk moof mfhd runs2) cuts r) runs2)) @ putBox k_mdat mdat1"
    using trimRuns_outcome [OF parts(3) False] .
  define ms where "ms = int (8 + length moof)"
  define nm where "nm = int (8 + length (moofBody mfhd runs2 (replicate (length runs2) 0)))"
  define off where "off q = movedOffset (ms - nm) cuts q" for q
  define h where "h = putBox k_moof (moofBody mfhd runs2 (map (\<lambda>(g, r). off r) runs2))"
  have lenh: "length h = nat nm" using moofBody_length [of "map (\<lambda>(g, r). off r) runs2" runs2 mfhd] by (simp add: h_def nm_def)
  have outh: "out = h @ (put 4 (8 + length mdat1) @ k_mdat) @ mdat1"
    using ph(6) by (simp add: h_def off_def ms_def nm_def putBox_def)
  have laid: "\<forall>r \<in> set ?runs. 0 < snd (region r) \<and> ms + 8 \<le> fst (region r) \<and> fst (region r) + snd (region r) \<le> ms + 8 + int (length mdat)"
      "sorted_wrt (\<lambda>r q. apart (region r) (region q)) ?runs"
    using assms(1) by (auto simp: laid_out_def parts(1,2) body_of_def ms_def Let_def)
  have own: "list_all2 own_cut ?runs css" 
    unfolding list_all2_conv_all_nth
  proof (intro conjI allI impI)
    fix i assume "i < length ?runs"
    with ph(4) have "outcome (?runs ! i) (fst (runs2 ! i)) (snd (runs2 ! i)) (css ! i)" by blast
    then show "own_cut (?runs ! i) (css ! i)" by (rule outcome_own_cut)
  qed (simp add: ph(1))
  have order: "in_order_cuts (ms + 8) (sort_key fst cuts) (ms + 8 + int (length mdat))"
    using regions_in_order [OF own laid(2) ph(3) laid(1)] by simp
  have kept: "run_ok (snd (runs2 ! i)) \<and> nm \<le> off (snd (runs2 ! i)) \<and> off (snd (runs2 ! i)) \<le> nm + 8 + int (length mdat) \<and>
      carries_on frag out (?runs ! i) ((snd (runs2 ! i))\<lparr>tr_dataOff := off (snd (runs2 ! i))\<rparr>)"
    if i: "i < length ?runs" "\<not> fst (runs2 ! i)" for i
  proof -
    have o: "outcome (?runs ! i) False (snd (runs2 ! i)) (css ! i)" using ph(4) i by (metis (full_types))
    have r: "run_ok (?runs ! i)" "times_fit (?runs ! i)" "0 < totalSize (?runs ! i) (tr_samples (?runs ! i))" "ms + 8 \<le> tr_dataOff (?runs ! i)"
        "tr_dataOff (?runs ! i) + totalSize (?runs ! i) (tr_samples (?runs ! i)) \<le> ms + 8 + int (length mdat)"
      using i(1) parts(4) assms(2) laid(1) by (auto simp: region_def)
    have clear: "fst c + snd c \<le> p \<or> tr_dataOff (?runs ! i) + totalSize (?runs ! i) (tr_samples (?runs ! i)) \<le> fst c"
      if "\<forall>c \<in> set (css ! i). fst c + snd c = p" "tr_dataOff (?runs ! i) \<le> p" "c \<in> set cuts" for p c
    proof -
      have "c \<in> set (concat css)" using that(3) ph(3) by (metis set_mset_mset)
      moreover have "\<forall>r \<in> set ?runs. 0 < snd (region r)" using laid(1) by blast
      moreover have "fst (region (?runs ! i)) \<le> p" using that(2) by (simp add: region_def)
      ultimately have "fst c + snd c \<le> p \<or> fst (region (?runs ! i)) + snd (region (?runs ! i)) \<le> fst c"
        using cuts_clear [OF own laid(2) _ i(1) that(1)] by blast
      then show ?thesis by (simp add: region_def)
    qed
    have "drop (nat (ms + 8)) frag = mdat @ rest" using rest by (simp add: ms_def nat_add_distrib)
    from kept_run [OF o r(1-3) order ph(5) [folded ms_def] clear _ r(4,5) this outh lenh] show ?thesis
      by (simp add: off_def ms_def nm_def)
  qed
  have small: "nm < 2 ^ 30" "int (length mdat) + 16 < 2 ^ 30" "0 \<le> nm"
    using assms(3,5) parts(6) outh lenh by (simp_all add: nm_def)
  have fits: "run_ok r \<and> - (2 ^ 31) \<le> off r \<and> off r < 2 ^ 31" if "(False, r) \<in> set runs2" for r
  proof -
    obtain i where "i < length ?runs" "runs2 ! i = (False, r)" using ph(2) \<open>(False, r) \<in> set runs2\<close> by (metis in_set_conv_nth)
    with kept [of i] small show ?thesis by simp
  qed
  then have ok: "\<forall>(g, r) \<in> set runs2. \<not> g \<longrightarrow> run_ok r \<and> - (2 ^ 31) \<le> off r \<and> off r < 2 ^ 31" by auto
  have "8 + length (moofBody mfhd runs2 (map (\<lambda>(g, r). off r) runs2)) < 2 ^ 32"
    using assms(5) outh by (simp add: h_def)
  from runsOf_built [OF ok this, of "putBox k_mdat mdat1"] have "runsOf out = map (\<lambda>(g, r). r\<lparr>tr_dataOff := off r\<rparr>) (filter (\<lambda>(g, r). \<not> g) runs2)"
    using ph(6) by (simp add: off_def ms_def nm_def)
  moreover have "list_all2 (\<lambda>r (g, q). if g then tr_id r \<noteq> video else carries_on frag out r (q\<lparr>tr_dataOff := off q\<rparr>)) ?runs runs2"
    using ph(2,4) kept by (simp add: list_all2_conv_all_nth split_def)
  ultimately show ?thesis using carried_kept [of video frag out "\<lambda>q. q\<lparr>tr_dataOff := off q\<rparr>" ?runs runs2] by simp
qed (simp add: carried_same)


theorem trim_keeps_media_witness:
  "\<exists>out. trimLeadInFrom demo_frag 1 (\<lambda>_. 90000) (-1) = Some (out, 9000, False) \<and> out \<noteq> demo_frag \<and> carried demo_frag out 1 (runsOf demo_frag) (runsOf out)"
proof -
  obtain out where o: "trimLeadInFrom demo_frag 1 (\<lambda>_. 90000) (-1) = Some (out, 9000, False)" "out \<noteq> demo_frag" "length out < 2 ^ 30"
    using demo_trims by blast
  have "length demo_frag < 2 ^ 30" by (simp add: demo_lengths)
  from trim_keeps_media [OF demo_laid this o(1,3)] o show ?thesis by blast
qed

subsection \<open>Sound before the picture\<close>

lemma leadSamples_before:
  "leadSamples r before ss k pos = (k1, p1) \<Longrightarrow>
   (\<forall>j < k1 - k. pos + sum_list (map (sampleDur r) (take j ss)) + cts r (ss ! j) < before) \<and>
   (k1 - k < length ss \<longrightarrow> before \<le> p1 + cts r (ss ! (k1 - k)))"
proof (induction ss arbitrary: k pos)
  case (Cons s ss)
  show ?case
  proof (cases "pos + cts r s < before")
    case True
    then have rec: "leadSamples r before ss (k + 1) (pos + sampleDur r s) = (k1, p1)" using Cons.prems by simp
    have step: "k1 - k = Suc (k1 - (k + 1))" using leadSamples_pos [OF rec] by linarith
    note ih = Cons.IH [OF rec]
    have "pos + sum_list (map (sampleDur r) (take j (s # ss))) + cts r ((s # ss) ! j) < before" if "j < k1 - k" for j
      using that ih True step by (cases j) (auto simp: ac_simps)
    moreover have "k1 - k < length (s # ss) \<longrightarrow> before \<le> p1 + cts r ((s # ss) ! (k1 - k))" using ih step by simp
    ultimately show ?thesis by blast
  qed (use Cons.prems in auto)
qed simp

definition shownAt :: "trackRun \<Rightarrow> nat \<Rightarrow> int" where
  "shownAt r j = decodeTime r + durs r j + cts r (tr_samples r ! j)"

text \<open>\<open>q\<close> (nothing, when \<open>gone\<close>) is \<open>r\<close> less the samples shown before \<open>before\<close>, but for one that stays when it is all there is.\<close>

definition only_lead_lost :: "nat \<Rightarrow> int \<Rightarrow> trackRun \<Rightarrow> bool \<Rightarrow> trackRun \<Rightarrow> bool" where
  "only_lead_lost n before r gone q \<longleftrightarrow>
     (if gone then 1 < n \<and> list_all (\<lambda>j. shownAt r j < before) [0..<length (tr_samples r)]
      else list_ex (\<lambda>k. tr_samples q = drop k (tr_samples r) \<and> list_all (\<lambda>j. shownAt r j < before) [0..<k] \<and>
                        (before \<le> shownAt r k \<or> n \<le> 1 \<and> Suc k = length (tr_samples r)))
             [0..<length (tr_samples r)])"

lemma dropSamples_samples: "dropSamples k p r = (q, c) \<Longrightarrow> tr_samples q = drop k (tr_samples r)"
  using dropSamples_fields(4) [of k p r] by simp

text \<open>C38. Of a sound run only what comes before the first picture is dropped: a run left out has nothing else, and one that stays starts with its
  first sample that is not before the picture (or with its last, in a fragment of one run). The code gives up only on a sound run that is alone
  in its fragment and has no sample, where it reads the sample before the first.\<close>

theorem sound_starts_with_picture:
  "(case soundRun n before r of
      None \<Rightarrow> n \<le> 1 \<and> tr_samples r = []
    | Some (gone, q, cs) \<Rightarrow> \<not> (n \<le> 1 \<and> tr_samples r = []) \<and> only_lead_lost n before r gone q)"
proof -
  let ?ss = "tr_samples r"
  obtain k p where kp: "leadSamples r before ?ss 0 (decodeTime r) = (k, p)"
    by (cases "leadSamples r before ?ss 0 (decodeTime r)")
  have k: "k \<le> length ?ss" "p = decodeTime r + durs r k" using leadSamples_pos [OF kp] by (simp_all add: durs_def)
  have lead: "shownAt r j < before" if "j < k" for j
    using leadSamples_before [OF kp] that by (simp add: shownAt_def durs_def)
  have stays: "before \<le> shownAt r k" if "k < length ?ss"
    using leadSamples_before [OF kp] that k(2) by (simp add: shownAt_def)
  consider (gone) "k = length ?ss" "n > 1" | (none) "k = length ?ss" "\<not> n > 1" "k = 0" | (last) "k = length ?ss" "\<not> n > 1" "0 < k" | (cut) "k < length ?ss"
    using k(1) by (cases "k = length ?ss"; cases "n > 1"; cases "k = 0") auto
  then show ?thesis
  proof cases
    case gone
    then show ?thesis using lead by (simp add: soundRun_def kp only_lead_lost_def list_all_iff)
  next
    case none
    then show ?thesis by (simp add: soundRun_def kp)
  next
    case last
    obtain q c where q: "dropSamples (k - 1) (p - sampleDur r (?ss ! (k - 1))) r = (q, c)" by (cases "dropSamples (k - 1) (p - sampleDur r (?ss ! (k - 1))) r")
    have "only_lead_lost n before r False q'" if "tr_samples q' = drop (k - 1) ?ss" for q'
      using last lead that by (auto simp: only_lead_lost_def list_all_iff list_ex_iff intro!: bexI [of _ "k - 1"])
    moreover have "soundRun n before r = Some (False, if 0 < k - 1 then q else r, if 0 < k - 1 then [c] else [])"
      using last q by (simp add: soundRun_def kp Let_def)
    ultimately show ?thesis using last dropSamples_samples [OF q] by (cases "0 < k - 1") auto
  next
    case cut
    obtain q c where q: "dropSamples k p r = (q, c)" by (cases "dropSamples k p r")
    have "only_lead_lost n before r False q'" if "tr_samples q' = drop k ?ss" for q'
      using cut lead stays that by (auto simp: only_lead_lost_def list_all_iff list_ex_iff intro!: bexI [of _ k])
    moreover have "soundRun n before r = Some (False, if 0 < k then q else r, if 0 < k then [c] else [])"
      using cut q by (simp add: soundRun_def kp Let_def)
    ultimately show ?thesis using cut dropSamples_samples [OF q] by (cases "0 < k") auto
  qed
qed

end
