(* ===== verification/Mp4Times.thy ===== *)
theory Mp4Times
  imports Mp4Theorem
begin

text \<open>
  Times of fragments: moving a track moves its pictures, the span of a segment is from its earliest picture to the end of its last; and the one
  fragment that stops the packager.
\<close>

subsection \<open>Moving a track\<close>

text \<open>C39. \<^verbatim>\<open>shiftTracks\<close> moves every picture (or sound) of a track by the shift of that track and leaves durations alone, whatever
  fragments, boxes and tracks stand around it, as long as the moved times fit their fields.\<close>

theorem shift_moves_pictures:
  assumes "trafs_plain frag" "\<forall>r \<in> set (trackRuns track (body_of (child frag k_moof))). shift_fits r (sh track)"
  shows "shownIn track (shiftTracks frag (Some sh)) = map (\<lambda>(p, d). (p + sh track, d)) (shownIn track frag)"
proof -
  have one: "only_one k_moof (boxes frag)" using assms(1) by (simp add: trafs_plain_def)
  obtain moof where moof: "child frag k_moof = Some moof"
    using only_one_child [OF one] by blast
  let ?out = "shiftTracks frag (Some sh)"
  have child': "child ?out k_moof = Some (onEach k_traf (shiftTraf sh) moof)" by (simp add: shiftTracks_def child_onFirst moof)
  have one': "only_one k_moof (boxes ?out)" using one by (simp add: shiftTracks_def boxes_onFirst only_one_first_box)
  have runs: "trackRuns track (onEach k_traf (shiftTraf sh) moof) = map (moved (sh track)) (trackRuns track moof)"
    using trackRuns_moved assms(1) by (simp add: trafs_plain_def moof body_of_def)
  have bad: "\<not> badTimes r" if "r \<in> set (trackRuns track moof)" for r
    using that assms(1) runTiming_facts(1) by (auto simp: trackRuns_def trafs_plain_def moof body_of_def map_filter_def split: if_splits option.splits)
  have "shownFrom (moved (sh track) r) (decodeTime (moved (sh track) r)) (tr_samples (moved (sh track) r)) =
      map (\<lambda>(p, d). (p + sh track, d)) (shownFrom r (decodeTime r) (tr_samples r))" if "r \<in> set (trackRuns track moof)" for r
  proof (cases "sh track = 0")
    case False
    have "decodeTime (moved (sh track) r) = decodeTime r + sh track"
      using decodeTime_shift [OF bad [OF that]] assms(2) that False by (simp add: moved_def moof body_of_def)
    then show ?thesis using shownFrom_moved by (simp add: moved_def)
  qed (simp add: moved_def)
  then show ?thesis
    unfolding shownIn_one [OF one] shownIn_one [OF one'] child' moof body_of_def option.case runs
    by (simp add: map_concat comp_def cong: map_cong)
qed

lemma demo_timing:
  assumes "trun_ok r" "has (tr_flags r) 0x1" "- (2 ^ 31) \<le> off" "off < 2 ^ 31" "length (build off r) < 2 ^ 32" "tr_id r = u32 (tr_tfhd r) 4"
    "\<not> badTimes r" "\<not> has (u24 (tr_tfhd r) 1) 0x8" "tr_defDur r = 0"
  shows "\<exists>q. runTiming (drop 8 (build off r)) = Some q \<and> tr_id q = tr_id r \<and> tr_tfdt q = tr_tfdt r \<and> tr_version q = tr_version r \<and>
    tr_flags q = tr_flags r \<and> tr_samples q = tr_samples r \<and> tr_defDur q = tr_defDur r"
proof -
  have "readTrun (trunBytes off r) (noRun\<lparr>tr_tfhd := tr_tfhd r, tr_tfdt := tr_tfdt r\<rparr>) = Some (noRun\<lparr>tr_tfhd := tr_tfhd r, tr_tfdt := tr_tfdt r,
      tr_version := tr_version r, tr_flags := tr_flags r, tr_dataOff := off, tr_first := tr_first r, tr_samples := tr_samples r\<rparr>)"
    using assms(1-4) by (intro readTrun_put) (simp_all add: noRun_def)
  then show ?thesis
    using assms(6-9) by (simp add: runTiming_def build_boxes(3) [OF assms(5)] badTimes_def Let_def noRun_def)
qed

lemma demo_plain:
  "trun_ok demo_video" "trun_ok demo_sound" "has (tr_flags demo_video) 0x1" "has (tr_flags demo_sound) 0x1"
  "tr_id demo_video = u32 (tr_tfhd demo_video) 4" "tr_id demo_sound = u32 (tr_tfhd demo_sound) 4" "\<not> badTimes demo_video" "\<not> badTimes demo_sound"
  "\<not> has (u24 (tr_tfhd demo_video) 1) 0x8" "\<not> has (u24 (tr_tfhd demo_sound) 1) 0x8" "tr_defDur demo_video = 0" "tr_defDur demo_sound = 0"
proof -
  show "trun_ok demo_video" "trun_ok demo_sound" "has (tr_flags demo_video) 0x1" "has (tr_flags demo_sound) 0x1"
    "tr_id demo_video = u32 (tr_tfhd demo_video) 4" "tr_id demo_sound = u32 (tr_tfhd demo_sound) 4" "\<not> badTimes demo_video" "\<not> badTimes demo_sound"
    using demo_ok unfolding run_ok_def by blast+
qed (simp_all add: demo_defs has_def u24_def be_def)

lemma demo_shown: "shownIn 1 demo_frag = [(9000, 3000), (12000, 3000)]" "trafs_plain demo_frag"
    "\<forall>r \<in> set (trackRuns 1 (body_of (child demo_frag k_moof))). shift_fits r d \<longleftrightarrow> - (2 ^ 63) \<le> 9000 + d \<and> 9000 + d < 2 ^ 63"
proof -
  obtain v where v: "runTiming (drop 8 (build 188 demo_video)) = Some v" "tr_id v = tr_id demo_video" "tr_tfdt v = tr_tfdt demo_video" "tr_version v = tr_version demo_video"
      "tr_flags v = tr_flags demo_video" "tr_samples v = tr_samples demo_video" "tr_defDur v = tr_defDur demo_video"
    using demo_timing [OF demo_plain(1,3), of 188] demo_lengths(1) demo_plain(5,7,9,11) by auto
  obtain a where a: "runTiming (drop 8 (build 191 demo_sound)) = Some a" "tr_id a = 2"
    using demo_timing [OF demo_plain(2,4), of 191] demo_lengths(2) demo_plain(6,8,10,12) by (auto simp: demo_fields)
  have runs: "trackRuns 1 demo_moof = [v]"
    using v a by (simp add: trackRuns_def demo_trafs map_filter_simps demo_fields)
  have vf: "decodeTime v = 9000" "sampleDur v s = int (ts_dur s)" "cts v s = int (ts_cts s)" "tr_tfdt v ! 0 = 1" for s
  proof -
    have "decodeTime v = decodeTime demo_video" "sampleDur v s = sampleDur demo_video s" "cts v s = cts demo_video s"
      using v by (simp_all only: decodeTime_def sampleDur_def cts_def)
    then show "decodeTime v = 9000" "sampleDur v s = int (ts_dur s)" "cts v s = int (ts_cts s)" "tr_tfdt v ! 0 = 1" using v(3) by (simp_all add: demo_fields)
  qed
  show "shownIn 1 demo_frag = [(9000, 3000), (12000, 3000)]"
    using v(6) by (simp add: shownIn_def demo_boxes runs [simplified] vf demo_fields)
  show "trafs_plain demo_frag"
    by (simp add: trafs_plain_def demo_boxes demo_runs body_of_def demo_trafs only_one_def plain_def build_boxes(3) demo_lengths)
  show "\<forall>r \<in> set (trackRuns 1 (body_of (child demo_frag k_moof))). shift_fits r d \<longleftrightarrow> - (2 ^ 63) \<le> 9000 + d \<and> 9000 + d < 2 ^ 63"
    by (simp add: demo_runs body_of_def runs [simplified] shift_fits_def vf)
qed

theorem shift_moves_pictures_witness:
  "shownIn 1 (shiftTracks demo_frag (Some (\<lambda>_. 90000))) = [(99000, 3000), (102000, 3000)]"
proof -
  have "\<forall>r \<in> set (trackRuns 1 (body_of (child demo_frag k_moof))). shift_fits r ((\<lambda>_. 90000) 1)" using demo_shown(3) [of 90000] by simp
  from shift_moves_pictures [OF demo_shown(2) this] show ?thesis unfolding demo_shown(1) by simp
qed

subsection \<open>The span of a segment\<close>










subsection \<open>The fragment that stops the packager\<close>

text \<open>One sound run without a sample, trimmed from a given first picture on: \<^verbatim>\<open>r.samples[k]\<close> with \<^verbatim>\<open>k\<close> one below zero.\<close>

definition demo_silent :: trackRun where
  "demo_silent = demo_run 2 [0, 0, 0, 0, 0, 0, 0x17, 0x70] 0 []"

definition demo_stop :: bytes where
  "demo_stop = putBox k_moof (build 0 demo_silent) @ putBox k_mdat []"

lemma trim_panics: "trimLeadInFrom demo_stop 1 (\<lambda>_. 90000) 0 = None"
proof -
  have ok: "run_ok demo_silent"
    by (simp add: demo_silent_def demo_defs run_ok_def trun_ok_def badTimes_def sample_ok_def u24_def u32_def be_def runDefaults_def no_defaults_def has_def)
  have len: "length (build 0 demo_silent) = 60" by (simp add: length_run demo_silent_def demo_defs has_def)
  have boxes: "boxes demo_stop = [\<lparr>bx_kind = k_moof, bx_body = build 0 demo_silent\<rparr>, \<lparr>bx_kind = k_mdat, bx_body = []\<rparr>]"
    using boxes_putBox [of k_mdat "[]" "[]"] by (simp add: demo_stop_def boxes_putBox len)
  have sizes: "u32 demo_stop 0 = 68" "u32 demo_stop 68 = 8" "length demo_stop = 76"
  proof -
    show "u32 demo_stop 0 = 68" by (simp add: demo_stop_def u32_putBox len)
    have "drop 68 demo_stop = putBox k_mdat []" by (simp add: demo_stop_def len)
    then have "u32 (drop 68 demo_stop) 0 = 8" using u32_putBox [of "[]" k_mdat "[]"] by simp
    then show "u32 demo_stop 68 = 8" by (simp add: u32_def)
    show "length demo_stop = 76" by (simp add: demo_stop_def len)
  qed
  have "demo_silent\<lparr>tr_dataOff := 0\<rparr> = demo_silent" by (simp add: demo_silent_def demo_run_def noRun_def)
  then have "trimBoxes (boxes (build 0 demo_silent)) [] [] = Some ([], [demo_silent])"
    using build_reads_back(1) [OF ok, of 0 "[]"] build_reads_back(2) [OF ok, of 0] len by (simp add: demo_silent_def demo_run_def)
  moreover have "tr_id demo_silent = 2" "tr_samples demo_silent = []" by (simp_all add: demo_silent_def demo_run_def)
  ultimately show ?thesis
    by (simp add: trimLeadInFrom_def boxes sizes len trimRuns_def soundRun_def)
qed

end
